(* ===== verification/Quagga_Prelude.thy ===== *)
theory Quagga_Prelude
  imports Main "HOL-Library.Word" "HOL-Library.Sublist"
begin

text \<open>
  Shared vocabulary of the development: the C integer types as words, the outcome type
  of C code that can stop (a failed \<open>assert\<close>, a read or write outside an object, a
  null pointer), unsigned \<open>size_t\<close> arithmetic, byte arrays with checked access, and
  the big-endian encoding that every wire format of Quagga uses.
\<close>

unbundle bit_operations_syntax

subsection \<open>C types and outcomes\<close>

type_synonym u8 = "8 word"
type_synonym u16 = "16 word"
type_synonym u32 = "32 word"
type_synonym u64 = "64 word"

text \<open>
  \<open>Assert_Failed\<close>: an \<open>assert\<close> of the source stops the process (\<open>lib/zassert.h\<close>).
  The others are undefined behaviour of C that the model refuses to continue from.
\<close>

datatype c_error = Assert_Failed | Null_Deref | Out_Of_Bounds | Dangling | Uninitialised

type_synonym 'a res = "c_error + 'a"

definition rbind :: "'a res \<Rightarrow> ('a \<Rightarrow> 'b res) \<Rightarrow> 'b res" where
  "rbind m f = (case m of Inl e \<Rightarrow> Inl e | Inr x \<Rightarrow> f x)"

lemma rbind_simps [simp]:
  "rbind (Inl e) f = Inl e"
  "rbind (Inr x) f = f x"
  by (simp_all add: rbind_def)

lemma rbind_eq_Inr [simp]: "rbind m f = Inr y \<longleftrightarrow> (\<exists>x. m = Inr x \<and> f x = Inr y)"
  by (cases m) simp_all

lemma rbind_cong [fundef_cong]:
  "m = m' \<Longrightarrow> (\<And>x. m' = Inr x \<Longrightarrow> f x = g x) \<Longrightarrow> rbind m f = rbind m' g"
  by (cases m') simp_all

text \<open>\<open>c_assert b k\<close> continues with \<open>k\<close> when the asserted condition holds.\<close>

definition c_assert :: "bool \<Rightarrow> 'a res \<Rightarrow> 'a res" where
  "c_assert b k = (if b then k else Inl Assert_Failed)"

lemma c_assert_simps [simp]:
  "c_assert True k = k"
  "c_assert False k = Inl Assert_Failed"
  by (simp_all add: c_assert_def)

lemma c_assert_eq_Inr [simp]: "c_assert b k = Inr y \<longleftrightarrow> b \<and> k = Inr y"
  by (simp add: c_assert_def)

text \<open>Code that may fail and that need not return (the value \<open>None\<close>).\<close>

definition xbind :: "'a res option \<Rightarrow> ('a \<Rightarrow> 'b res option) \<Rightarrow> 'b res option" where
  "xbind m f = Option.bind m (\<lambda>r. case r of Inl e \<Rightarrow> Some (Inl e) | Inr x \<Rightarrow> f x)"

lemma xbind_simps [simp]:
  "xbind None f = None"
  "xbind (Some (Inl e)) f = Some (Inl e)"
  "xbind (Some (Inr x)) f = f x"
  by (simp_all add: xbind_def)

lemma xbind_eq_Inr [simp]: "xbind m f = Some (Inr y) \<longleftrightarrow> (\<exists>x. m = Some (Inr x) \<and> f x = Some (Inr y))"
  by (cases m) (auto simp: xbind_def split: sum.splits)

lemma xbind_mono [partial_function_mono]:
  "mono_option m \<Longrightarrow> (\<And>x. mono_option (\<lambda>f. g x f)) \<Longrightarrow> mono_option (\<lambda>f. xbind (m f) (\<lambda>x. g x f))"
  unfolding xbind_def by (intro bind_mono) (auto split: sum.split simp: monotone_def flat_ord_def)

subsection \<open>\<open>size_t\<close> arithmetic\<close>

text \<open>\<open>size_t\<close> is 64 bits wide; sums and differences wrap around.\<close>

definition SIZE_T :: nat where
  "SIZE_T = 2 ^ 64"

definition size_add :: "nat \<Rightarrow> nat \<Rightarrow> nat" where
  "size_add a b = (a + b) mod SIZE_T"

definition size_sub :: "nat \<Rightarrow> nat \<Rightarrow> nat" where
  "size_sub a b = (a + (SIZE_T - b)) mod SIZE_T"

lemma SIZE_T_pos [simp]: "0 < SIZE_T"
  by (simp add: SIZE_T_def)

lemma size_add_exact [simp]: "a + b < SIZE_T \<Longrightarrow> size_add a b = a + b"
  by (simp add: size_add_def)

lemma size_sub_exact [simp]: "b \<le> a \<Longrightarrow> a < SIZE_T \<Longrightarrow> size_sub a b = a - b"
proof -
  assume ba: "b \<le> a" and a: "a < SIZE_T"
  then have "a + (SIZE_T - b) = (a - b) + SIZE_T" by simp
  then have "(a + (SIZE_T - b)) mod SIZE_T = (a - b) mod SIZE_T"
    by (metis mod_add_self2)
  with a show ?thesis by (simp add: size_sub_def)
qed

lemma size_add_less [simp]: "size_add a b < SIZE_T"
  by (simp add: size_add_def)

subsection \<open>Byte arrays with checked access\<close>

definition mem_get :: "'a list \<Rightarrow> nat \<Rightarrow> nat \<Rightarrow> 'a list res" where
  "mem_get m off n =
     (if off + n \<le> length m then Inr (take n (drop off m)) else Inl Out_Of_Bounds)"

definition mem_put :: "'a list \<Rightarrow> nat \<Rightarrow> 'a list \<Rightarrow> 'a list res" where
  "mem_put m off bs =
     (if off + length bs \<le> length m
      then Inr (take off m @ bs @ drop (off + length bs) m) else Inl Out_Of_Bounds)"

lemma mem_put_ok:
  "off + length bs \<le> length m \<Longrightarrow>
   mem_put m off bs = Inr (take off m @ bs @ drop (off + length bs) m)"
  by (simp add: mem_put_def)

lemma mem_get_ok: "off + n \<le> length m \<Longrightarrow> mem_get m off n = Inr (take n (drop off m))"
  by (simp add: mem_get_def)

lemma mem_put_length: "mem_put m off bs = Inr m' \<Longrightarrow> length m' = length m"
  by (auto simp: mem_put_def split: if_splits)

lemma take_drop_written:
  "off \<le> length m \<Longrightarrow> take (length bs) (drop off (take off m @ bs @ r)) = bs"
  by simp

lemma take_written_below:
  "k \<le> off \<Longrightarrow> off \<le> length m \<Longrightarrow> take k (take off m @ r) = take k m"
  by (simp add: min_def)

subsection \<open>Big-endian words\<close>

text \<open>
  \<open>be_bytes n w\<close> are the low \<open>n\<close> bytes of \<open>w\<close>, most significant first, as the
  \<open>(u_char)(l >> 24), (u_char)(l >> 16), \<dots>\<close> stores of \<open>stream_put*\<close> write them;
  \<open>be_word bs\<close> puts them together with shifts and \<open>|\<close> as \<open>stream_get*\<close> does.
\<close>

fun be_bytes :: "nat \<Rightarrow> 'a::len word \<Rightarrow> u8 list" where
  "be_bytes 0 w = []"
| "be_bytes (Suc n) w = ucast (drop_bit (8 * n) w) # be_bytes n w"

fun be_word :: "u8 list \<Rightarrow> 'a::len word" where
  "be_word [] = 0"
| "be_word (b # bs) = push_bit (8 * length bs) (ucast b) OR be_word bs"

lemma length_be_bytes [simp]: "length (be_bytes n w) = n"
  by (induction n) simp_all

lemma be_word_be_bytes: "be_word (be_bytes n w) = take_bit (8 * n) (w :: 'a::len word)"
proof (induction n)
  case 0
  show ?case by simp
next
  case (Suc n)
  show ?case
  proof (rule bit_word_eqI)
    fix i assume "i < LENGTH('a)"
    then show "bit (be_word (be_bytes (Suc n) w) :: 'a word) i =
        bit (take_bit (8 * Suc n) w) i"
      using Suc.IH
      by (auto simp: bit_or_iff bit_push_bit_iff bit_take_bit_iff bit_unsigned_iff
          bit_drop_bit_eq)
  qed
qed

lemma be_word_be_bytes_full:
  "LENGTH('a) \<le> 8 * n \<Longrightarrow> be_word (be_bytes n w) = (w :: 'a::len word)"
  by (simp add: be_word_be_bytes take_bit_word_eq_self)

lemma bit_be_word_high: "8 * length bs \<le> i \<Longrightarrow> \<not> bit (be_word bs :: 'a::len word) i"
  by (induction bs) (auto simp: bit_or_iff bit_push_bit_iff bit_unsigned_iff not_le
      dest: bit_imp_le_length)

lemma be_bytes_or_high:
  "8 * n \<le> k \<Longrightarrow> be_bytes n (push_bit k u OR v) = be_bytes n (v :: 'a::len word)"
proof (induction n)
  case 0
  show ?case by simp
next
  case (Suc n)
  have "ucast (drop_bit (8 * n) (push_bit k u OR v)) = (ucast (drop_bit (8 * n) v) :: u8)"
    by (rule bit_word_eqI)
      (use Suc.prems in \<open>auto simp: bit_unsigned_iff bit_drop_bit_eq bit_or_iff bit_push_bit_iff\<close>)
  with Suc show ?case by simp
qed

lemma be_bytes_be_word:
  "8 * length bs \<le> LENGTH('a) \<Longrightarrow> be_bytes (length bs) (be_word bs :: 'a::len word) = bs"
proof (induction bs)
  case Nil
  show ?case by simp
next
  case (Cons b bs)
  let ?w = "push_bit (8 * length bs) (ucast b) OR be_word bs :: 'a word"
  have "ucast (drop_bit (8 * length bs) ?w) = b"
  proof (rule bit_word_eqI)
    fix i :: nat assume i: "i < LENGTH(8)"
    with Cons.prems have "8 * length bs + i < LENGTH('a)" by simp
    moreover have "\<not> bit (be_word bs :: 'a word) (8 * length bs + i)"
      by (rule bit_be_word_high) simp
    ultimately show "bit (ucast (drop_bit (8 * length bs) ?w) :: u8) i = bit b i"
      using i by (simp add: bit_unsigned_iff bit_drop_bit_eq bit_or_iff bit_push_bit_iff)
  qed
  moreover have "be_bytes (length bs) ?w = bs"
    using Cons by (simp add: be_bytes_or_high)
  ultimately show ?case by simp
qed

subsection \<open>Bits of a byte, most significant first\<close>

definition byte_bits :: "u8 \<Rightarrow> bool list" where
  "byte_bits b = map (bit b) [7, 6, 5, 4, 3, 2, 1, 0]"

lemma length_byte_bits [simp]: "length (byte_bits b) = 8"
  by (simp add: byte_bits_def)

lemma u8_eq_iff:
  "(x :: u8) = y \<longleftrightarrow> bit x 0 = bit y 0 \<and> bit x 1 = bit y 1 \<and> bit x 2 = bit y 2 \<and>
     bit x 3 = bit y 3 \<and> bit x 4 = bit y 4 \<and> bit x 5 = bit y 5 \<and> bit x 6 = bit y 6 \<and>
     bit x 7 = bit y 7"
proof -
  have "(\<forall>i<8. bit x i = bit y i) \<longleftrightarrow>
      (\<forall>i\<in>{0, 1, 2, 3, 4, 5, 6, 7}. bit x i = bit y i)"
  proof -
    have "{..<8} = {0, 1, 2, 3, 4, 5, 6, 7::nat}" by auto
    then show ?thesis by (metis lessThan_iff)
  qed
  moreover have "x = y \<longleftrightarrow> (\<forall>i<8. bit x i = bit y i)"
    by (auto intro: bit_word_eqI)
  ultimately show ?thesis by simp
qed

lemma byte_bits_inject [simp]: "byte_bits x = byte_bits y \<longleftrightarrow> x = y"
  by (auto simp: byte_bits_def u8_eq_iff)

lemma byte_bits_nth: "i < 8 \<Longrightarrow> byte_bits b ! i = bit b (7 - i)"
proof -
  assume "i < 8"
  then have "i \<in> {0, 1, 2, 3, 4, 5, 6, 7}" by auto
  then show ?thesis by (auto simp: byte_bits_def numeral_eq_Suc)
qed

subsection \<open>Lists\<close>

lemma prefix_iff_take: "prefix xs ys \<longleftrightarrow> length xs \<le> length ys \<and> take (length xs) ys = xs"
  by (metis append_eq_conv_conj prefix_def prefix_length_le take_is_prefix)

subsection \<open>Numbers as text\<close>

text \<open>\<open>%u\<close> of \<open>snprintf\<close>.\<close>

definition digit_char :: "nat \<Rightarrow> char" where
  "digit_char d = char_of (48 + d)"

fun show_u :: "nat \<Rightarrow> string" where
  "show_u n = (if n < 10 then [digit_char n] else show_u (n div 10) @ [digit_char (n mod 10)])"

declare show_u.simps [simp del]

end
