(* ===== verification/Prefix_Addr.thy ===== *)
theory Prefix_Addr
  imports Quagga_Prelude
begin

text \<open>
  Network prefixes, \<open>lib/prefix.h\<close> and \<open>lib/prefix.c\<close>. A \<open>struct prefix\<close> keeps
  the raw bytes of its address union in memory order (network byte order); every routine
  below works on those bytes as the C code does. The abstraction \<open>prefix_bits\<close> reads a
  prefix as the list of its network bits, and the lemmas show that the byte-wise routines
  implement the bit-wise notions (prefix order, equality of networks, masking).
\<close>

subsection \<open>Constants and the prefix structure\<close>

definition AF_UNSPEC :: u8 where "AF_UNSPEC = 0"
definition AF_INET :: u8 where "AF_INET = 2"
definition AF_INET6 :: u8 where "AF_INET6 = 10"

definition AFI_IP :: nat where "AFI_IP = 1"
definition AFI_IP6 :: nat where "AFI_IP6 = 2"

definition IPV4_MAX_BYTELEN :: nat where "IPV4_MAX_BYTELEN = 4"
definition IPV4_MAX_BITLEN :: nat where "IPV4_MAX_BITLEN = 32"
definition IPV6_MAX_BYTELEN :: nat where "IPV6_MAX_BYTELEN = 16"
definition IPV6_MAX_BITLEN :: nat where "IPV6_MAX_BITLEN = 128"

lemmas prefix_consts = AF_UNSPEC_def AF_INET_def AF_INET6_def AFI_IP_def AFI_IP6_def
  IPV4_MAX_BYTELEN_def IPV4_MAX_BITLEN_def IPV6_MAX_BYTELEN_def IPV6_MAX_BITLEN_def

text \<open>The union \<open>u\<close> is the list of its 16 bytes.\<close>

record prefix =
  family :: u8
  prefixlen :: u8
  u_bytes :: "u8 list"

definition PSIZE :: "nat \<Rightarrow> nat" where
  "PSIZE a = (a + 7) div 8"

definition prefix_bit :: "u8 list \<Rightarrow> nat \<Rightarrow> nat" where
  "prefix_bit bs plen =
     (let offset = plen div 8; shift = 7 - plen mod 8
      in unat (drop_bit shift (bs ! offset) AND 1))"

definition maskbit :: "u8 list" where
  "maskbit = [0x00, 0x80, 0xc0, 0xe0, 0xf0, 0xf8, 0xfc, 0xfe, 0xff]"

subsection \<open>Address family conversions\<close>

definition afi2family :: "nat \<Rightarrow> u8" where
  "afi2family afi = (if afi = AFI_IP then AF_INET else if afi = AFI_IP6 then AF_INET6 else 0)"

definition family2afi :: "u8 \<Rightarrow> nat" where
  "family2afi f = (if f = AF_INET then AFI_IP else if f = AF_INET6 then AFI_IP6 else 0)"

definition prefix_family_str :: "prefix \<Rightarrow> string" where
  "prefix_family_str p =
     (if family p = AF_INET then ''inet'' else if family p = AF_INET6 then ''inet6''
      else ''unspec'')"

definition prefix_blen :: "prefix \<Rightarrow> nat" where
  "prefix_blen p =
     (if family p = AF_INET then IPV4_MAX_BYTELEN
      else if family p = AF_INET6 then IPV6_MAX_BYTELEN else 0)"

subsection \<open>Comparison\<close>

text \<open>\<open>bytes_same k\<close> is the loop \<open>while (offset--) if (np[offset] != pp[offset]) return 0\<close>.\<close>

fun bytes_same :: "nat \<Rightarrow> u8 list \<Rightarrow> u8 list \<Rightarrow> bool" where
  "bytes_same 0 np pp = True"
| "bytes_same (Suc k) np pp = (if np ! k \<noteq> pp ! k then False else bytes_same k np pp)"

definition prefix_match :: "prefix \<Rightarrow> prefix \<Rightarrow> bool" where
  "prefix_match n p =
     (if prefixlen n > prefixlen p then False
      else
        let np = u_bytes n; pp = u_bytes p;
            offset = unat (prefixlen n) div 8; shift = unat (prefixlen n) mod 8
        in if shift \<noteq> 0 \<and> maskbit ! shift AND (np ! offset XOR pp ! offset) \<noteq> 0 then False
           else bytes_same offset np pp)"

definition prefix_same :: "prefix \<Rightarrow> prefix \<Rightarrow> bool" where
  "prefix_same p1 p2 =
     (if family p1 = family p2 \<and> prefixlen p1 = prefixlen p2 then
        (if family p1 = AF_INET \<and>
            take IPV4_MAX_BYTELEN (u_bytes p1) = take IPV4_MAX_BYTELEN (u_bytes p2) then True
         else if family p1 = AF_INET6 \<and>
            take IPV6_MAX_BYTELEN (u_bytes p1) = take IPV6_MAX_BYTELEN (u_bytes p2) then True
         else False)
      else False)"

text \<open>\<open>prefix_cmp\<close> returns 0 for equal networks and 1 otherwise.\<close>

definition prefix_cmp :: "prefix \<Rightarrow> prefix \<Rightarrow> int" where
  "prefix_cmp p1 p2 =
     (if family p1 \<noteq> family p2 \<or> prefixlen p1 \<noteq> prefixlen p2 then 1
      else
        let pp1 = u_bytes p1; pp2 = u_bytes p2;
            offset = unat (prefixlen p1) div 8; shift = unat (prefixlen p1) mod 8
        in if shift \<noteq> 0 \<and> maskbit ! shift AND (pp1 ! offset XOR pp2 ! offset) \<noteq> 0 then 1
           else if bytes_same offset pp1 pp2 then 0 else 1)"

definition prefix_copy :: "prefix \<Rightarrow> prefix \<Rightarrow> prefix res" where
  "prefix_copy dest src =
     (let dest' = dest\<lparr>family := family src, prefixlen := prefixlen src\<rparr> in
      if family src = AF_INET then
        Inr (dest'\<lparr>u_bytes := take 4 (u_bytes src) @ drop 4 (u_bytes dest)\<rparr>)
      else if family src = AF_INET6 then
        Inr (dest'\<lparr>u_bytes := take 16 (u_bytes src) @ drop 16 (u_bytes dest)\<rparr>)
      else if family src = AF_UNSPEC then
        Inr (dest'\<lparr>u_bytes := take 8 (u_bytes src) @ drop 8 (u_bytes dest)\<rparr>)
      else Inl Assert_Failed)"

subsection \<open>Allocation\<close>

text \<open>\<open>XCALLOC\<close> zero-fills the structure.\<close>

definition prefix_new :: prefix where
  "prefix_new = \<lparr>family = 0, prefixlen = 0, u_bytes = replicate 16 0\<rparr>"

definition prefix_ipv4_new :: prefix where
  "prefix_ipv4_new = prefix_new\<lparr>family := AF_INET\<rparr>"

definition prefix_ipv6_new :: prefix where
  "prefix_ipv6_new = prefix_new\<lparr>family := AF_INET6\<rparr>"

subsection \<open>Netmasks\<close>

text \<open>
  \<open>masklen2ip\<close> zeroes the four bytes of the netmask, stores \<open>masklen / 8\<close> bytes
  \<open>0xff\<close> and then one partial byte. A store outside the object is an error.
\<close>

definition masklen_fill :: "nat \<Rightarrow> nat \<Rightarrow> u8 list res" where
  "masklen_fill blen masklen =
     (let offset = masklen div 8; b = masklen mod 8 in
      rbind (mem_put (replicate blen 0) 0 (replicate offset 0xff)) (\<lambda>m.
      if b \<noteq> 0 then mem_put m offset [maskbit ! b] else Inr m))"

definition masklen2ip :: "nat \<Rightarrow> u8 list res" where
  "masklen2ip masklen = masklen_fill 4 masklen"

definition masklen2ip6 :: "nat \<Rightarrow> u8 list res" where
  "masklen2ip6 masklen = masklen_fill 16 masklen"

text \<open>
  The loop \<open>while (val) { len++; val <<= 1; }\<close> on an \<open>unsigned char\<close>: each turn
  shifts one bit out, so it ends after at most eight turns.
\<close>

function shl_count :: "u8 \<Rightarrow> nat" where
  "shl_count val = (if val = 0 then 0 else Suc (shl_count (push_bit 1 val)))"
  by pat_completeness auto
termination
proof (relation "measure (\<lambda>v :: u8. LEAST n. push_bit n v = 0)")
  fix val :: u8 assume nz: "val \<noteq> 0"
  let ?P = "\<lambda>n. push_bit n val = 0"
  have p8: "?P 8" by (rule bit_word_eqI) (simp add: bit_push_bit_iff)
  define m where "m = (LEAST n. ?P n)"
  have Pm: "?P m" unfolding m_def using p8 by (rule LeastI)
  with nz obtain k where k: "m = Suc k" by (cases m) auto
  have "(LEAST n. push_bit n (push_bit 1 val) = 0) \<le> k"
    using Pm k by (intro Least_le) (simp add: push_bit_push_bit)
  then show "(push_bit 1 val, val) \<in> measure (\<lambda>v :: u8. LEAST n. push_bit n v = 0)"
    using k m_def by simp
qed simp

declare shl_count.simps [simp del]

text \<open>
  \<open>ip_masklen\<close>: the bytes \<open>0xff\<close> count eight each, then the bits of the next byte
  are shifted out. The IPv4 loop tests \<open>pnt < end\<close> before it reads.
\<close>

fun ip_masklen_loop :: "u8 list \<Rightarrow> nat \<Rightarrow> nat" where
  "ip_masklen_loop [] len = len"
| "ip_masklen_loop (b # bs) len =
     (if b = 0xff then ip_masklen_loop bs (len + 8) else len + shl_count b)"

definition ip_masklen :: "u8 list \<Rightarrow> u8" where
  "ip_masklen netmask = of_nat (ip_masklen_loop (take 4 netmask) 0)"

text \<open>
  \<open>ip6_masklen\<close> reads \<open>*pnt\<close> before it tests \<open>len < 128\<close>, so a netmask of sixteen
  bytes \<open>0xff\<close> makes it read one byte past the object.
\<close>

fun ip6_masklen_loop :: "u8 list \<Rightarrow> nat \<Rightarrow> nat res" where
  "ip6_masklen_loop [] len = Inl Out_Of_Bounds"
| "ip6_masklen_loop (b # bs) len =
     (if b = 0xff \<and> len < 128 then ip6_masklen_loop bs (len + 8)
      else if len < 128 then Inr (len + shl_count b) else Inr len)"

definition ip6_masklen :: "u8 list \<Rightarrow> nat res" where
  "ip6_masklen netmask = ip6_masklen_loop netmask 0"

subsection \<open>Masking\<close>

definition apply_mask_bytes :: "nat \<Rightarrow> prefix \<Rightarrow> prefix" where
  "apply_mask_bytes blen p =
     (let index = unat (prefixlen p) div 8; offset = unat (prefixlen p) mod 8;
          pnt = u_bytes p
      in if index < blen then
           p\<lparr>u_bytes := take index pnt @ [pnt ! index AND maskbit ! offset] @
               replicate (blen - Suc index) 0 @ drop blen pnt\<rparr>
         else p)"

definition apply_mask_ipv4 :: "prefix \<Rightarrow> prefix" where
  "apply_mask_ipv4 p = apply_mask_bytes 4 p"

definition apply_mask_ipv6 :: "prefix \<Rightarrow> prefix" where
  "apply_mask_ipv6 p = apply_mask_bytes 16 p"

definition apply_mask :: "prefix \<Rightarrow> prefix" where
  "apply_mask p =
     (if family p = AF_INET then apply_mask_ipv4 p
      else if family p = AF_INET6 then apply_mask_ipv6 p else p)"

definition prefix_ipv4_any :: "prefix \<Rightarrow> bool" where
  "prefix_ipv4_any p \<longleftrightarrow> take 4 (u_bytes p) = replicate 4 0 \<and> prefixlen p = 0"

text \<open>The class tests of \<open>netinet/in.h\<close> on a host-order address.\<close>

definition IN_CLASSA :: "u32 \<Rightarrow> bool" where "IN_CLASSA a \<longleftrightarrow> a AND 0x80000000 = 0"
definition IN_CLASSB :: "u32 \<Rightarrow> bool" where "IN_CLASSB a \<longleftrightarrow> a AND 0xc0000000 = 0x80000000"
definition IN_CLASSC :: "u32 \<Rightarrow> bool" where "IN_CLASSC a \<longleftrightarrow> a AND 0xe0000000 = 0xc0000000"

definition apply_classful_mask_ipv4 :: "prefix \<Rightarrow> prefix" where
  "apply_classful_mask_ipv4 p =
     (let destination = be_word (take 4 (u_bytes p)) in
      if unat (prefixlen p) = IPV4_MAX_BITLEN then p
      else if IN_CLASSC destination then apply_mask_ipv4 (p\<lparr>prefixlen := 24\<rparr>)
      else if IN_CLASSB destination then apply_mask_ipv4 (p\<lparr>prefixlen := 16\<rparr>)
      else apply_mask_ipv4 (p\<lparr>prefixlen := 8\<rparr>))"

text \<open>Addresses of type \<open>in_addr_t\<close> are their four bytes in memory order.\<close>

definition ipv4_network_addr :: "u8 list \<Rightarrow> nat \<Rightarrow> u8 list res" where
  "ipv4_network_addr hostaddr masklen =
     rbind (masklen2ip masklen) (\<lambda>m. Inr (map2 (AND) hostaddr m))"

definition ipv4_broadcast_addr :: "u8 list \<Rightarrow> nat \<Rightarrow> u8 list res" where
  "ipv4_broadcast_addr hostaddr masklen =
     rbind (masklen2ip masklen) (\<lambda>msk.
       Inr (if masklen \<noteq> IPV4_MAX_BITLEN - 1
            then map2 (\<lambda>h m. h OR NOT m) hostaddr msk
            else map2 (\<lambda>h m. h XOR NOT m) hostaddr msk))"

subsection \<open>Socket addresses\<close>

text \<open>\<open>union sockunion\<close>: the family and the address bytes of the matching member.\<close>

datatype sockunion = Sin "u8 list" | Sin6 "u8 list" | Su_Other

definition sockunion2prefix :: "sockunion \<Rightarrow> u8 list \<Rightarrow> prefix option res" where
  "sockunion2prefix dest netmask =
     (case dest of
        Sin a \<Rightarrow> Inr (Some (prefix_ipv4_new\<lparr>family := AF_INET,
                   u_bytes := take 4 a @ drop 4 (u_bytes prefix_ipv4_new),
                   prefixlen := ip_masklen netmask\<rparr>))
      | Sin6 a \<Rightarrow> rbind (ip6_masklen netmask) (\<lambda>l.
                  Inr (Some (prefix_ipv6_new\<lparr>family := AF_INET6, prefixlen := of_nat l,
                   u_bytes := take 16 a\<rparr>)))
      | Su_Other \<Rightarrow> Inr None)"

definition sockunion2hostprefix :: "sockunion \<Rightarrow> prefix option" where
  "sockunion2hostprefix su =
     (case su of
        Sin a \<Rightarrow> Some (prefix_ipv4_new\<lparr>family := AF_INET,
                   u_bytes := take 4 a @ drop 4 (u_bytes prefix_ipv4_new),
                   prefixlen := of_nat IPV4_MAX_BITLEN\<rparr>)
      | Sin6 a \<Rightarrow> Some (prefix_ipv6_new\<lparr>family := AF_INET6,
                   prefixlen := of_nat IPV6_MAX_BITLEN, u_bytes := take 16 a\<rparr>)
      | Su_Other \<Rightarrow> None)"

subsection \<open>Reading prefixes from text\<close>

text \<open>
  \<open>atoi\<close> of the C library: white space, an optional sign, then decimal digits. Values
  outside \<open>int\<close> are undefined in C; the model gives the mathematical value there.
\<close>

definition is_space :: "char \<Rightarrow> bool" where
  "is_space c \<longleftrightarrow> of_char c \<in> {9, 10, 11, 12, 13, 32 :: nat}"

definition is_digit :: "char \<Rightarrow> bool" where
  "is_digit c \<longleftrightarrow> 48 \<le> (of_char c :: nat) \<and> (of_char c :: nat) \<le> 57"

definition digits_value :: "string \<Rightarrow> int" where
  "digits_value s = foldl (\<lambda>acc c. 10 * acc + (of_char c - 48)) 0 (takeWhile is_digit s)"

definition atoi :: "string \<Rightarrow> int" where
  "atoi s =
     (case dropWhile is_space s of
        [] \<Rightarrow> 0
      | c # cs \<Rightarrow> if c = CHR ''-'' then - digits_value cs
                  else if c = CHR ''+'' then digits_value cs
                  else digits_value (c # cs))"

definition all_digit :: "string \<Rightarrow> bool" where
  "all_digit str = list_all is_digit str"

text \<open>
  \<open>inet_aton\<close> and \<open>inet_pton(AF_INET6)\<close> are parameters: they give the bytes of the
  address, or nothing when the text is not an address. The functions return the C result
  together with the structure, which a failing call may have changed.
\<close>

definition slash_split :: "string \<Rightarrow> (string \<times> string) option" where
  "slash_split str =
     (case dropWhile (\<lambda>c. c \<noteq> CHR ''/'') str of
        [] \<Rightarrow> None
      | _ # rest \<Rightarrow> Some (takeWhile (\<lambda>c. c \<noteq> CHR ''/'') str, rest))"

definition store_addr :: "u8 list \<Rightarrow> prefix \<Rightarrow> prefix" where
  "store_addr a p = p\<lparr>u_bytes := a @ drop (length a) (u_bytes p)\<rparr>"

definition str2prefix_ipv4 ::
    "(string \<Rightarrow> u8 list option) \<Rightarrow> string \<Rightarrow> prefix \<Rightarrow> bool \<times> prefix" where
  "str2prefix_ipv4 inet_aton str p =
     (case slash_split str of
        None \<Rightarrow>
          (case inet_aton str of
             None \<Rightarrow> (False, p)
           | Some a \<Rightarrow> (True, (store_addr a p)\<lparr>family := AF_INET,
                          prefixlen := of_nat IPV4_MAX_BITLEN\<rparr>))
      | Some (cp, pnt) \<Rightarrow>
          let ret = inet_aton cp;
              p1 = (case ret of None \<Rightarrow> p | Some a \<Rightarrow> store_addr a p);
              plen = word_of_int (atoi pnt) :: u8
          in if unat plen > IPV4_MAX_BITLEN then (False, p1)
             else (ret \<noteq> None, p1\<lparr>family := AF_INET, prefixlen := plen\<rparr>))"

definition str2prefix_ipv6 ::
    "(string \<Rightarrow> u8 list option) \<Rightarrow> string \<Rightarrow> prefix \<Rightarrow> bool \<times> prefix" where
  "str2prefix_ipv6 inet_pton str p =
     (case slash_split str of
        None \<Rightarrow>
          (case inet_pton str of
             None \<Rightarrow> (False, p)
           | Some a \<Rightarrow> (True, (store_addr a p)\<lparr>prefixlen := of_nat IPV6_MAX_BITLEN,
                          family := AF_INET6\<rparr>))
      | Some (cp, pnt) \<Rightarrow>
          (case inet_pton cp of
             None \<Rightarrow> (False, p)
           | Some a \<Rightarrow>
               let p1 = store_addr a p; plen = word_of_int (atoi pnt) :: u8
               in if unat plen > 128 then (False, p1)
                  else (True, p1\<lparr>prefixlen := plen, family := AF_INET6\<rparr>)))"

definition str2prefix ::
    "(string \<Rightarrow> u8 list option) \<Rightarrow> (string \<Rightarrow> u8 list option) \<Rightarrow> string \<Rightarrow> prefix \<Rightarrow> bool \<times> prefix" where
  "str2prefix inet_aton inet_pton str p =
     (case str2prefix_ipv4 inet_aton str p of
        (True, p1) \<Rightarrow> (True, p1)
      | (False, p1) \<Rightarrow> str2prefix_ipv6 inet_pton str p1)"

text \<open>
  \<open>netmask_str2prefix_str\<close>: the prefix length of \<open>net_str\<close> under the optional mask,
  or nothing on failure; the text it prints is \<open>net_str\<close>, a slash and that length.
\<close>

definition netmask_str2prefix_str ::
    "(string \<Rightarrow> u8 list option) \<Rightarrow> string \<Rightarrow> string option \<Rightarrow> (string \<times> u8) option" where
  "netmask_str2prefix_str inet_aton net_str mask_str =
     (case inet_aton net_str of
        None \<Rightarrow> None
      | Some network \<Rightarrow>
          (case mask_str of
             Some ms \<Rightarrow>
               (case inet_aton ms of
                  None \<Rightarrow> None
                | Some m \<Rightarrow> Some (net_str, ip_masklen m))
           | None \<Rightarrow>
               let destination = be_word network in
               if network = [0, 0, 0, 0] then Some (net_str, 0)
               else if IN_CLASSC destination then Some (net_str, 24)
               else if IN_CLASSB destination then Some (net_str, 16)
               else if IN_CLASSA destination then Some (net_str, 8)
               else None))"

section \<open>Prefixes as lists of bits\<close>

definition bits_of :: "u8 list \<Rightarrow> bool list" where
  "bits_of bs = concat (map byte_bits bs)"

definition prefix_bits :: "prefix \<Rightarrow> bool list" where
  "prefix_bits p = take (unat (prefixlen p)) (bits_of (u_bytes p))"

text \<open>A well-formed prefix has the 16 bytes of the union and a length its family allows.\<close>

definition prefix_ok :: "prefix \<Rightarrow> bool" where
  "prefix_ok p \<longleftrightarrow> length (u_bytes p) = 16 \<and> family p \<in> {AF_INET, AF_INET6} \<and>
     unat (prefixlen p) \<le> 8 * prefix_blen p"

lemma bits_of_simps [simp]:
  "bits_of [] = []"
  "bits_of (b # bs) = byte_bits b @ bits_of bs"
  "bits_of (xs @ ys) = bits_of xs @ bits_of ys"
  by (simp_all add: bits_of_def)

lemma length_bits_of [simp]: "length (bits_of bs) = 8 * length bs"
  by (induction bs) simp_all

lemma prefix_ok_len: "prefix_ok p \<Longrightarrow> unat (prefixlen p) \<le> 128 \<and> length (u_bytes p) = 16"
  by (auto simp: prefix_ok_def prefix_blen_def prefix_consts)

lemma length_prefix_bits [simp]:
  "prefix_ok p \<Longrightarrow> length (prefix_bits p) = unat (prefixlen p)"
  by (drule prefix_ok_len) (simp add: prefix_bits_def)

lemma add_8_div_8 [simp]: "(m + 8) div 8 = Suc (m div (8::nat))"
  by simp

lemma nth_bits_of:
  "i < 8 * length bs \<Longrightarrow> bits_of bs ! i = bit (bs ! (i div 8)) (7 - i mod 8)"
proof (induction bs arbitrary: i)
  case Nil
  then show ?case by simp
next
  case (Cons b bs)
  show ?case
  proof (cases "i < 8")
    case True
    then show ?thesis by (simp add: nth_append byte_bits_nth)
  next
    case False
    then obtain j where "i = j + 8" by (metis add.commute le_Suc_ex not_less)
    with Cons show ?thesis by (simp add: nth_append)
  qed
qed

lemma take_bits_of_eq:
  assumes "n \<le> 8 * length xs" "n \<le> 8 * length ys"
  shows "take n (bits_of xs) = take n (bits_of ys) \<longleftrightarrow>
    take (n div 8) xs = take (n div 8) ys \<and>
    (n mod 8 \<noteq> 0 \<longrightarrow> take (n mod 8) (byte_bits (xs ! (n div 8))) =
                      take (n mod 8) (byte_bits (ys ! (n div 8))))"
  using assms
proof (induction xs arbitrary: ys n)
  case Nil
  then show ?case by simp
next
  case (Cons x xs)
  show ?case
  proof (cases "n < 8")
    case True
    with Cons.prems show ?thesis by (cases ys) auto
  next
    case False
    then obtain m where n: "n = m + 8" by (metis add.commute le_Suc_ex not_less)
    with Cons.prems obtain y ys' where ys: "ys = y # ys'" by (cases ys) auto
    show ?thesis using Cons.prems Cons.IH [of m ys'] by (simp add: n ys)
  qed
qed

lemma less_8_cases: "(n::nat) < 8 \<longleftrightarrow> n \<in> {0, 1, 2, 3, 4, 5, 6, 7}"
  by auto

lemma maskbit_xor:
  assumes "k < 8"
  shows "maskbit ! k AND (x XOR y) = 0 \<longleftrightarrow> take k (byte_bits x) = take k (byte_bits y)"
proof -
  have "k \<in> {0, 1, 2, 3, 4, 5, 6, 7}" using assms by (simp only: less_8_cases)
  then show ?thesis
    by (elim insertE emptyE)
      (simp_all add: maskbit_def byte_bits_def u8_eq_iff bit_and_iff bit_xor_iff conj_ac)
qed

lemma bytes_same_iff:
  "k \<le> length xs \<Longrightarrow> k \<le> length ys \<Longrightarrow> bytes_same k xs ys \<longleftrightarrow> take k xs = take k ys"
  by (induction k) (simp_all add: take_Suc_conv_app_nth)

text \<open>The comparison that \<open>prefix_match\<close> and \<open>prefix_cmp\<close> share.\<close>

lemma byte_compare_iff:
  assumes "n \<le> 8 * length xs" "n \<le> 8 * length ys"
  shows "\<not> (n mod 8 \<noteq> 0 \<and> maskbit ! (n mod 8) AND (xs ! (n div 8) XOR ys ! (n div 8)) \<noteq> 0) \<and>
    bytes_same (n div 8) xs ys \<longleftrightarrow> take n (bits_of xs) = take n (bits_of ys)"
proof -
  have "n div 8 \<le> length xs" "n div 8 \<le> length ys" using assms by linarith+
  then show ?thesis
    by (auto simp: take_bits_of_eq [OF assms] bytes_same_iff maskbit_xor)
qed

subsection \<open>Matching and equality of networks\<close>

lemma word_le_unat: "(a :: u8) > b \<longleftrightarrow> unat a > unat b"
  by (simp add: word_less_nat_alt)

lemma prefix_match_take:
  assumes "prefix_ok n" "prefix_ok p"
  shows "prefix_match n p \<longleftrightarrow> unat (prefixlen n) \<le> unat (prefixlen p) \<and>
    take (unat (prefixlen n)) (bits_of (u_bytes n)) = take (unat (prefixlen n)) (bits_of (u_bytes p))"
proof -
  have "unat (prefixlen n) \<le> 8 * length (u_bytes n)" "unat (prefixlen n) \<le> 8 * length (u_bytes p)"
    using assms [THEN prefix_ok_len] by auto
  from byte_compare_iff [OF this] show ?thesis
    unfolding prefix_match_def word_le_unat Let_def by auto
qed

lemma prefix_match_bits:
  assumes "prefix_ok n" "prefix_ok p"
  shows "prefix_match n p \<longleftrightarrow> Sublist.prefix (prefix_bits n) (prefix_bits p)"
proof -
  let ?n = "unat (prefixlen n)" and ?p = "unat (prefixlen p)"
  have len: "?n \<le> 128" "?p \<le> 128" "length (u_bytes n) = 16" "length (u_bytes p) = 16"
    using assms [THEN prefix_ok_len] by auto
  then show ?thesis
    by (auto simp: prefix_match_take [OF assms] prefix_iff_take prefix_bits_def min_def)
qed

lemma prefix_cmp_bits:
  assumes "prefix_ok p1" "prefix_ok p2"
  shows "prefix_cmp p1 p2 = 0 \<longleftrightarrow> family p1 = family p2 \<and> prefix_bits p1 = prefix_bits p2"
proof (cases "prefixlen p1 = prefixlen p2")
  case True
  have "unat (prefixlen p1) \<le> 8 * length (u_bytes p1)" "unat (prefixlen p1) \<le> 8 * length (u_bytes p2)"
    using assms [THEN prefix_ok_len] True by auto
  from byte_compare_iff [OF this] True show ?thesis
    by (auto simp: prefix_cmp_def prefix_bits_def Let_def)
next
  case False
  then have "length (prefix_bits p1) \<noteq> length (prefix_bits p2)"
    using assms by (simp add: word_unat_eq_iff)
  then show ?thesis using False by (auto simp: prefix_cmp_def)
qed

subsection \<open>Masking in terms of bits\<close>

lemma byte_bits_maskbit:
  assumes "k < 8"
  shows "byte_bits (x AND maskbit ! k) = take k (byte_bits x) @ replicate (8 - k) False"
proof -
  have "k \<in> {0, 1, 2, 3, 4, 5, 6, 7}" using assms by (simp only: less_8_cases)
  then show ?thesis
    by (elim insertE emptyE)
      (simp_all add: maskbit_def byte_bits_def bit_and_iff numeral_eq_Suc)
qed

lemma bits_of_zeros [simp]: "bits_of (replicate n 0) = replicate (8 * n) False"
  by (induction n) (simp_all add: byte_bits_def numeral_eq_Suc replicate_add [symmetric])

lemma bits_of_ones [simp]: "bits_of (replicate n 0xff) = replicate (8 * n) True"
  by (induction n) (simp_all add: byte_bits_def numeral_eq_Suc replicate_add [symmetric])

lemma bits_of_take: "bits_of (take k bs) = take (8 * k) (bits_of bs)"
proof (induction bs arbitrary: k)
  case (Cons b bs)
  then show ?case by (cases k) simp_all
qed simp

lemma bits_of_drop: "bits_of (drop k bs) = drop (8 * k) (bits_of bs)"
proof (induction bs arbitrary: k)
  case (Cons b bs)
  then show ?case by (cases k) simp_all
qed simp

lemma take_bits_of_split:
  assumes "n div 8 < length bs"
  shows "take n (bits_of bs) =
    bits_of (take (n div 8) bs) @ take (n mod 8) (byte_bits (bs ! (n div 8)))"
proof -
  have "bits_of bs = bits_of (take (n div 8) bs) @ byte_bits (bs ! (n div 8)) @
      bits_of (drop (Suc (n div 8)) bs)"
    by (metis assms id_take_nth_drop bits_of_simps(2,3))
  moreover have "n = 8 * (n div 8) + n mod 8" by simp
  ultimately have "take n (bits_of bs) = take (8 * (n div 8) + n mod 8)
      (bits_of (take (n div 8) bs) @ byte_bits (bs ! (n div 8)) @ bits_of (drop (Suc (n div 8)) bs))"
    by metis
  then show ?thesis using assms by (simp add: min_def minus_mult_div_eq_mod)
qed

lemma apply_mask_bytes_bits:
  assumes "length (u_bytes p) = 16" "blen \<le> 16" "unat (prefixlen p) \<le> 8 * blen"
  shows "bits_of (u_bytes (apply_mask_bytes blen p)) =
    prefix_bits p @ replicate (8 * blen - unat (prefixlen p)) False @
    drop (8 * blen) (bits_of (u_bytes p))"
proof (cases "unat (prefixlen p) div 8 < blen")
  case True
  let ?n = "unat (prefixlen p)"
  have "?n div 8 < length (u_bytes p)" using True assms by simp
  moreover have sum: "8 * blen - ?n = (8 - ?n mod 8) + 8 * (blen - Suc (?n div 8))"
    using True assms(3) by (simp add: diff_mult_distrib2)
  have "replicate (8 - ?n mod 8) False @ replicate (8 * (blen - Suc (?n div 8))) False @ ys =
      replicate (8 * blen - ?n) False @ ys" for ys
    unfolding sum replicate_add by simp
  ultimately show ?thesis using True
    by (simp add: apply_mask_bytes_def prefix_bits_def take_bits_of_split byte_bits_maskbit
        bits_of_drop Let_def)
next
  case False
  then have "unat (prefixlen p) = 8 * blen" using assms(3) by simp
  then show ?thesis using False by (simp add: apply_mask_bytes_def prefix_bits_def)
qed

lemma apply_mask_bits:
  assumes "prefix_ok p"
  shows "bits_of (u_bytes (apply_mask p)) =
    prefix_bits p @ replicate (8 * prefix_blen p - unat (prefixlen p)) False @
    drop (8 * prefix_blen p) (bits_of (u_bytes p))"
proof -
  have "apply_mask p = apply_mask_bytes (prefix_blen p) p" "prefix_blen p \<le> 16"
    using assms by (auto simp: apply_mask_def apply_mask_ipv4_def apply_mask_ipv6_def
        prefix_ok_def prefix_blen_def prefix_consts)
  then show ?thesis using assms by (simp add: apply_mask_bytes_bits prefix_ok_def)
qed

lemma bits_of_inject [simp]: "bits_of xs = bits_of ys \<longleftrightarrow> xs = ys"
proof
  assume eq: "bits_of xs = bits_of ys"
  then have len: "length xs = length ys" by (metis length_bits_of mult_cancel1 zero_neq_numeral)
  with eq take_bits_of_eq [of "8 * length xs" xs ys] show "xs = ys" by simp
qed simp

lemma apply_mask_frame [simp]:
  "family (apply_mask p) = family p"
  "prefixlen (apply_mask p) = prefixlen p"
  "prefix_blen (apply_mask p) = prefix_blen p"
  by (simp_all add: apply_mask_def apply_mask_ipv4_def apply_mask_ipv6_def apply_mask_bytes_def
      prefix_blen_def prefix_consts Let_def)

lemma apply_mask_ok [simp]: "prefix_ok p \<Longrightarrow> prefix_ok (apply_mask p)"
proof -
  assume ok: "prefix_ok p"
  have "8 * length (u_bytes (apply_mask p)) = 8 * 16"
    using arg_cong [OF apply_mask_bits [OF ok], of length] ok prefix_ok_len [OF ok]
    by (auto simp: prefix_ok_def prefix_blen_def prefix_consts)
  then show ?thesis using ok by (simp add: prefix_ok_def)
qed

lemma apply_mask_same_bits [simp]: "prefix_ok p \<Longrightarrow> prefix_bits (apply_mask p) = prefix_bits p"
  unfolding prefix_bits_def [of "apply_mask p"] by (simp add: apply_mask_bits)

subsection \<open>Netmasks in terms of bits\<close>

lemma byte_bits_maskbit_ones:
  assumes "k < 8"
  shows "byte_bits (maskbit ! k) = replicate k True @ replicate (8 - k) False"
proof -
  have "k \<in> {0, 1, 2, 3, 4, 5, 6, 7}" using assms by (simp only: less_8_cases)
  then show ?thesis
    by (elim insertE emptyE) (simp_all add: maskbit_def byte_bits_def numeral_eq_Suc)
qed

lemma masklen_fill_bytes:
  assumes "n \<le> 8 * blen"
  shows "masklen_fill blen n = Inr (replicate (n div 8) 0xff @
    (if n mod 8 = 0 then replicate (blen - n div 8) 0
     else maskbit ! (n mod 8) # replicate (blen - Suc (n div 8)) 0))"
proof -
  have "n div 8 \<le> blen" using assms by linarith
  moreover have "n mod 8 \<noteq> 0 \<Longrightarrow> n div 8 < blen" using assms by presburger
  ultimately show ?thesis
    by (cases "n mod 8 = 0") (auto simp: masklen_fill_def mem_put_def Let_def)
qed

lemma masklen_fill_bits:
  assumes "n \<le> 8 * blen" "masklen_fill blen n = Inr m"
  shows "bits_of m = replicate n True @ replicate (8 * blen - n) False"
proof -
  let ?k = "n div 8" and ?r = "n mod 8"
  have ones: "replicate (8 * ?k) True @ replicate ?r True @ ys = replicate n True @ ys" for ys
    by (simp flip: append_assoc replicate_add)
  show ?thesis
  proof (cases "?r = 0")
    case True
    then have "8 * ?k = n" by (simp add: mod_0_imp_dvd)
    with True assms show ?thesis
      by (auto simp: masklen_fill_bytes diff_mult_distrib2)
  next
    case False
    then have "?k < blen" using assms(1) by presburger
    then have sum: "8 * blen - n = (8 - ?r) + 8 * (blen - Suc ?k)"
      using assms(1) by (simp add: diff_mult_distrib2)
    show ?thesis using assms False
      unfolding sum replicate_add by (auto simp: masklen_fill_bytes byte_bits_maskbit_ones ones)
  qed
qed

lemma shl_count_maskbit: "k < 8 \<Longrightarrow> shl_count (maskbit ! k) = k"
proof -
  assume "k < 8"
  then have "k \<in> {0, 1, 2, 3, 4, 5, 6, 7}" by (simp only: less_8_cases)
  then show ?thesis
    by (elim insertE emptyE) (simp_all add: maskbit_def shl_count.simps)
qed

lemma ip_masklen_loop_ones:
  "ip_masklen_loop (replicate k 0xff @ bs) len = ip_masklen_loop bs (len + 8 * k)"
  by (induction k arbitrary: len) (simp_all add: algebra_simps)

lemma maskbit_not_ff: "k < 8 \<Longrightarrow> maskbit ! k \<noteq> 0xff"
  using byte_bits_maskbit_ones [of k] by (auto simp: less_8_cases maskbit_def)

lemma shl_count_0 [simp]: "shl_count 0 = 0"
  by (simp add: shl_count.simps)

lemma masklen_roundtrip_loop:
  assumes "n \<le> 8 * blen" "masklen_fill blen n = Inr m"
  shows "ip_masklen_loop m 0 = n"
proof (cases "n mod 8 = 0")
  case True
  then have n: "8 * (n div 8) = n" by (simp add: mod_0_imp_dvd)
  show ?thesis
    using True n assms ip_masklen_loop_ones [of "n div 8" "[]" 0] by (cases "blen - n div 8")
      (auto simp: masklen_fill_bytes ip_masklen_loop_ones)
next
  case False
  then show ?thesis using assms maskbit_not_ff [of "n mod 8"] shl_count_maskbit [of "n mod 8"]
    by (auto simp: masklen_fill_bytes ip_masklen_loop_ones)
qed

lemma shl_count_bound: "push_bit n v = 0 \<Longrightarrow> shl_count v \<le> n"
proof (induction n arbitrary: v)
  case (Suc n)
  then have "push_bit n (push_bit 1 v) = 0" by (simp add: push_bit_push_bit)
  then show ?case using Suc.IH [of "push_bit 1 v"] by (subst shl_count.simps) simp
qed simp

lemma shl_count_le: "shl_count v \<le> 8"
  by (rule shl_count_bound) (rule bit_word_eqI, simp add: bit_push_bit_iff)

lemma ip_masklen_loop_le: "ip_masklen_loop bs len \<le> len + 8 * length bs"
proof (induction bs arbitrary: len)
  case (Cons b bs)
  show ?case using Cons.IH [of "len + 8"] shl_count_le [of b] by simp
qed simp

subsection \<open>The order of networks\<close>

text \<open>
  What a client of \<open>prefix_match\<close> relies on: it is the prefix order on the bits.
  Then it is transitive, antisymmetric up to equal bits, and the networks that contain
  a given one form a chain, which is what longest-prefix matching needs.
\<close>

locale network_order =
  fixes bits :: "'p \<Rightarrow> bool list" and ok :: "'p \<Rightarrow> bool" and contains :: "'p \<Rightarrow> 'p \<Rightarrow> bool"
  assumes contains_iff: "ok n \<Longrightarrow> ok p \<Longrightarrow> contains n p \<longleftrightarrow> prefix (bits n) (bits p)"
begin

lemma contains_refl: "ok p \<Longrightarrow> contains p p"
  by (simp add: contains_iff)

lemma contains_trans:
  "ok a \<Longrightarrow> ok b \<Longrightarrow> ok c \<Longrightarrow> contains a b \<Longrightarrow> contains b c \<Longrightarrow> contains a c"
  by (auto simp: contains_iff)

lemma contains_antisym:
  "ok a \<Longrightarrow> ok b \<Longrightarrow> contains a b \<Longrightarrow> contains b a \<Longrightarrow> bits a = bits b"
  by (simp add: contains_iff prefix_order.antisym)

lemma contains_chain:
  "ok a \<Longrightarrow> ok b \<Longrightarrow> ok p \<Longrightarrow> contains a p \<Longrightarrow> contains b p \<Longrightarrow> contains a b \<or> contains b a"
  by (auto simp: contains_iff dest: prefix_same_cases)

end

interpretation pm: network_order prefix_bits prefix_ok prefix_match
  by unfold_locales (rule prefix_match_bits)

subsection \<open>Network and broadcast addresses\<close>

lemma bits_of_map2_and:
  "length xs = length ys \<Longrightarrow> bits_of (map2 (AND) xs ys) = map2 (\<and>) (bits_of xs) (bits_of ys)"
  by (induction xs ys rule: list_induct2) (simp_all add: byte_bits_def bit_and_iff)

lemma bits_of_map2_or_not:
  "length xs = length ys \<Longrightarrow>
   bits_of (map2 (\<lambda>h m. h OR NOT m) xs ys) = map2 (\<lambda>a b. a \<or> \<not> b) (bits_of xs) (bits_of ys)"
  by (induction xs ys rule: list_induct2)
    (simp_all add: byte_bits_def bit_or_iff bit_not_iff)

lemma map2_mask:
  assumes "length xs = n + k"
  shows "map2 f xs (replicate n True @ replicate k False) =
    map (\<lambda>a. f a True) (take n xs) @ map (\<lambda>a. f a False) (drop n xs)"
proof -
  have "map2 f (take n xs @ drop n xs) (replicate n True @ replicate k False) =
      map2 f (take n xs) (replicate n True) @ map2 f (drop n xs) (replicate k False)"
    using assms by (subst zip_append) simp_all
  then show ?thesis using assms by (simp add: zip_replicate2 comp_def)
qed

lemma masklen2ip_total:
  assumes "n \<le> 32"
  obtains m where "masklen2ip n = Inr m" "length m = 4"
    "bits_of m = replicate n True @ replicate (32 - n) False"
proof -
  obtain m where m: "masklen2ip n = Inr m"
    using assms by (simp add: masklen2ip_def masklen_fill_bytes)
  then have bits: "bits_of m = replicate n True @ replicate (32 - n) False"
    using assms masklen_fill_bits [of n 4 m] by (simp add: masklen2ip_def)
  then have "8 * length m = 32" using assms by (metis length_bits_of length_append length_replicate
        le_add_diff_inverse)
  with m bits that show ?thesis by simp
qed

lemma ipv4_network_addr_bits:
  assumes "n \<le> 32" "length h = 4"
  shows "\<exists>a. ipv4_network_addr h n = Inr a \<and> length a = 4 \<and>
    bits_of a = take n (bits_of h) @ replicate (32 - n) False"
proof -
  from assms(1) obtain m where "masklen2ip n = Inr m" "length m = 4"
    "bits_of m = replicate n True @ replicate (32 - n) False" by (rule masklen2ip_total)
  with assms show ?thesis
    by (simp add: ipv4_network_addr_def bits_of_map2_and map2_mask map_replicate_const)
qed

lemma ipv4_broadcast_addr_bits:
  assumes "n \<le> 32" "n \<noteq> 31" "length h = 4"
  shows "\<exists>a. ipv4_broadcast_addr h n = Inr a \<and> length a = 4 \<and>
    bits_of a = take n (bits_of h) @ replicate (32 - n) True"
proof -
  from assms(1) obtain m where "masklen2ip n = Inr m" "length m = 4"
    "bits_of m = replicate n True @ replicate (32 - n) False" by (rule masklen2ip_total)
  with assms show ?thesis
    by (simp add: ipv4_broadcast_addr_def bits_of_map2_or_not map2_mask map_replicate_const
        prefix_consts)
qed

lemma prefix_bit_nth: "i < 8 * length bs \<Longrightarrow> prefix_bit bs i = of_bool (bits_of bs ! i)"
proof -
  assume i: "i < 8 * length bs"
  have "unat (x AND 1 :: u8) = of_bool (bit x 0)" for x :: u8
    by (simp add: and_one_eq mod_2_eq_odd bit_0)
  then show ?thesis using i by (simp add: prefix_bit_def nth_bits_of bit_drop_bit_eq Let_def)
qed

section \<open>Properties\<close>

text \<open>C29: \<open>prefix_match n p\<close>, with its byte loop and partial-byte mask, decides exactly
  whether the network bits of \<open>n\<close> are an initial segment of those of \<open>p\<close>.\<close>

theorem prefix_match_correct:
  "prefix_ok n \<Longrightarrow> prefix_ok p \<Longrightarrow> prefix_match n p \<longleftrightarrow> Sublist.prefix (prefix_bits n) (prefix_bits p)"
  by (rule pm.contains_iff)

definition pfx_10_8 :: prefix where
  "pfx_10_8 = \<lparr>family = 2, prefixlen = 8, u_bytes = [10, 1, 2, 3] @ replicate 12 0\<rparr>"

definition pfx_10_1_12 :: prefix where
  "pfx_10_1_12 = \<lparr>family = 2, prefixlen = 12, u_bytes = [10, 0x1f, 2, 3] @ replicate 12 0\<rparr>"

lemma sample_prefixes_ok [simp]: "prefix_ok pfx_10_8" "prefix_ok pfx_10_1_12"
  by (simp_all add: prefix_ok_def pfx_10_8_def pfx_10_1_12_def prefix_blen_def prefix_consts)

theorem prefix_match_correct_witness:
  "prefix_match pfx_10_8 pfx_10_1_12 \<and>
   Sublist.prefix (prefix_bits pfx_10_8) (prefix_bits pfx_10_1_12)"
proof -
  have "prefix_match pfx_10_8 pfx_10_1_12" by code_simp
  then show ?thesis
    using prefix_match_correct [of pfx_10_8 pfx_10_1_12] by simp
qed

text \<open>\<open>prefix_cmp\<close> returns 0 exactly when the two prefixes have the same family and
  each of them matches the other.\<close>

theorem prefix_cmp_zero_iff_match:
  assumes "prefix_ok p" "prefix_ok q"
  shows "prefix_cmp p q = 0 \<longleftrightarrow> family p = family q \<and> prefix_match p q \<and> prefix_match q p"
  using assms pm.contains_antisym [of p q]
  by (auto simp: prefix_cmp_bits prefix_match_bits)

theorem prefix_cmp_zero_iff_match_witness:
  "prefix_cmp pfx_10_8 (apply_mask pfx_10_8) = 0 \<and> prefix_match (apply_mask pfx_10_8) pfx_10_8"
proof -
  have "prefix_cmp pfx_10_8 (apply_mask pfx_10_8) = 0" by code_simp
  then show ?thesis
    using prefix_cmp_zero_iff_match [of pfx_10_8 "apply_mask pfx_10_8"] by simp
qed

text \<open>C30: \<open>apply_mask\<close> yields the canonical form of a prefix: the same network, every
  host bit zero, and a second application changes nothing.\<close>

theorem apply_mask_canonical:
  assumes "prefix_ok p"
  shows "prefix_ok (apply_mask p) \<and> prefix_cmp (apply_mask p) p = 0 \<and>
    apply_mask (apply_mask p) = apply_mask p \<and>
    (\<forall>i. unat (prefixlen p) \<le> i \<and> i < 8 * prefix_blen p \<longrightarrow>
         prefix_bit (u_bytes (apply_mask p)) i = 0)"
proof -
  let ?q = "apply_mask p"
  note len = prefix_ok_len [OF assms] prefix_ok_len [OF apply_mask_ok [OF assms]]
  have blen: "prefix_blen p \<le> 16" by (simp add: prefix_blen_def prefix_consts)
  have le: "unat (prefixlen p) \<le> 8 * prefix_blen p" using assms by (simp add: prefix_ok_def)
  have "drop (8 * prefix_blen p) (bits_of (u_bytes ?q)) = drop (8 * prefix_blen p) (bits_of (u_bytes p))"
    using le assms by (simp add: apply_mask_bits)
  then have "bits_of (u_bytes (apply_mask ?q)) = bits_of (u_bytes ?q)"
    using assms by (simp add: apply_mask_bits [of ?q]) (simp add: apply_mask_bits)
  then have idem: "apply_mask ?q = ?q" by simp
  have "prefix_bit (u_bytes ?q) i = 0" if "unat (prefixlen p) \<le> i" "i < 8 * prefix_blen p" for i
  proof -
    have "i < 8 * length (u_bytes ?q)" using that len blen by simp
    moreover have "\<not> bits_of (u_bytes ?q) ! i"
      using that assms by (simp add: apply_mask_bits nth_append diff_less_mono)
    ultimately show ?thesis by (simp add: prefix_bit_nth)
  qed
  with idem show ?thesis using assms by (simp add: prefix_cmp_bits)
qed

theorem apply_mask_canonical_witness:
  "prefix_cmp (apply_mask pfx_10_1_12) pfx_10_1_12 = 0 \<and>
   prefix_bit (u_bytes (apply_mask pfx_10_1_12)) 15 = 0 \<and> prefix_bit (u_bytes pfx_10_1_12) 15 = 1"
proof -
  have "prefix_bit (u_bytes pfx_10_1_12) 15 = 1" by code_simp
  moreover have "unat (prefixlen pfx_10_1_12) \<le> 15 \<and> 15 < 8 * prefix_blen pfx_10_1_12"
    by code_simp
  ultimately show ?thesis using apply_mask_canonical [of pfx_10_1_12] by simp
qed

text \<open>\<open>masklen2ip\<close> and \<open>ip_masklen\<close> are inverse on every IPv4 prefix length: the mask
  of length \<open>n\<close> is four bytes of \<open>n\<close> ones followed by zeros, and its length reads back
  as \<open>n\<close>; a longer length writes outside the address.\<close>

theorem masklen_roundtrip:
  "(n \<le> 32 \<longrightarrow> (\<exists>m. masklen2ip n = Inr m \<and> ip_masklen m = of_nat n \<and> length m = 4 \<and>
      bits_of m = replicate n True @ replicate (32 - n) False)) \<and>
   (32 < n \<longrightarrow> masklen2ip n = Inl Out_Of_Bounds)"
proof (intro conjI impI)
  assume n: "n \<le> 32"
  then obtain m where m: "masklen2ip n = Inr m" "length m = 4"
    "bits_of m = replicate n True @ replicate (32 - n) False" by (rule masklen2ip_total)
  then have "ip_masklen m = of_nat n"
    using n masklen_roundtrip_loop [of n 4 m] by (simp add: ip_masklen_def masklen2ip_def)
  with m show "\<exists>m. masklen2ip n = Inr m \<and> ip_masklen m = of_nat n \<and> length m = 4 \<and>
      bits_of m = replicate n True @ replicate (32 - n) False" by auto
next
  assume n: "32 < n"
  show "masklen2ip n = Inl Out_Of_Bounds"
  proof (cases "n div 8 = 4")
    case True
    then have "n mod 8 \<noteq> 0" using n by presburger
    with True show ?thesis by (simp add: masklen2ip_def masklen_fill_def mem_put_def)
  next
    case False
    then have "\<not> n div 8 \<le> 4" using n by presburger
    then show ?thesis by (simp add: masklen2ip_def masklen_fill_def mem_put_def)
  qed
qed

theorem masklen_roundtrip_witness:
  "(\<exists>m. masklen2ip 19 = Inr m \<and> ip_masklen m = 19) \<and> masklen2ip 33 = Inl Out_Of_Bounds"
  using masklen_roundtrip [of 19] masklen_roundtrip [of 33] by auto

text \<open>The two ways of computing a network agree: \<open>ipv4_network_addr\<close>, which ANDs with a
  built netmask, yields the address bytes that \<open>apply_mask_ipv4\<close> leaves in the prefix, and
  except for /31 \<open>ipv4_broadcast_addr\<close> has the same network bits and only ones after them.\<close>

theorem ipv4_network_addr_agrees:
  assumes "prefix_ok p" "family p = AF_INET"
  shows "ipv4_network_addr (take 4 (u_bytes p)) (unat (prefixlen p)) =
      Inr (take 4 (u_bytes (apply_mask_ipv4 p))) \<and>
    (unat (prefixlen p) \<noteq> 31 \<longrightarrow>
      (\<exists>b. ipv4_broadcast_addr (take 4 (u_bytes p)) (unat (prefixlen p)) = Inr b \<and>
           bits_of b = prefix_bits p @ replicate (32 - unat (prefixlen p)) True))"
proof -
  let ?n = "unat (prefixlen p)" and ?h = "take 4 (u_bytes p)"
  have n: "?n \<le> 32" and len: "length (u_bytes p) = 16"
    using assms by (simp_all add: prefix_ok_def prefix_blen_def prefix_consts)
  then have h: "length ?h = 4" and bits: "take ?n (bits_of ?h) = prefix_bits p"
    by (simp_all add: bits_of_take prefix_bits_def min_def)
  have "bits_of (take 4 (u_bytes (apply_mask_ipv4 p))) = prefix_bits p @ replicate (32 - ?n) False"
    using n len by (simp add: bits_of_take apply_mask_ipv4_def apply_mask_bytes_bits prefix_bits_def)
  moreover obtain a where "ipv4_network_addr ?h ?n = Inr a"
    "bits_of a = take ?n (bits_of ?h) @ replicate (32 - ?n) False"
    using ipv4_network_addr_bits [OF n h] by auto
  ultimately have "ipv4_network_addr ?h ?n = Inr (take 4 (u_bytes (apply_mask_ipv4 p)))"
    unfolding bits by (metis bits_of_inject)
  then show ?thesis using ipv4_broadcast_addr_bits [OF n _ h] bits by auto
qed

theorem ipv4_network_addr_agrees_witness:
  "ipv4_network_addr [10, 0x1f, 2, 3] 12 = Inr [10, 0x10, 0, 0]"
proof -
  have "take 4 (u_bytes (apply_mask_ipv4 pfx_10_1_12)) = [10, 0x10, 0, 0]" by code_simp
  then show ?thesis
    using ipv4_network_addr_agrees [OF sample_prefixes_ok(2)]
    by (simp add: pfx_10_1_12_def AF_INET_def)
qed

text \<open>C37: The prefix length of \<open>str2prefix_ipv4\<close> is checked after it was cut to eight bits:
  for every address text, \<open>address/256\<close> is accepted and gives a prefix of length 0.\<close>

theorem str2prefix_ipv4_wraps:
  assumes "CHR ''/'' \<notin> set cp" "inet_aton cp = Some a"
  shows "str2prefix_ipv4 inet_aton (cp @ ''/256'') p =
    (True, (store_addr a p)\<lparr>family := AF_INET, prefixlen := 0\<rparr>)"
proof -
  have "\<forall>c\<in>set cp. c \<noteq> CHR ''/''" using assms(1) by blast
  then have "slash_split (cp @ ''/256'') = Some (cp, ''256'')"
    by (simp add: slash_split_def dropWhile_append2 takeWhile_append2)
  moreover have "atoi ''256'' = 256" by code_simp
  ultimately show ?thesis using assms(2) by (simp add: str2prefix_ipv4_def prefix_consts)
qed

theorem str2prefix_ipv4_wraps_witness:
  "str2prefix_ipv4 (\<lambda>s. if s = ''10.0.0.0'' then Some [10, 0, 0, 0] else None)
     ''10.0.0.0/256'' prefix_new =
   (True, \<lparr>family = AF_INET, prefixlen = 0, u_bytes = [10, 0, 0, 0] @ replicate 12 0\<rparr>)"
  using str2prefix_ipv4_wraps [of "''10.0.0.0''"
      "\<lambda>s. if s = ''10.0.0.0'' then Some [10, 0, 0, 0] else None" "[10, 0, 0, 0]" prefix_new]
  by (simp add: store_addr_def prefix_new_def numeral_eq_Suc)

end
