(* ===== verification/Stream_Buffer.thy ===== *)
theory Stream_Buffer
  imports Prefix_Addr
begin

text \<open>
  Stream buffers, \<open>lib/stream.h\<close> and \<open>lib/stream.c\<close>, with the \<open>readn\<close> loop of
  \<open>lib/network.c\<close>. A stream has a read offset, a write offset, a size and its data block.
  Every operation starts with the assertions of \<open>STREAM_VERIFY_SANE\<close>; an access outside
  the readable or writable part ends in \<open>STREAM_BOUND_WARN\<close>, whose \<open>assert(0)\<close> stops
  the process. Offsets are \<open>size_t\<close> and wrap around. The abstraction \<open>readable\<close> views a
  stream as the queue of bytes between the two offsets.
\<close>

section \<open>Operations\<close>

record stream =
  getp :: nat
  endp :: nat
  ssize :: nat
  sdata :: "u8 list"

definition GETP_VALID :: "stream \<Rightarrow> nat \<Rightarrow> bool" where
  "GETP_VALID s g \<longleftrightarrow> g \<le> endp s"

definition ENDP_VALID :: "stream \<Rightarrow> nat \<Rightarrow> bool" where
  "ENDP_VALID s e \<longleftrightarrow> e \<le> ssize s"

definition STREAM_WRITEABLE :: "stream \<Rightarrow> nat" where
  "STREAM_WRITEABLE s = size_sub (ssize s) (endp s)"

definition STREAM_READABLE :: "stream \<Rightarrow> nat" where
  "STREAM_READABLE s = size_sub (endp s) (getp s)"

definition STREAM_VERIFY_SANE :: "stream \<Rightarrow> 'a res \<Rightarrow> 'a res" where
  "STREAM_VERIFY_SANE s k = c_assert (GETP_VALID s (getp s)) (c_assert (ENDP_VALID s (endp s)) k)"

definition STREAM_BOUND_WARN :: "'a res" where
  "STREAM_BOUND_WARN = Inl Assert_Failed"

text \<open>\<open>CHECK_SIZE\<close> cuts the requested size when \<open>endp + size\<close>, a wrapping sum, exceeds the size.\<close>

definition CHECK_SIZE :: "stream \<Rightarrow> nat \<Rightarrow> nat" where
  "CHECK_SIZE s z = (if size_add (endp s) z > ssize s then size_sub (ssize s) (endp s) else z)"

subsection \<open>Allocation\<close>

text \<open>\<open>XMALLOC\<close> does not initialise the data block: \<open>init\<close> gives its bytes.\<close>

definition stream_new :: "(nat \<Rightarrow> u8) \<Rightarrow> nat \<Rightarrow> stream res" where
  "stream_new init sz =
     c_assert (sz > 0) (Inr \<lparr>getp = 0, endp = 0, ssize = sz, sdata = map init [0..<sz]\<rparr>)"

definition stream_copy :: "stream \<Rightarrow> stream \<Rightarrow> stream res" where
  "stream_copy new src =
     STREAM_VERIFY_SANE src
       (c_assert (ssize new \<ge> endp src)
         (rbind (mem_get (sdata src) 0 (endp src)) (\<lambda>bs.
          rbind (mem_put (sdata new) 0 bs) (\<lambda>d.
          Inr (new\<lparr>endp := endp src, getp := getp src, sdata := d\<rparr>)))))"

definition stream_dup :: "(nat \<Rightarrow> u8) \<Rightarrow> stream \<Rightarrow> stream res" where
  "stream_dup init s =
     STREAM_VERIFY_SANE s (rbind (stream_new init (endp s)) (\<lambda>new. stream_copy new s))"

text \<open>
  \<open>XREALLOC\<close> keeps the common part of the block and leaves the rest uninitialised; with
  size 0 the allocator of the C library returns no memory and \<open>zrealloc\<close> aborts.
\<close>

definition stream_resize :: "(nat \<Rightarrow> u8) \<Rightarrow> stream \<Rightarrow> nat \<Rightarrow> (nat \<times> stream) res" where
  "stream_resize init s newsize =
     STREAM_VERIFY_SANE s
       (c_assert (newsize > 0)
         (let s1 = s\<lparr>sdata := take newsize (sdata s) @ map init [length (sdata s)..<newsize],
                     ssize := newsize\<rparr>;
              s2 = (if endp s1 > ssize s1 then s1\<lparr>endp := ssize s1\<rparr> else s1);
              s3 = (if getp s2 > endp s2 then s2\<lparr>getp := endp s2\<rparr> else s2)
          in STREAM_VERIFY_SANE s3 (Inr (ssize s3, s3))))"

subsection \<open>Offsets\<close>

definition stream_get_getp :: "stream \<Rightarrow> nat res" where
  "stream_get_getp s = STREAM_VERIFY_SANE s (Inr (getp s))"

definition stream_get_endp :: "stream \<Rightarrow> nat res" where
  "stream_get_endp s = STREAM_VERIFY_SANE s (Inr (endp s))"

definition stream_get_size :: "stream \<Rightarrow> nat res" where
  "stream_get_size s = STREAM_VERIFY_SANE s (Inr (ssize s))"

definition stream_set_getp :: "stream \<Rightarrow> nat \<Rightarrow> stream res" where
  "stream_set_getp s pos =
     STREAM_VERIFY_SANE s
       (if \<not> GETP_VALID s pos then STREAM_BOUND_WARN else Inr (s\<lparr>getp := pos\<rparr>))"

definition stream_forward_getp :: "stream \<Rightarrow> nat \<Rightarrow> stream res" where
  "stream_forward_getp s sz =
     STREAM_VERIFY_SANE s
       (if \<not> GETP_VALID s (size_add (getp s) sz) then STREAM_BOUND_WARN
        else Inr (s\<lparr>getp := size_add (getp s) sz\<rparr>))"

definition stream_forward_endp :: "stream \<Rightarrow> nat \<Rightarrow> stream res" where
  "stream_forward_endp s sz =
     STREAM_VERIFY_SANE s
       (if \<not> ENDP_VALID s (size_add (endp s) sz) then STREAM_BOUND_WARN
        else Inr (s\<lparr>endp := size_add (endp s) sz\<rparr>))"

subsection \<open>Reading\<close>

text \<open>
  \<open>fetch n\<close> is \<open>n\<close> times \<open>s->data[s->getp++]\<close> (or the \<open>memcpy\<close> and the increment);
  \<open>fetch_from\<close> reads at a given offset and leaves the stream alone.
\<close>

definition fetch :: "nat \<Rightarrow> stream \<Rightarrow> (u8 list \<times> stream) res" where
  "fetch n s = rbind (mem_get (sdata s) (getp s) n) (\<lambda>bs.
     Inr (bs, s\<lparr>getp := size_add (getp s) n\<rparr>))"

definition stream_get :: "stream \<Rightarrow> nat \<Rightarrow> (u8 list \<times> stream) res" where
  "stream_get s sz =
     STREAM_VERIFY_SANE s
       (if STREAM_READABLE s < sz then STREAM_BOUND_WARN else fetch sz s)"

definition stream_getc :: "stream \<Rightarrow> (u8 \<times> stream) res" where
  "stream_getc s =
     STREAM_VERIFY_SANE s
       (if STREAM_READABLE s < 1 then STREAM_BOUND_WARN
        else rbind (fetch 1 s) (\<lambda>(bs, s'). Inr (be_word bs, s')))"

definition stream_getc_from :: "stream \<Rightarrow> nat \<Rightarrow> u8 res" where
  "stream_getc_from s from =
     STREAM_VERIFY_SANE s
       (if \<not> GETP_VALID s (size_add from 1) then STREAM_BOUND_WARN
        else rbind (mem_get (sdata s) from 1) (\<lambda>bs. Inr (be_word bs)))"

definition stream_getw :: "stream \<Rightarrow> (u16 \<times> stream) res" where
  "stream_getw s =
     STREAM_VERIFY_SANE s
       (if STREAM_READABLE s < 2 then STREAM_BOUND_WARN
        else rbind (fetch 2 s) (\<lambda>(bs, s'). Inr (be_word bs, s')))"

definition stream_getw_from :: "stream \<Rightarrow> nat \<Rightarrow> u16 res" where
  "stream_getw_from s from =
     STREAM_VERIFY_SANE s
       (if \<not> GETP_VALID s (size_add from 2) then STREAM_BOUND_WARN
        else rbind (mem_get (sdata s) from 2) (\<lambda>bs. Inr (be_word bs)))"

definition stream_getl_from :: "stream \<Rightarrow> nat \<Rightarrow> u32 res" where
  "stream_getl_from s from =
     STREAM_VERIFY_SANE s
       (if \<not> GETP_VALID s (size_add from 4) then STREAM_BOUND_WARN
        else rbind (mem_get (sdata s) from 4) (\<lambda>bs. Inr (be_word bs)))"

definition stream_getl :: "stream \<Rightarrow> (u32 \<times> stream) res" where
  "stream_getl s =
     STREAM_VERIFY_SANE s
       (if STREAM_READABLE s < 4 then STREAM_BOUND_WARN
        else rbind (fetch 4 s) (\<lambda>(bs, s'). Inr (be_word bs, s')))"

definition stream_getq_from :: "stream \<Rightarrow> nat \<Rightarrow> u64 res" where
  "stream_getq_from s from =
     STREAM_VERIFY_SANE s
       (if \<not> GETP_VALID s (size_add from 8) then STREAM_BOUND_WARN
        else rbind (mem_get (sdata s) from 8) (\<lambda>bs. Inr (be_word bs)))"

definition stream_getq :: "stream \<Rightarrow> (u64 \<times> stream) res" where
  "stream_getq s =
     STREAM_VERIFY_SANE s
       (if STREAM_READABLE s < 8 then STREAM_BOUND_WARN
        else rbind (fetch 8 s) (\<lambda>(bs, s'). Inr (be_word bs, s')))"

text \<open>The \<open>ipv4\<close> variants copy memory: the value is little endian on the host.\<close>

definition stream_get_ipv4 :: "stream \<Rightarrow> (u32 \<times> stream) res" where
  "stream_get_ipv4 s =
     STREAM_VERIFY_SANE s
       (if STREAM_READABLE s < 4 then STREAM_BOUND_WARN
        else rbind (fetch 4 s) (\<lambda>(bs, s'). Inr (be_word (rev bs), s')))"

subsection \<open>Writing\<close>

text \<open>\<open>store bs\<close> writes at \<open>endp\<close> and advances it; the puts return the size written.\<close>

definition store :: "u8 list \<Rightarrow> stream \<Rightarrow> stream res" where
  "store bs s = rbind (mem_put (sdata s) (endp s) bs) (\<lambda>d.
     Inr (s\<lparr>sdata := d, endp := size_add (endp s) (length bs)\<rparr>))"

definition put_value :: "u8 list \<Rightarrow> stream \<Rightarrow> (nat \<times> stream) res" where
  "put_value bs s =
     STREAM_VERIFY_SANE s
       (if STREAM_WRITEABLE s < length bs then STREAM_BOUND_WARN
        else rbind (store bs s) (\<lambda>s'. Inr (length bs, s')))"

text \<open>\<open>stream_put\<close> with a null source writes zeros; \<open>src\<close> must hold \<open>size\<close> bytes.\<close>

definition stream_put :: "stream \<Rightarrow> u8 list option \<Rightarrow> nat \<Rightarrow> stream res" where
  "stream_put s src sz =
     (let sz = CHECK_SIZE s sz in
      STREAM_VERIFY_SANE s
        (if STREAM_WRITEABLE s < sz then STREAM_BOUND_WARN
         else case src of
             Some b \<Rightarrow> rbind (mem_get b 0 sz) (\<lambda>bs. store bs s)
           | None \<Rightarrow> store (replicate sz 0) s))"

definition stream_putc :: "u8 \<Rightarrow> stream \<Rightarrow> (nat \<times> stream) res" where
  "stream_putc c s = put_value (be_bytes 1 c) s"

definition stream_putw :: "u16 \<Rightarrow> stream \<Rightarrow> (nat \<times> stream) res" where
  "stream_putw w s = put_value (be_bytes 2 w) s"

definition stream_putl :: "u32 \<Rightarrow> stream \<Rightarrow> (nat \<times> stream) res" where
  "stream_putl l s = put_value (be_bytes 4 l) s"

definition stream_putq :: "u64 \<Rightarrow> stream \<Rightarrow> (nat \<times> stream) res" where
  "stream_putq q s = put_value (be_bytes 8 q) s"

text \<open>The \<open>_at\<close> variants overwrite bytes before \<open>endp\<close>.\<close>

definition put_at :: "nat \<Rightarrow> u8 list \<Rightarrow> stream \<Rightarrow> (nat \<times> stream) res" where
  "put_at putp bs s =
     STREAM_VERIFY_SANE s
       (if \<not> GETP_VALID s (size_add putp (length bs)) then STREAM_BOUND_WARN
        else rbind (mem_put (sdata s) putp bs) (\<lambda>d. Inr (length bs, s\<lparr>sdata := d\<rparr>)))"

definition stream_putc_at :: "stream \<Rightarrow> nat \<Rightarrow> u8 \<Rightarrow> (nat \<times> stream) res" where
  "stream_putc_at s putp c = put_at putp (be_bytes 1 c) s"

definition stream_putw_at :: "stream \<Rightarrow> nat \<Rightarrow> u16 \<Rightarrow> (nat \<times> stream) res" where
  "stream_putw_at s putp w = put_at putp (be_bytes 2 w) s"

definition stream_putl_at :: "stream \<Rightarrow> nat \<Rightarrow> u32 \<Rightarrow> (nat \<times> stream) res" where
  "stream_putl_at s putp l = put_at putp (be_bytes 4 l) s"

definition stream_putq_at :: "stream \<Rightarrow> nat \<Rightarrow> u64 \<Rightarrow> (nat \<times> stream) res" where
  "stream_putq_at s putp q = put_at putp (be_bytes 8 q) s"

definition stream_put_ipv4 :: "u32 \<Rightarrow> stream \<Rightarrow> (nat \<times> stream) res" where
  "stream_put_ipv4 l s = put_value (rev (be_bytes 4 l)) s"

text \<open>A \<open>struct in_addr\<close> is its four bytes in memory.\<close>

definition stream_put_in_addr :: "u8 list \<Rightarrow> stream \<Rightarrow> (nat \<times> stream) res" where
  "stream_put_in_addr addr s =
     STREAM_VERIFY_SANE s
       (if STREAM_WRITEABLE s < 4 then STREAM_BOUND_WARN
        else rbind (mem_get addr 0 4) (\<lambda>bs. rbind (store bs s) (\<lambda>s'. Inr (4, s'))))"

definition stream_put_prefix :: "stream \<Rightarrow> prefix \<Rightarrow> (nat \<times> stream) res" where
  "stream_put_prefix s p =
     STREAM_VERIFY_SANE s
       (let psize = PSIZE (unat (prefixlen p)) in
        if STREAM_WRITEABLE s < psize then STREAM_BOUND_WARN
        else rbind (stream_putc (prefixlen p) s) (\<lambda>(_, s1).
             rbind (mem_get (u_bytes p) 0 psize) (\<lambda>bs.
             rbind (store bs s1) (\<lambda>s2. Inr (psize, s2)))))"

definition stream_write :: "stream \<Rightarrow> u8 list \<Rightarrow> nat \<Rightarrow> (nat \<times> stream) res" where
  "stream_write s ptr sz =
     (let sz = CHECK_SIZE s sz in
      STREAM_VERIFY_SANE s
        (if STREAM_WRITEABLE s < sz then STREAM_BOUND_WARN
         else rbind (mem_get ptr 0 sz) (\<lambda>bs. rbind (store bs s) (\<lambda>s'. Inr (sz, s')))))"

subsection \<open>Input and output\<close>

text \<open>
  The outcome of a system call that reads: the bytes, a transient error
  (\<open>ERRNO_IO_RETRY\<close>: \<open>EAGAIN\<close>, \<open>EWOULDBLOCK\<close>, \<open>EINTR\<close>) or another error. The
  calls themselves are parameters, from the requested size to the outcome.
\<close>

datatype io_result = Io_Data "u8 list" | Io_Retry | Io_Fatal

text \<open>
  \<open>readn\<close>: \<open>rd i\<close> is the \<open>i\<close>-th call of \<open>read\<close>. The result is the bytes that reached
  the buffer and the returned count.
\<close>

function readn :: "(nat \<Rightarrow> nat \<Rightarrow> io_result) \<Rightarrow> nat \<Rightarrow> nat \<Rightarrow> u8 list \<Rightarrow> u8 list \<times> int" where
  "readn rd i nleft acc =
     (if nleft = 0 then (acc, int (length acc))
      else case rd i nleft of
          Io_Data bs \<Rightarrow>
            if bs = [] then (acc, int (length acc))
            else readn rd (Suc i) (nleft - length bs) (acc @ bs)
        | Io_Retry \<Rightarrow> (acc, - 1)
        | Io_Fatal \<Rightarrow> (acc, - 1))"
  by pat_completeness auto
termination
  by (relation "measure (\<lambda>(rd, i, nleft, acc). nleft)") auto

declare readn.simps [simp del]

text \<open>The received bytes are stored from \<open>endp\<close>; \<open>endp\<close> then moves by the count.\<close>

definition stream_read :: "(nat \<Rightarrow> nat \<Rightarrow> io_result) \<Rightarrow> stream \<Rightarrow> nat \<Rightarrow> (int \<times> stream) res" where
  "stream_read rd s sz =
     STREAM_VERIFY_SANE s
       (if STREAM_WRITEABLE s < sz then STREAM_BOUND_WARN
        else case readn rd 0 sz [] of (bs, nbytes) \<Rightarrow>
          rbind (mem_put (sdata s) (endp s) bs) (\<lambda>d.
          let s1 = s\<lparr>sdata := d\<rparr> in
          Inr (nbytes, if nbytes > 0 then s1\<lparr>endp := size_add (endp s1) (nat nbytes)\<rparr> else s1)))"

definition stream_read_unblock :: "(nat \<Rightarrow> io_result) \<Rightarrow> stream \<Rightarrow> nat \<Rightarrow> (int \<times> stream) res" where
  "stream_read_unblock rd s sz =
     STREAM_VERIFY_SANE s
       (if STREAM_WRITEABLE s < sz then STREAM_BOUND_WARN
        else case rd sz of
            Io_Data bs \<Rightarrow> rbind (store bs s) (\<lambda>s'. Inr (int (length bs), s'))
          | _ \<Rightarrow> Inr (- 1, s))"

definition stream_read_try :: "(nat \<Rightarrow> io_result) \<Rightarrow> stream \<Rightarrow> nat \<Rightarrow> (int \<times> stream) res" where
  "stream_read_try rd s sz =
     STREAM_VERIFY_SANE s
       (if STREAM_WRITEABLE s < sz then STREAM_BOUND_WARN
        else case rd sz of
            Io_Data bs \<Rightarrow> rbind (store bs s) (\<lambda>s'. Inr (int (length bs), s'))
          | Io_Retry \<Rightarrow> Inr (- 2, s)
          | Io_Fatal \<Rightarrow> Inr (- 1, s))"

definition stream_recvfrom :: "(nat \<Rightarrow> io_result) \<Rightarrow> stream \<Rightarrow> nat \<Rightarrow> (int \<times> stream) res" where
  "stream_recvfrom recvfrom s sz =
     STREAM_VERIFY_SANE s
       (if STREAM_WRITEABLE s < sz then STREAM_BOUND_WARN
        else case recvfrom sz of
            Io_Data bs \<Rightarrow> rbind (store bs s) (\<lambda>s'. Inr (int (length bs), s'))
          | Io_Retry \<Rightarrow> Inr (- 2, s)
          | Io_Fatal \<Rightarrow> Inr (- 1, s))"

definition stream_recvmsg :: "(nat \<Rightarrow> io_result) \<Rightarrow> nat \<Rightarrow> stream \<Rightarrow> nat \<Rightarrow> (int \<times> stream) res" where
  "stream_recvmsg recvmsg iovlen s sz =
     STREAM_VERIFY_SANE s
       (c_assert (iovlen > 0)
         (if STREAM_WRITEABLE s < sz then STREAM_BOUND_WARN
          else case recvmsg sz of
              Io_Data bs \<Rightarrow> rbind (store bs s) (\<lambda>s'. Inr (int (length bs), s'))
            | _ \<Rightarrow> Inr (- 1, s)))"

definition stream_pnt :: "stream \<Rightarrow> u8 list res" where
  "stream_pnt s = STREAM_VERIFY_SANE s (Inr (drop (getp s) (sdata s)))"

definition stream_empty :: "stream \<Rightarrow> bool res" where
  "stream_empty s = STREAM_VERIFY_SANE s (Inr (endp s = 0))"

definition stream_reset :: "stream \<Rightarrow> stream res" where
  "stream_reset s = STREAM_VERIFY_SANE s (Inr (s\<lparr>getp := 0, endp := 0\<rparr>))"

definition stream_flush :: "(u8 list \<Rightarrow> int) \<Rightarrow> stream \<Rightarrow> int res" where
  "stream_flush wr s =
     STREAM_VERIFY_SANE s
       (rbind (mem_get (sdata s) (getp s) (size_sub (endp s) (getp s))) (\<lambda>bs. Inr (wr bs)))"

section \<open>A stream is a bounded queue of bytes\<close>

text \<open>
  The condition the source states, \<open>getp <= endp <= size\<close>; the block has \<open>size\<close> bytes,
  and no object of C is larger than half of the address space (\<open>PTRDIFF_MAX\<close>).
\<close>

definition stream_ok :: "stream \<Rightarrow> bool" where
  "stream_ok s \<longleftrightarrow> getp s \<le> endp s \<and> endp s \<le> ssize s \<and> ssize s < SIZE_T div 2 \<and>
     length (sdata s) = ssize s"

definition readable :: "stream \<Rightarrow> u8 list" where
  "readable s = take (endp s - getp s) (drop (getp s) (sdata s))"

definition space :: "stream \<Rightarrow> nat" where
  "space s = ssize s - endp s"

text \<open>The effect of a successful write and of a successful read.\<close>

definition appended :: "u8 list \<Rightarrow> stream \<Rightarrow> stream" where
  "appended bs s = s\<lparr>sdata := take (endp s) (sdata s) @ bs @ drop (endp s + length bs) (sdata s),
     endp := endp s + length bs\<rparr>"

definition advanced :: "nat \<Rightarrow> stream \<Rightarrow> stream" where
  "advanced n s = s\<lparr>getp := getp s + n\<rparr>"

lemma stream_ok_sane [simp]: "stream_ok s \<Longrightarrow> STREAM_VERIFY_SANE s k = k"
  by (simp add: stream_ok_def STREAM_VERIFY_SANE_def GETP_VALID_def ENDP_VALID_def)

lemma STREAM_READABLE_ok [simp]: "stream_ok s \<Longrightarrow> STREAM_READABLE s = length (readable s)"
  by (auto simp: stream_ok_def STREAM_READABLE_def readable_def)

lemma STREAM_WRITEABLE_ok [simp]: "stream_ok s \<Longrightarrow> STREAM_WRITEABLE s = space s"
  by (auto simp: stream_ok_def STREAM_WRITEABLE_def space_def)

lemma length_readable: "stream_ok s \<Longrightarrow> length (readable s) = endp s - getp s"
  by (auto simp: stream_ok_def readable_def)

lemma stream_ok_appended [simp]:
  "stream_ok s \<Longrightarrow> length bs \<le> space s \<Longrightarrow> stream_ok (appended bs s)"
  by (auto simp: stream_ok_def appended_def space_def)

lemma readable_appended [simp]:
  "stream_ok s \<Longrightarrow> length bs \<le> space s \<Longrightarrow> readable (appended bs s) = readable s @ bs"
proof -
  assume s: "stream_ok s" "length bs \<le> space s"
  then have "endp s + length bs - getp s = (endp s - getp s) + length bs"
    by (simp add: stream_ok_def)
  with s show ?thesis
    by (auto simp: stream_ok_def appended_def space_def readable_def drop_take)
qed

lemma appended_frame [simp]:
  "getp (appended bs s) = getp s" "endp (appended bs s) = endp s + length bs"
  "ssize (appended bs s) = ssize s" "space (appended bs s) = space s - length bs"
  by (simp_all add: appended_def space_def)

lemma take_appended:
  "stream_ok s \<Longrightarrow> n \<le> endp s \<Longrightarrow> take n (sdata (appended bs s)) = take n (sdata s)"
  by (auto simp: appended_def stream_ok_def min_def)

lemma appended_append:
  "stream_ok s \<Longrightarrow> length xs + length ys \<le> space s \<Longrightarrow>
   appended ys (appended xs s) = appended (xs @ ys) s"
  by (auto simp: appended_def stream_ok_def space_def min_def add_ac)

lemma stream_ok_advanced [simp]:
  "stream_ok s \<Longrightarrow> n \<le> length (readable s) \<Longrightarrow> stream_ok (advanced n s)"
  by (auto simp: stream_ok_def advanced_def readable_def)

lemma readable_advanced [simp]: "readable (advanced n s) = drop n (readable s)"
  by (simp add: advanced_def readable_def drop_take add.commute)

lemma advanced_frame [simp]:
  "getp (advanced n s) = getp s + n" "endp (advanced n s) = endp s"
  "ssize (advanced n s) = ssize s" "space (advanced n s) = space s" "sdata (advanced n s) = sdata s"
  by (simp_all add: advanced_def space_def)

lemma store_ok: "stream_ok s \<Longrightarrow> length bs \<le> space s \<Longrightarrow> store bs s = Inr (appended bs s)"
  by (auto simp: store_def stream_ok_def space_def appended_def mem_put_ok)

lemma fetch_ok:
  "stream_ok s \<Longrightarrow> n \<le> length (readable s) \<Longrightarrow> fetch n s = Inr (take n (readable s), advanced n s)"
  unfolding length_readable
  by (auto simp: fetch_def stream_ok_def readable_def advanced_def mem_get_ok min_def)

lemma put_value_spec:
  "stream_ok s \<Longrightarrow> put_value bs s =
     (if length bs \<le> space s then Inr (length bs, appended bs s) else Inl Assert_Failed)"
  by (auto simp: put_value_def store_ok STREAM_BOUND_WARN_def)

lemma stream_get_spec:
  "stream_ok s \<Longrightarrow> stream_get s n =
     (if n \<le> length (readable s) then Inr (take n (readable s), advanced n s)
      else Inl Assert_Failed)"
  by (auto simp: stream_get_def fetch_ok STREAM_BOUND_WARN_def)

subsection \<open>Fixed-width values\<close>

text \<open>
  The contract of a pair of \<open>stream_put*\<close> and \<open>stream_get*\<close>: a value has an encoding of
  fixed width, a put appends it to the queue or stops for lack of space, a get takes it
  from the front or stops for lack of data.
\<close>

fun put_all :: "('v \<Rightarrow> stream \<Rightarrow> (nat \<times> stream) res) \<Rightarrow> 'v list \<Rightarrow> stream \<Rightarrow> stream res" where
  "put_all put [] s = Inr s"
| "put_all put (v # vs) s = rbind (put v s) (\<lambda>(_, s'). put_all put vs s')"

fun get_all :: "(stream \<Rightarrow> ('v \<times> stream) res) \<Rightarrow> nat \<Rightarrow> stream \<Rightarrow> ('v list \<times> stream) res" where
  "get_all get 0 s = Inr ([], s)"
| "get_all get (Suc n) s = rbind (get s) (\<lambda>(v, s'). rbind (get_all get n s') (\<lambda>(vs, s''). Inr (v # vs, s'')))"

locale stream_codec =
  fixes put :: "'v \<Rightarrow> stream \<Rightarrow> (nat \<times> stream) res"
    and get :: "stream \<Rightarrow> ('v \<times> stream) res"
    and enc :: "'v \<Rightarrow> u8 list" and dec :: "u8 list \<Rightarrow> 'v" and width :: nat
  assumes enc_width [simp]: "length (enc v) = width"
    and dec_enc [simp]: "dec (enc v) = v"
    and put_spec: "stream_ok s \<Longrightarrow> put v s =
      (if width \<le> space s then Inr (width, appended (enc v) s) else Inl Assert_Failed)"
    and get_spec: "stream_ok s \<Longrightarrow> get s =
      (if width \<le> length (readable s) then Inr (dec (take width (readable s)), advanced width s)
       else Inl Assert_Failed)"
begin

lemma put_all_spec:
  "stream_ok s \<Longrightarrow> width * length vs \<le> space s \<Longrightarrow>
   put_all put vs s = Inr (appended (concat (map enc vs)) s)"
proof (induction vs arbitrary: s)
  case Nil
  then show ?case by (simp add: appended_def)
next
  case (Cons v vs)
  then have "put_all put vs (appended (enc v) s) =
      Inr (appended (concat (map enc vs)) (appended (enc v) s))"
    by (intro Cons.IH) simp_all
  moreover have "length (concat (map enc vs)) = width * length vs"
    by (simp add: length_concat comp_def sum_list_triv)
  ultimately show ?case using Cons.prems by (simp add: put_spec appended_append)
qed

lemma get_all_spec:
  "stream_ok s \<Longrightarrow> readable s = concat (map enc vs) @ rest \<Longrightarrow>
   get_all get (length vs) s = Inr (vs, advanced (width * length vs) s)"
proof (induction vs arbitrary: s)
  case Nil
  then show ?case by (simp add: advanced_def)
next
  case (Cons v vs)
  then have "get_all get (length vs) (advanced width s) =
      Inr (vs, advanced (width * length vs) (advanced width s))"
    by (intro Cons.IH) simp_all
  then show ?case using Cons.prems by (simp add: get_spec advanced_def algebra_simps)
qed

lemma put_get_all:
  assumes "stream_ok s" "readable s = []" "width * length vs \<le> space s"
  shows "rbind (put_all put vs s) (get_all get (length vs)) =
    Inr (vs, advanced (width * length vs) (appended (concat (map enc vs)) s))"
proof -
  have "length (concat (map enc vs)) = width * length vs"
    by (simp add: length_concat comp_def sum_list_triv)
  then show ?thesis using assms get_all_spec [of "appended (concat (map enc vs)) s" vs "[]"]
    by (simp add: put_all_spec)
qed

end

lemmas stream_value_defs = stream_putc_def stream_putw_def stream_putl_def stream_putq_def
  stream_put_ipv4_def stream_getc_def stream_getw_def stream_getl_def stream_getq_def
  stream_get_ipv4_def put_value_spec fetch_ok STREAM_BOUND_WARN_def be_word_be_bytes_full

interpretation sc: stream_codec stream_putc stream_getc "be_bytes 1" be_word 1
  by unfold_locales (auto simp: stream_value_defs Suc_le_eq simp del: be_bytes.simps)

interpretation sw: stream_codec stream_putw stream_getw "be_bytes 2" be_word 2
  by unfold_locales (auto simp: stream_value_defs simp del: be_bytes.simps)

interpretation sl: stream_codec stream_putl stream_getl "be_bytes 4" be_word 4
  by unfold_locales (auto simp: stream_value_defs simp del: be_bytes.simps)

interpretation sq: stream_codec stream_putq stream_getq "be_bytes 8" be_word 8
  by unfold_locales (auto simp: stream_value_defs simp del: be_bytes.simps)

interpretation sip: stream_codec stream_put_ipv4 stream_get_ipv4
  "\<lambda>l. rev (be_bytes 4 l)" "\<lambda>bs. be_word (rev bs)" 4
  by unfold_locales (auto simp: stream_value_defs simp del: be_bytes.simps)

subsection \<open>The other operations\<close>

definition patched :: "nat \<Rightarrow> u8 list \<Rightarrow> stream \<Rightarrow> stream" where
  "patched pos bs s = s\<lparr>sdata := take pos (sdata s) @ bs @ drop (pos + length bs) (sdata s)\<rparr>"

lemma put_at_spec:
  "stream_ok s \<Longrightarrow> pos + length bs < SIZE_T \<Longrightarrow> put_at pos bs s =
     (if pos + length bs \<le> endp s then Inr (length bs, patched pos bs s) else Inl Assert_Failed)"
  by (auto simp: put_at_def GETP_VALID_def STREAM_BOUND_WARN_def patched_def stream_ok_def mem_put_ok)

lemma stream_ok_patched [simp]:
  "stream_ok s \<Longrightarrow> pos + length bs \<le> endp s \<Longrightarrow> stream_ok (patched pos bs s)"
  by (auto simp: stream_ok_def patched_def)

lemma patched_frame [simp]:
  "getp (patched pos bs s) = getp s" "endp (patched pos bs s) = endp s"
  "ssize (patched pos bs s) = ssize s"
  by (simp_all add: patched_def)

lemma patched_nth:
  "pos + length bs \<le> length (sdata s) \<Longrightarrow> i < length (sdata s) \<Longrightarrow>
   sdata (patched pos bs s) ! i =
     (if pos \<le> i \<and> i < pos + length bs then bs ! (i - pos) else sdata s ! i)"
  by (auto simp: patched_def nth_append min_def)

lemma getw_from_spec:
  "stream_ok s \<Longrightarrow> pos + 2 < SIZE_T \<Longrightarrow> stream_getw_from s pos =
     (if pos + 2 \<le> endp s then Inr (be_word (take 2 (drop pos (sdata s)))) else Inl Assert_Failed)"
  by (auto simp: stream_getw_from_def GETP_VALID_def STREAM_BOUND_WARN_def stream_ok_def mem_get_ok)

lemma CHECK_SIZE_spec:
  "stream_ok s \<Longrightarrow> endp s + n < SIZE_T \<Longrightarrow> CHECK_SIZE s n = min n (space s)"
  by (auto simp: CHECK_SIZE_def stream_ok_def space_def)

lemma stream_put_spec:
  assumes "stream_ok s" "endp s + n < SIZE_T" "n \<le> length b"
  shows "stream_put s (Some b) n = Inr (appended (take (min n (space s)) b) s)"
    "stream_put s None n = Inr (appended (replicate (min n (space s)) 0) s)"
  using assms by (simp_all add: stream_put_def CHECK_SIZE_spec mem_get_ok store_ok)

lemma stream_resize_spec:
  assumes "stream_ok s" "0 < n" "n < SIZE_T div 2"
  shows "\<exists>s'. stream_resize init s n = Inr (n, s') \<and> stream_ok s' \<and> ssize s' = n \<and>
    readable s' = take (n - getp s) (readable s)"
proof -
  let ?d = "take n (sdata s) @ map init [length (sdata s)..<n]"
  let ?s = "s\<lparr>sdata := ?d, ssize := n, endp := min (endp s) n, getp := min (getp s) n\<rparr>"
  have "stream_resize init s n = STREAM_VERIFY_SANE ?s (Inr (n, ?s))"
    using assms by (auto simp: stream_resize_def Let_def min_def stream_ok_def)
  moreover have "stream_ok ?s" using assms by (auto simp: stream_ok_def)
  moreover have "readable ?s = take (n - getp s) (readable s)"
  proof (cases "n \<le> endp s")
    case True
    then show ?thesis using assms
      by (cases "getp s \<le> n") (auto simp: readable_def stream_ok_def min_def drop_take)
  next
    case False
    then show ?thesis using assms by (auto simp: readable_def stream_ok_def min_def drop_take)
  qed
  ultimately show ?thesis by auto
qed

lemma stream_dup_spec:
  assumes "stream_ok s" "0 < endp s"
  shows "\<exists>s'. stream_dup init s = Inr s' \<and> stream_ok s' \<and> ssize s' = endp s \<and> getp s' = getp s \<and>
    readable s' = readable s"
  using assms by (auto simp: stream_dup_def stream_new_def stream_copy_def mem_get_def mem_put_def
      stream_ok_def readable_def min_def drop_take)

lemma io_store:
  assumes "stream_ok s"
  shows "length bs \<le> space s \<Longrightarrow> rbind (store bs s) (\<lambda>s'. Inr (r, s')) = Inr (r, appended bs s)"
  using assms by (simp add: store_ok)

subsection \<open>Sequences of operations\<close>

text \<open>
  One call of the interface, and its effect on the stream. \<open>Op_Read\<close> is
  \<open>stream_read_try\<close> with the outcome of the system call.
\<close>

datatype stream_op =
    Op_Getc | Op_Getw | Op_Getl | Op_Getq | Op_Get_Ipv4 | Op_Get nat
  | Op_Putc u8 | Op_Putw u16 | Op_Putl u32 | Op_Putq u64 | Op_Put_Ipv4 u32
  | Op_Put "u8 list option" nat | Op_Putc_At nat u8 | Op_Putw_At nat u16 | Op_Putl_At nat u32
  | Op_Putq_At nat u64 | Op_Set_Getp nat | Op_Forward_Getp nat | Op_Forward_Endp nat
  | Op_Reset | Op_Resize nat | Op_Read nat io_result

fun stream_exec :: "(nat \<Rightarrow> u8) \<Rightarrow> stream_op \<Rightarrow> stream \<Rightarrow> stream res" where
  "stream_exec init Op_Getc s = rbind (stream_getc s) (\<lambda>(_, s'). Inr s')"
| "stream_exec init Op_Getw s = rbind (stream_getw s) (\<lambda>(_, s'). Inr s')"
| "stream_exec init Op_Getl s = rbind (stream_getl s) (\<lambda>(_, s'). Inr s')"
| "stream_exec init Op_Getq s = rbind (stream_getq s) (\<lambda>(_, s'). Inr s')"
| "stream_exec init Op_Get_Ipv4 s = rbind (stream_get_ipv4 s) (\<lambda>(_, s'). Inr s')"
| "stream_exec init (Op_Get n) s = rbind (stream_get s n) (\<lambda>(_, s'). Inr s')"
| "stream_exec init (Op_Putc v) s = rbind (stream_putc v s) (\<lambda>(_, s'). Inr s')"
| "stream_exec init (Op_Putw v) s = rbind (stream_putw v s) (\<lambda>(_, s'). Inr s')"
| "stream_exec init (Op_Putl v) s = rbind (stream_putl v s) (\<lambda>(_, s'). Inr s')"
| "stream_exec init (Op_Putq v) s = rbind (stream_putq v s) (\<lambda>(_, s'). Inr s')"
| "stream_exec init (Op_Put_Ipv4 v) s = rbind (stream_put_ipv4 v s) (\<lambda>(_, s'). Inr s')"
| "stream_exec init (Op_Put src n) s = stream_put s src n"
| "stream_exec init (Op_Putc_At p v) s = rbind (stream_putc_at s p v) (\<lambda>(_, s'). Inr s')"
| "stream_exec init (Op_Putw_At p v) s = rbind (stream_putw_at s p v) (\<lambda>(_, s'). Inr s')"
| "stream_exec init (Op_Putl_At p v) s = rbind (stream_putl_at s p v) (\<lambda>(_, s'). Inr s')"
| "stream_exec init (Op_Putq_At p v) s = rbind (stream_putq_at s p v) (\<lambda>(_, s'). Inr s')"
| "stream_exec init (Op_Set_Getp p) s = stream_set_getp s p"
| "stream_exec init (Op_Forward_Getp n) s = stream_forward_getp s n"
| "stream_exec init (Op_Forward_Endp n) s = stream_forward_endp s n"
| "stream_exec init Op_Reset s = stream_reset s"
| "stream_exec init (Op_Resize n) s = rbind (stream_resize init s n) (\<lambda>(_, s'). Inr s')"
| "stream_exec init (Op_Read n r) s = rbind (stream_read_try (\<lambda>_. r) s n) (\<lambda>(_, s'). Inr s')"

fun stream_run :: "(nat \<Rightarrow> u8) \<Rightarrow> stream_op list \<Rightarrow> stream \<Rightarrow> stream res" where
  "stream_run init [] s = Inr s"
| "stream_run init (c # cs) s = rbind (stream_exec init c s) (stream_run init cs)"

text \<open>
  What the caller owes: a source holds the bytes it offers, explicit offsets stay clear of
  the end of \<open>size_t\<close>, and the system call returns no more bytes than were asked for.
\<close>

fun stream_op_ok :: "stream_op \<Rightarrow> bool" where
  "stream_op_ok (Op_Put src n) = (case src of None \<Rightarrow> True | Some b \<Rightarrow> n \<le> length b)"
| "stream_op_ok (Op_Putc_At p v) = (p + 8 < SIZE_T)"
| "stream_op_ok (Op_Putw_At p v) = (p + 8 < SIZE_T)"
| "stream_op_ok (Op_Putl_At p v) = (p + 8 < SIZE_T)"
| "stream_op_ok (Op_Putq_At p v) = (p + 8 < SIZE_T)"
| "stream_op_ok (Op_Resize n) = (n < SIZE_T div 2)"
| "stream_op_ok (Op_Forward_Getp n) = (n < SIZE_T div 2)"
| "stream_op_ok (Op_Forward_Endp n) = (n < SIZE_T div 2)"
| "stream_op_ok (Op_Read n r) = (case r of Io_Data bs \<Rightarrow> length bs \<le> n | _ \<Rightarrow> True)"
| "stream_op_ok _ = True"

definition stream_safe :: "stream res \<Rightarrow> bool" where
  "stream_safe r = (case r of Inr s \<Rightarrow> stream_ok s | Inl e \<Rightarrow> e = Assert_Failed)"

lemma stream_safe_simps [simp]:
  "stream_safe (Inr s) = stream_ok s" "stream_safe (Inl e) = (e = Assert_Failed)"
  by (simp_all add: stream_safe_def)

lemma stream_put_safe:
  assumes "stream_ok s" "case src of None \<Rightarrow> True | Some b \<Rightarrow> n \<le> length b"
  shows "stream_safe (stream_put s src n)"
proof -
  have "CHECK_SIZE s n \<le> space s \<Longrightarrow> stream_put s src n =
      Inr (appended (case src of None \<Rightarrow> replicate (CHECK_SIZE s n) 0 | Some b \<Rightarrow> take (CHECK_SIZE s n) b) s)"
    if "CHECK_SIZE s n \<le> n"
    using assms that by (auto simp: stream_put_def store_ok mem_get_ok split: option.split)
  moreover have "CHECK_SIZE s n > n \<Longrightarrow> False"
    using assms by (auto simp: CHECK_SIZE_def stream_ok_def size_add_def split: if_splits)
  ultimately show ?thesis
    using assms(1) by (cases "CHECK_SIZE s n \<le> space s"; cases "CHECK_SIZE s n \<le> n")
      (auto simp: stream_put_def STREAM_BOUND_WARN_def Let_def split: option.split)
qed

lemma stream_offsets_safe:
  assumes "stream_ok s" "n < SIZE_T div 2"
  shows "stream_safe (stream_forward_getp s n)" "stream_safe (stream_forward_endp s n)"
    and "stream_safe (stream_set_getp s p)" "stream_safe (stream_reset s)"
proof -
  have "getp s + n < SIZE_T" "endp s + n < SIZE_T" using assms by (auto simp: stream_ok_def)
  then show "stream_safe (stream_forward_getp s n)" "stream_safe (stream_forward_endp s n)"
    "stream_safe (stream_set_getp s p)" "stream_safe (stream_reset s)"
    using assms by (auto simp: stream_forward_getp_def stream_forward_endp_def stream_set_getp_def
        stream_reset_def STREAM_BOUND_WARN_def GETP_VALID_def ENDP_VALID_def)
      (auto simp: stream_ok_def)
qed

lemma stream_resize_safe:
  "stream_ok s \<Longrightarrow> n < SIZE_T div 2 \<Longrightarrow> stream_safe (rbind (stream_resize init s n) (\<lambda>(_, s'). Inr s'))"
  using stream_resize_spec [of s n init] by (cases "n = 0") (auto simp: stream_resize_def)

lemmas stream_at_defs = stream_putc_at_def stream_putw_at_def stream_putl_at_def
  stream_putq_at_def put_at_spec

lemma half_pos: "0 < SIZE_T div 2"
  by (simp add: SIZE_T_def)

lemma stream_exec_safe:
  assumes "stream_ok s" "stream_op_ok c"
  shows "stream_safe (stream_exec init c s)"
proof (cases c)
  case (Op_Put src n)
  then show ?thesis using assms stream_put_safe by simp
next
  case (Op_Resize n)
  then show ?thesis using assms stream_resize_safe by simp
next
  case (Op_Read n r)
  then show ?thesis using assms
    by (auto simp: stream_read_try_def STREAM_BOUND_WARN_def io_store split: io_result.splits)
qed (use assms in \<open>auto simp: sc.get_spec sw.get_spec sl.get_spec sq.get_spec sip.get_spec
    sc.put_spec sw.put_spec sl.put_spec sq.put_spec sip.put_spec stream_get_spec stream_at_defs
    stream_offsets_safe [OF _ half_pos] stream_offsets_safe simp del: be_bytes.simps\<close>)

lemma stream_run_safe:
  "stream_ok s \<Longrightarrow> list_all stream_op_ok cs \<Longrightarrow> stream_safe (stream_run init cs s)"
proof (induction cs arbitrary: s)
  case (Cons c cs)
  then have "stream_safe (stream_exec init c s)" using stream_exec_safe by simp
  with Cons show ?case by (cases "stream_exec init c s") auto
qed simp

subsection \<open>Prefixes\<close>

lemma PSIZE_bound: "prefix_ok p \<Longrightarrow> PSIZE (unat (prefixlen p)) \<le> length (u_bytes p)"
  using prefix_ok_len [of p] by (auto simp: PSIZE_def)

lemma stream_put_prefix_spec:
  assumes "stream_ok s" "prefix_ok p"
  defines "psize \<equiv> PSIZE (unat (prefixlen p))"
  shows "space s < psize \<Longrightarrow> stream_put_prefix s p = Inl Assert_Failed"
    and "psize < space s \<Longrightarrow> stream_put_prefix s p =
      Inr (psize, appended (prefixlen p # take psize (u_bytes p)) s)"
    and "0 < psize \<Longrightarrow> space s = psize \<Longrightarrow> stream_put_prefix s p = Inl Out_Of_Bounds"
proof -
  note len = PSIZE_bound [OF assms(2)]
  show "space s < psize \<Longrightarrow> stream_put_prefix s p = Inl Assert_Failed"
    using assms by (simp add: stream_put_prefix_def STREAM_BOUND_WARN_def)
  have putc: "space s \<noteq> 0 \<Longrightarrow> stream_putc (prefixlen p) s = Inr (1, appended [prefixlen p] s)"
    using assms(1) by (simp add: sc.put_spec)
  show "psize < space s \<Longrightarrow> stream_put_prefix s p =
      Inr (psize, appended (prefixlen p # take psize (u_bytes p)) s)"
    using assms len putc
    by (simp add: stream_put_prefix_def mem_get_ok store_ok appended_append Let_def)
  show "0 < psize \<Longrightarrow> space s = psize \<Longrightarrow> stream_put_prefix s p = Inl Out_Of_Bounds"
    using assms len putc stream_ok_appended [OF assms(1), of "[prefixlen p]"]
    by (auto simp: stream_put_prefix_def mem_get_ok store_def mem_put_def stream_ok_def space_def Let_def)
qed

section \<open>Properties\<close>

text \<open>A stream of eight bytes with four of them written, and one with nothing in it.\<close>

definition stream_ex :: stream where
  "stream_ex = \<lparr>getp = 1, endp = 4, ssize = 8, sdata = [1, 2, 3, 4, 9, 9, 9, 9]\<rparr>"

definition stream_ex0 :: stream where
  "stream_ex0 = \<lparr>getp = 0, endp = 0, ssize = 8, sdata = replicate 8 7\<rparr>"

lemma stream_ex_ok [simp]: "stream_ok stream_ex" "stream_ok stream_ex0"
  by (simp_all add: stream_ok_def stream_ex_def stream_ex0_def SIZE_T_def)



text \<open>C14: Values written with \<open>stream_putc\<close>, \<open>stream_putw\<close>, \<open>stream_putl\<close>, \<open>stream_putq\<close> or
  \<open>stream_put_ipv4\<close> to a stream with nothing unread and enough space are read back in order
  by the matching getter, which then leaves the stream empty.\<close>

theorem stream_values_roundtrip:
  assumes "stream_ok s" "readable s = []"
  shows "(length cs \<le> space s \<longrightarrow> (\<exists>s'.
      rbind (put_all stream_putc cs s) (get_all stream_getc (length cs)) = Inr (cs, s') \<and> readable s' = [])) \<and>
    (2 * length ws \<le> space s \<longrightarrow> (\<exists>s'.
      rbind (put_all stream_putw ws s) (get_all stream_getw (length ws)) = Inr (ws, s') \<and> readable s' = [])) \<and>
    (4 * length ls \<le> space s \<longrightarrow> (\<exists>s'.
      rbind (put_all stream_putl ls s) (get_all stream_getl (length ls)) = Inr (ls, s') \<and> readable s' = [])) \<and>
    (8 * length qs \<le> space s \<longrightarrow> (\<exists>s'.
      rbind (put_all stream_putq qs s) (get_all stream_getq (length qs)) = Inr (qs, s') \<and> readable s' = [])) \<and>
    (4 * length ips \<le> space s \<longrightarrow> (\<exists>s'.
      rbind (put_all stream_put_ipv4 ips s) (get_all stream_get_ipv4 (length ips)) = Inr (ips, s') \<and>
      readable s' = []))"
  using sc.put_get_all [OF assms, of cs] sw.put_get_all [OF assms, of ws]
    sl.put_get_all [OF assms, of ls] sq.put_get_all [OF assms, of qs]
    sip.put_get_all [OF assms, of ips] assms
  by (auto simp: length_concat comp_def sum_list_triv simp del: be_bytes.simps)

theorem stream_values_roundtrip_witness:
  "\<exists>s'. rbind (put_all stream_putw [0x1234, 7, 0xffff] stream_ex0) (get_all stream_getw 3) =
     Inr ([0x1234, 7, 0xffff], s')"
proof -
  have "readable stream_ex0 = []" "2 * length [0x1234, 7, 0xffff :: u16] \<le> space stream_ex0"
    by (simp_all add: readable_def space_def stream_ex0_def)
  with stream_values_roundtrip [OF stream_ex_ok(2), of _ "[0x1234, 7, 0xffff]"]
  have "\<exists>s'. rbind (put_all stream_putw [0x1234, 7, 0xffff] stream_ex0)
      (get_all stream_getw (length [0x1234, 7, 0xffff :: u16])) = Inr ([0x1234, 7, 0xffff], s')"
    by blast
  then show ?thesis by (simp only: list.size) (simp add: eval_nat_numeral)
qed

text \<open>A word patched with \<open>stream_putw_at\<close> below \<open>endp\<close> reads back with
  \<open>stream_getw_from\<close> at the same offset, every byte outside the two is unchanged and so are
  the offsets; at or beyond \<open>endp\<close> the call stops in its assertion.\<close>

theorem stream_putw_at_reads_back:
  assumes "stream_ok s" "pos + 2 < SIZE_T"
  shows "(pos + 2 \<le> endp s \<longrightarrow> (\<exists>s'. stream_putw_at s pos w = Inr (2, s') \<and> stream_ok s' \<and>
      stream_getw_from s' pos = Inr w \<and> getp s' = getp s \<and> endp s' = endp s \<and>
      (\<forall>i < ssize s. i \<noteq> pos \<and> i \<noteq> pos + 1 \<longrightarrow> sdata s' ! i = sdata s ! i))) \<and>
    (endp s < pos + 2 \<longrightarrow> stream_putw_at s pos w = Inl Assert_Failed)"
proof (cases "pos + 2 \<le> endp s")
  case True
  let ?s = "patched pos (be_bytes 2 w) s"
  have len: "pos + 2 \<le> length (sdata s)" using True assms by (simp add: stream_ok_def)
  have ok: "stream_ok ?s" using True assms by simp
  have "stream_putw_at s pos w = Inr (2, ?s)"
    using True assms by (simp add: stream_putw_at_def put_at_spec)
  moreover have "take 2 (drop pos (sdata ?s)) = be_bytes 2 w"
    using len take_drop_written [of pos "sdata s" "be_bytes 2 w"] by (simp add: patched_def)
  then have "stream_getw_from ?s pos = Inr w"
    using True assms ok by (simp add: getw_from_spec be_word_be_bytes_full)
  moreover have "\<forall>i < ssize s. i \<noteq> pos \<and> i \<noteq> pos + 1 \<longrightarrow> sdata ?s ! i = sdata s ! i"
    using len assms(1) by (auto simp: patched_nth stream_ok_def)
  ultimately show ?thesis using True ok by auto
next
  case False
  then show ?thesis using assms by (simp add: stream_putw_at_def put_at_spec)
qed

theorem stream_putw_at_reads_back_witness:
  "(\<exists>s'. stream_putw_at stream_ex 2 0xabcd = Inr (2, s') \<and> stream_getw_from s' 2 = Inr 0xabcd) \<and>
   stream_putw_at stream_ex 3 0xabcd = Inl Assert_Failed"
  using stream_putw_at_reads_back [of stream_ex 2 "0xabcd"]
    stream_putw_at_reads_back [of stream_ex 3 "0xabcd"]
  by (auto simp: stream_ex_def [THEN arg_cong [where f = endp]] SIZE_T_def)

text \<open>C35: \<open>stream_put_prefix\<close> appends the length byte and the \<open>PSIZE\<close> address bytes when at
  least one byte more than \<open>PSIZE\<close> is free. Its check ignores the length byte: with exactly
  \<open>PSIZE\<close> bytes free it passes, and the copy writes past the end of the data block.\<close>

theorem stream_put_prefix_off_by_one:
  assumes "stream_ok s" "prefix_ok p"
  shows "let psize = PSIZE (unat (prefixlen p)) in
    (psize < space s \<longrightarrow> (\<exists>s'. stream_put_prefix s p = Inr (psize, s') \<and> stream_ok s' \<and>
       readable s' = readable s @ prefixlen p # take psize (u_bytes p))) \<and>
    (space s < psize \<longrightarrow> stream_put_prefix s p = Inl Assert_Failed) \<and>
    (space s = psize \<and> 0 < psize \<longrightarrow> stream_put_prefix s p = Inl Out_Of_Bounds)"
proof -
  let ?n = "PSIZE (unat (prefixlen p))"
  let ?bs = "prefixlen p # take ?n (u_bytes p)"
  have "?n < space s \<Longrightarrow> length ?bs \<le> space s" by simp
  from readable_appended [OF assms(1) this] stream_ok_appended [OF assms(1) this]
  show ?thesis using stream_put_prefix_spec [OF assms] by (auto simp: Let_def)
qed

theorem stream_put_prefix_off_by_one_witness:
  "stream_put_prefix stream_ex \<lparr>family = AF_INET, prefixlen = 32, u_bytes = replicate 16 1\<rparr> =
     Inl Out_Of_Bounds"
proof -
  let ?p = "\<lparr>family = AF_INET, prefixlen = 32, u_bytes = replicate 16 1\<rparr>"
  have "prefix_ok ?p" by (simp add: prefix_ok_def prefix_blen_def prefix_consts)
  moreover have "space stream_ex = 4" "PSIZE (unat (prefixlen ?p)) = 4"
    by (simp_all add: space_def stream_ex_def PSIZE_def)
  ultimately show ?thesis
    using stream_put_prefix_off_by_one [OF stream_ex_ok(1), of ?p] by (simp add: Let_def)
qed

text \<open>C36: The bounds checks of \<open>stream_forward_getp\<close> and \<open>stream_forward_endp\<close> add in
  \<open>size_t\<close>: a size that wraps around passes them, moves the read offset back to 0, and moves
  \<open>endp\<close> below \<open>getp\<close> so that the stream is no longer sane and the next call stops.\<close>

theorem stream_forward_wraps:
  assumes "stream_ok s" "0 < getp s"
  shows "(\<exists>s'. stream_forward_getp s (SIZE_T - getp s) = Inr s' \<and> getp s' = 0) \<and>
    (\<exists>s'. stream_forward_endp s (SIZE_T - endp s) = Inr s' \<and> \<not> stream_ok s' \<and>
          stream_getc s' = Inl Assert_Failed)"
proof -
  have "size_add (getp s) (SIZE_T - getp s) = 0" "size_add (endp s) (SIZE_T - endp s) = 0"
    using assms by (auto simp: size_add_def stream_ok_def)
  then show ?thesis using assms
    by (auto simp: stream_forward_getp_def stream_forward_endp_def GETP_VALID_def ENDP_VALID_def
        stream_getc_def STREAM_VERIFY_SANE_def) (auto simp: stream_ok_def)
qed

theorem stream_forward_wraps_witness:
  "\<exists>s'. stream_forward_endp stream_ex (SIZE_T - 4) = Inr s' \<and> stream_getc s' = Inl Assert_Failed"
proof -
  have "0 < getp stream_ex" "endp stream_ex = 4" by (simp_all add: stream_ex_def)
  then show ?thesis using stream_forward_wraps [of stream_ex] by auto
qed

text \<open>\<open>stream_resize\<close> and \<open>stream_dup\<close> keep the unread data: growing a stream keeps all
  of it, shrinking keeps what fits below the new size, and a duplicate, sized to \<open>endp\<close>,
  holds the same unread bytes.\<close>

theorem stream_resize_dup_keep_data:
  assumes "stream_ok s" "0 < n" "n < SIZE_T div 2"
  shows "(\<exists>s'. stream_resize init s n = Inr (n, s') \<and> stream_ok s' \<and> ssize s' = n \<and>
      readable s' = take (n - getp s) (readable s)) \<and>
    (0 < endp s \<longrightarrow> (\<exists>s'. stream_dup init s = Inr s' \<and> stream_ok s' \<and> ssize s' = endp s \<and>
      getp s' = getp s \<and> readable s' = readable s))"
  using stream_resize_spec [OF assms] stream_dup_spec [OF assms(1)] by blast

theorem stream_resize_dup_keep_data_witness:
  "(\<exists>s'. stream_resize (\<lambda>_. 0) stream_ex 3 = Inr (3, s') \<and> readable s' = [2, 3]) \<and>
   (\<exists>s'. stream_dup (\<lambda>_. 0) stream_ex = Inr s' \<and> readable s' = [2, 3, 4])"
proof -
  have "readable stream_ex = [2, 3, 4]" "getp stream_ex = 1" "0 < endp stream_ex"
    by (simp_all add: readable_def stream_ex_def)
  then show ?thesis
    using stream_resize_dup_keep_data [of stream_ex 3 "\<lambda>_. 0"] by (auto simp: SIZE_T_def)
qed

end
