(* ===== verification/Stream_Fifo.thy ===== *)
theory Stream_Fifo
  imports Stream_Buffer
begin

text \<open>
  The stream FIFO of \<open>lib/stream.c\<close>: streams linked through their \<open>next\<close> pointer, with
  head and tail pointers and a counter. The streams live in an explicit store, since the
  behaviour depends on which pointers coincide (a stream pushed twice links to itself).
  On fresh streams the FIFO refines a plain queue; the last part shows what happens
  otherwise.
\<close>

section \<open>Operations\<close>

type_synonym addr = nat

record snode =
  snext :: "addr option"
  sbuf :: stream

type_synonym sheap = "addr \<rightharpoonup> snode"

record stream_fifo =
  count :: nat
  head :: "addr option"
  tail :: "addr option"

definition stream_fifo_new :: stream_fifo where
  "stream_fifo_new = \<lparr>count = 0, head = None, tail = None\<rparr>"

definition stream_fifo_push :: "sheap \<Rightarrow> stream_fifo \<Rightarrow> addr \<Rightarrow> (sheap \<times> stream_fifo) res" where
  "stream_fifo_push h fifo s =
     rbind (case tail fifo of
              Some t \<Rightarrow> (case h t of
                  Some n \<Rightarrow> Inr (h(t \<mapsto> n\<lparr>snext := Some s\<rparr>), fifo)
                | None \<Rightarrow> Inl Dangling)
            | None \<Rightarrow> Inr (h, fifo\<lparr>head := Some s\<rparr>))
       (\<lambda>(h', f). Inr (h', f\<lparr>tail := Some s, count := size_add (count f) 1\<rparr>))"

definition stream_fifo_pop :: "sheap \<Rightarrow> stream_fifo \<Rightarrow> (addr option \<times> stream_fifo) res" where
  "stream_fifo_pop h fifo =
     rbind (case head fifo of
              Some s \<Rightarrow> (case h s of
                  Some n \<Rightarrow>
                    let f = fifo\<lparr>head := snext n\<rparr>
                    in Inr (if head f = None then f\<lparr>tail := None\<rparr> else f)
                | None \<Rightarrow> Inl Dangling)
            | None \<Rightarrow> Inr fifo)
       (\<lambda>f. Inr (head fifo, f\<lparr>count := size_sub (count f) 1\<rparr>))"

definition stream_fifo_head :: "stream_fifo \<Rightarrow> addr option" where
  "stream_fifo_head fifo = head fifo"

text \<open>\<open>stream_free\<close> takes the stream out of the store; freeing it again is an error.\<close>

definition stream_free :: "sheap \<Rightarrow> addr option \<Rightarrow> sheap res" where
  "stream_free h s =
     (case s of
        None \<Rightarrow> Inr h
      | Some a \<Rightarrow> if h a = None then Inl Dangling else Inr (h(a := None)))"

text \<open>
  The loop of \<open>stream_fifo_clean\<close> follows \<open>next\<close> until a null pointer, so it need not end
  on an arbitrary store; not returning is the value \<open>None\<close>.
\<close>

partial_function (option) fifo_free_loop :: "sheap \<Rightarrow> addr option \<Rightarrow> sheap res option" where
  "fifo_free_loop h s =
     (case s of
        None \<Rightarrow> Some (Inr h)
      | Some a \<Rightarrow>
          (case h a of
             None \<Rightarrow> Some (Inl Dangling)
           | Some n \<Rightarrow> fifo_free_loop (h(a := None)) (snext n)))"

definition stream_fifo_clean :: "sheap \<Rightarrow> stream_fifo \<Rightarrow> (sheap \<times> stream_fifo) res option" where
  "stream_fifo_clean h fifo =
     map_option (\<lambda>r. rbind r (\<lambda>h'. Inr (h', fifo\<lparr>head := None, tail := None, count := 0\<rparr>)))
       (fifo_free_loop h (head fifo))"

section \<open>The FIFO as a queue\<close>

text \<open>\<open>chain h p xs\<close>: following \<open>next\<close> from \<open>p\<close> visits exactly \<open>xs\<close> and ends.\<close>

fun chain :: "sheap \<Rightarrow> addr option \<Rightarrow> addr list \<Rightarrow> bool" where
  "chain h p [] \<longleftrightarrow> p = None"
| "chain h p (x # xs) \<longleftrightarrow> p = Some x \<and> (case h x of None \<Rightarrow> False | Some n \<Rightarrow> chain h (snext n) xs)"

definition fifo_at :: "sheap \<Rightarrow> stream_fifo \<Rightarrow> addr list \<Rightarrow> bool" where
  "fifo_at h f xs \<longleftrightarrow> chain h (head f) xs \<and> distinct xs \<and>
     tail f = (if xs = [] then None else Some (last xs)) \<and> count f = length xs \<and> length xs < SIZE_T"

text \<open>A stream that may be pushed: in the store, not queued, with a null \<open>next\<close>.\<close>

definition fresh :: "sheap \<Rightarrow> addr list \<Rightarrow> addr \<Rightarrow> bool" where
  "fresh h xs a \<longleftrightarrow> a \<notin> set xs \<and> (case h a of None \<Rightarrow> False | Some n \<Rightarrow> snext n = None)"

lemma chain_frame: "chain h p xs \<Longrightarrow> a \<notin> set xs \<Longrightarrow> chain (h(a := v)) p xs"
  by (induction xs arbitrary: p) (auto split: option.splits)

lemma chain_alloc: "chain h p xs \<Longrightarrow> x \<in> set xs \<Longrightarrow> h x \<noteq> None"
  by (induction xs arbitrary: p) (auto split: option.splits)

lemma chain_snoc:
  assumes "chain h p xs" "distinct xs" "xs \<noteq> []" "h (last xs) = Some n" "fresh h xs a"
  shows "chain (h(last xs \<mapsto> n\<lparr>snext := Some a\<rparr>)) p (xs @ [a])"
  using assms
proof (induction xs arbitrary: p)
  case (Cons x xs)
  show ?case
  proof (cases "xs = []")
    case True
    then show ?thesis using Cons.prems by (auto simp: fresh_def split: option.splits)
  next
    case False
    then have "x \<noteq> last xs" using Cons.prems(2) by auto
    moreover obtain m where "h x = Some m" "chain h (snext m) xs" "p = Some x"
      using Cons.prems(1) by (auto split: option.splits)
    ultimately show ?thesis using Cons False by (auto simp: fresh_def)
  qed
qed simp

lemma push_queue:
  assumes "fifo_at h f xs" "fresh h xs a" "Suc (length xs) < SIZE_T"
  shows "\<exists>h' f'. stream_fifo_push h f a = Inr (h', f') \<and> fifo_at h' f' (xs @ [a]) \<and>
    (\<forall>x. map_option sbuf (h' x) = map_option sbuf (h x)) \<and> (\<forall>x. x \<notin> set xs \<longrightarrow> h' x = h x)"
proof (cases "xs = []")
  case True
  then show ?thesis using assms
    by (auto simp: stream_fifo_push_def fifo_at_def fresh_def split: option.splits)
next
  case False
  then obtain n where n: "h (last xs) = Some n"
    using assms chain_alloc [of h "head f" xs "last xs"] by (auto simp: fifo_at_def)
  let ?h = "h(last xs \<mapsto> n\<lparr>snext := Some a\<rparr>)"
  let ?f = "f\<lparr>tail := Some a, count := length xs + 1\<rparr>"
  have "stream_fifo_push h f a = Inr (?h, ?f)"
    using assms False n by (auto simp: stream_fifo_push_def fifo_at_def)
  moreover have "fifo_at ?h ?f (xs @ [a])"
    using assms False n chain_snoc [of h "head f" xs n a] by (auto simp: fifo_at_def fresh_def)
  moreover have "\<forall>x. map_option sbuf (?h x) = map_option sbuf (h x)" using n by simp
  moreover have "\<forall>x. x \<notin> set xs \<longrightarrow> ?h x = h x" using False by auto
  ultimately show ?thesis by blast
qed

lemma pop_queue:
  assumes "fifo_at h f (x # xs)"
  shows "\<exists>f'. stream_fifo_pop h f = Inr (Some x, f') \<and> fifo_at h f' xs"
proof -
  obtain n where "h x = Some n" "chain h (snext n) xs" using assms
    by (auto simp: fifo_at_def split: option.splits)
  then show ?thesis using assms
    by (cases xs) (auto simp: stream_fifo_pop_def fifo_at_def Let_def)
qed

lemma chain_determ: "chain h p xs \<Longrightarrow> chain h p ys \<Longrightarrow> xs = ys"
proof (induction xs arbitrary: p ys)
  case Nil
  then show ?case by (cases ys) auto
next
  case (Cons x xs)
  then show ?case by (cases ys) (auto split: option.splits)
qed

lemma free_loop_chain:
  "chain h p xs \<Longrightarrow> distinct xs \<Longrightarrow>
   \<exists>h'. fifo_free_loop h p = Some (Inr h') \<and> (\<forall>x. h' x = (if x \<in> set xs then None else h x))"
proof (induction xs arbitrary: h p)
  case Nil
  then show ?case by (subst fifo_free_loop.simps) simp
next
  case (Cons x xs)
  then obtain n where n: "h x = Some n" "chain h (snext n) xs" "p = Some x"
    by (auto split: option.splits)
  moreover have "chain (h(x := None)) (snext n) xs" using n Cons.prems chain_frame by simp
  from Cons.IH [OF this] Cons.prems(2) obtain h' where
    "fifo_free_loop (h(x := None)) (snext n) = Some (Inr h')"
    "\<forall>y. h' y = (if y \<in> set xs then None else (h(x := None)) y)"
    by (metis distinct.simps(2))
  ultimately show ?case by (subst fifo_free_loop.simps) simp
qed

subsection \<open>Runs of a queue\<close>

datatype 'a queue_op = Enq 'a | Deq

text \<open>The specification: a list, with the values that came out; dequeuing an empty list is no run.\<close>

fun queue_spec :: "'a queue_op list \<Rightarrow> 'a list \<Rightarrow> ('a list \<times> 'a list) option" where
  "queue_spec [] xs = Some ([], xs)"
| "queue_spec (Enq a # cs) xs = queue_spec cs (xs @ [a])"
| "queue_spec (Deq # cs) [] = None"
| "queue_spec (Deq # cs) (x # xs) = map_option (\<lambda>(out, ys). (x # out, ys)) (queue_spec cs xs)"

fun queue_run :: "('s \<Rightarrow> 'a \<Rightarrow> 's res) \<Rightarrow> ('s \<Rightarrow> ('a option \<times> 's) res) \<Rightarrow> 'a queue_op list \<Rightarrow> 's \<Rightarrow>
    ('a option list \<times> 's) res" where
  "queue_run push pop [] s = Inr ([], s)"
| "queue_run push pop (Enq a # cs) s = rbind (push s a) (queue_run push pop cs)"
| "queue_run push pop (Deq # cs) s =
     rbind (pop s) (\<lambda>(x, s'). rbind (queue_run push pop cs s') (\<lambda>(out, s''). Inr (x # out, s'')))"

fun pushed :: "'a queue_op list \<Rightarrow> 'a list" where
  "pushed [] = []"
| "pushed (Enq a # cs) = a # pushed cs"
| "pushed (Deq # cs) = pushed cs"

locale queue_interface =
  fixes at :: "'s \<Rightarrow> 'a list \<Rightarrow> bool" and free :: "'s \<Rightarrow> 'a list \<Rightarrow> 'a \<Rightarrow> bool"
    and push :: "'s \<Rightarrow> 'a \<Rightarrow> 's res" and pop :: "'s \<Rightarrow> ('a option \<times> 's) res"
  assumes push_law: "at s xs \<Longrightarrow> free s xs a \<Longrightarrow> Suc (length xs) < SIZE_T \<Longrightarrow>
      \<exists>s'. push s a = Inr s' \<and> at s' (xs @ [a]) \<and> (\<forall>b. b \<noteq> a \<and> free s xs b \<longrightarrow> free s' (xs @ [a]) b)"
    and pop_law: "at s (x # xs) \<Longrightarrow>
      \<exists>s'. pop s = Inr (Some x, s') \<and> at s' xs \<and> (\<forall>b. free s (x # xs) b \<longrightarrow> free s' xs b)"
begin

lemma run_refines:
  assumes "at s xs" "queue_spec cs xs = Some (out, ys)" "distinct (pushed cs)"
    "\<forall>a \<in> set (pushed cs). free s xs a" "length xs + length cs < SIZE_T"
  shows "\<exists>s'. queue_run push pop cs s = Inr (map Some out, s') \<and> at s' ys"
  using assms
proof (induction cs arbitrary: s xs out)
  case (Cons c cs)
  show ?case
  proof (cases c)
    case (Enq a)
    with Cons.prems obtain s1 where s1: "push s a = Inr s1" "at s1 (xs @ [a])"
      "\<forall>b. b \<noteq> a \<and> free s xs b \<longrightarrow> free s1 (xs @ [a]) b"
      using push_law [of s xs a] by auto
    have "\<forall>b \<in> set (pushed cs). free s1 (xs @ [a]) b" using Cons.prems(3,4) s1(3) Enq by auto
    then show ?thesis using Cons.prems Cons.IH [of s1 "xs @ [a]" out] s1 Enq by auto
  next
    case Deq
    with Cons.prems obtain x xs' out' where
      xs: "xs = x # xs'" "queue_spec cs xs' = Some (out', ys)" "out = x # out'"
      by (cases xs) auto
    with Cons.prems(1) obtain s1 where s1: "pop s = Inr (Some x, s1)" "at s1 xs'"
      "\<forall>b. free s (x # xs') b \<longrightarrow> free s1 xs' b"
      using pop_law [of s x xs'] by auto
    have "\<forall>b \<in> set (pushed cs). free s1 xs' b" using Cons.prems(4) s1(3) xs(1) Deq by auto
    then show ?thesis using Cons.prems Cons.IH [of s1 xs' out'] s1 xs Deq by auto
  qed
qed auto

end

definition fifo_push_st :: "sheap \<times> stream_fifo \<Rightarrow> addr \<Rightarrow> (sheap \<times> stream_fifo) res" where
  "fifo_push_st st a = stream_fifo_push (fst st) (snd st) a"

definition fifo_pop_st :: "sheap \<times> stream_fifo \<Rightarrow> (addr option \<times> (sheap \<times> stream_fifo)) res" where
  "fifo_pop_st st = rbind (stream_fifo_pop (fst st) (snd st)) (\<lambda>(x, f). Inr (x, (fst st, f)))"

interpretation fq: queue_interface
  "\<lambda>st xs. fifo_at (fst st) (snd st) xs" "\<lambda>st xs a. fresh (fst st) xs a" fifo_push_st fifo_pop_st
proof
  fix s :: "sheap \<times> stream_fifo" and xs a
  assume "fifo_at (fst s) (snd s) xs" "fresh (fst s) xs a" "Suc (length xs) < SIZE_T"
  from push_queue [OF this] obtain h' f' where
    "stream_fifo_push (fst s) (snd s) a = Inr (h', f')" "fifo_at h' f' (xs @ [a])"
    "\<forall>x. x \<notin> set xs \<longrightarrow> h' x = fst s x" by blast
  then show "\<exists>s'. fifo_push_st s a = Inr s' \<and> fifo_at (fst s') (snd s') (xs @ [a]) \<and>
      (\<forall>b. b \<noteq> a \<and> fresh (fst s) xs b \<longrightarrow> fresh (fst s') (xs @ [a]) b)"
    by (auto simp: fifo_push_st_def fresh_def)
next
  fix s :: "sheap \<times> stream_fifo" and x xs
  assume "fifo_at (fst s) (snd s) (x # xs)"
  from pop_queue [OF this] show "\<exists>s'. fifo_pop_st s = Inr (Some x, s') \<and> fifo_at (fst s') (snd s') xs \<and>
      (\<forall>b. fresh (fst s) (x # xs) b \<longrightarrow> fresh (fst s') xs b)"
    by (auto simp: fifo_pop_st_def fresh_def)
qed

section \<open>Properties\<close>

text \<open>Three streams in the store, none of them queued.\<close>

definition fifo_ex_heap :: sheap where
  "fifo_ex_heap = [1 \<mapsto> \<lparr>snext = None, sbuf = stream_ex\<rparr>, 2 \<mapsto> \<lparr>snext = None, sbuf = stream_ex\<rparr>,
     3 \<mapsto> \<lparr>snext = None, sbuf = stream_ex\<rparr>]"

text \<open>C12: On streams that are not queued yet, the linked FIFO behaves as a list queue: for
  every sequence of pushes and pops the queue specification allows, the implementation
  succeeds, pops the same streams in the same order and ends in a FIFO that holds the
  remaining streams, with the right counter and tail.\<close>

theorem stream_fifo_refines_queue:
  assumes "fifo_at h f xs" "queue_spec cs xs = Some (out, ys)" "distinct (pushed cs)"
    "\<forall>a \<in> set (pushed cs). fresh h xs a" "length xs + length cs < SIZE_T"
  shows "\<exists>h' f'. queue_run fifo_push_st fifo_pop_st cs (h, f) = Inr (map Some out, (h', f')) \<and>
    fifo_at h' f' ys"
  using fq.run_refines [of "(h, f)" xs cs out ys] assms by auto

theorem stream_fifo_refines_queue_witness:
  "\<exists>h' f'. queue_run fifo_push_st fifo_pop_st [Enq 1, Enq 2, Deq, Enq 3, Deq]
      (fifo_ex_heap, stream_fifo_new) = Inr ([Some 1, Some 2], (h', f')) \<and> fifo_at h' f' [3]"
  using stream_fifo_refines_queue [of fifo_ex_heap stream_fifo_new "[]"
      "[Enq 1, Enq 2, Deq, Enq 3, Deq]" "[1, 2]" "[3]"]
  by (simp add: fifo_at_def stream_fifo_new_def fresh_def fifo_ex_heap_def SIZE_T_def)

text \<open>\<open>stream_fifo_clean\<close> ends on every well-formed FIFO: it frees exactly the queued
  streams, leaves every other stream alone and resets the FIFO to the empty one.\<close>

theorem stream_fifo_clean_frees_queue:
  assumes "fifo_at h f xs"
  shows "\<exists>h'. stream_fifo_clean h f = Some (Inr (h', stream_fifo_new)) \<and>
    (\<forall>a. h' a = (if a \<in> set xs then None else h a))"
proof -
  obtain h' where "fifo_free_loop h (head f) = Some (Inr h')"
    "\<forall>a. h' a = (if a \<in> set xs then None else h a)"
    using assms free_loop_chain [of h "head f" xs] by (auto simp: fifo_at_def)
  then show ?thesis by (simp add: stream_fifo_clean_def stream_fifo_new_def)
qed

theorem stream_fifo_clean_frees_queue_witness:
  "\<exists>h'. stream_fifo_clean fifo_ex_heap \<lparr>count = 1, head = Some 2, tail = Some 2\<rparr> =
     Some (Inr (h', stream_fifo_new)) \<and> h' 2 = None \<and> h' 1 = fifo_ex_heap 1"
  using stream_fifo_clean_frees_queue [of fifo_ex_heap "\<lparr>count = 1, head = Some 2, tail = Some 2\<rparr>" "[2]"]
  by (auto simp: fifo_at_def fifo_ex_heap_def SIZE_T_def)

end
