(* ===== verification/Route_Table.thy ===== *)
theory Route_Table
  imports Prefix_Addr
begin

text \<open>
  The radix tree of routes, \<open>lib/table.c\<close>. Nodes live in an explicit store and point to
  their parent and their two children, as in C; walks that follow pointers are partial
  functions, so that not ending is the value \<open>None\<close>. The abstraction is a binary tree
  over the addresses of the nodes whose prefixes grow along every path; on it the walks
  end and compute longest-prefix match, exact lookup and insertion.
\<close>

section \<open>Operations\<close>

type_synonym raddr = nat

text \<open>
  \<open>info\<close> is the pointer a client attaches to a node; a node with a null \<open>info\<close> is a branching
  point or is kept only by its lock. The fields \<open>table\<close> (there is one table in the model)
  and \<open>aggregate\<close> (not used here) are left out.
\<close>

record route_node =
  rp :: prefix
  parent :: "raddr option"
  l_left :: "raddr option"
  l_right :: "raddr option"
  lock :: u32
  info :: "nat option"

type_synonym rheap = "raddr \<rightharpoonup> route_node"

record route_table =
  top :: "raddr option"
  rmem :: rheap

definition route_table_init :: route_table where
  "route_table_init = \<lparr>top = None, rmem = Map.empty\<rparr>"

definition link :: "route_node \<Rightarrow> nat \<Rightarrow> raddr option" where
  "link n b = (if b = 0 then l_left n else l_right n)"

definition rnode :: "rheap \<Rightarrow> raddr \<Rightarrow> route_node res" where
  "rnode h a = (case h a of None \<Rightarrow> Inl Dangling | Some n \<Rightarrow> Inr n)"

text \<open>\<open>XCALLOC\<close> zero-fills the node; the address it returns is an argument.\<close>

definition route_node_new :: route_node where
  "route_node_new = \<lparr>rp = prefix_new, parent = None, l_left = None, l_right = None, lock = 0, info = None\<rparr>"

definition route_node_set :: "prefix \<Rightarrow> route_node res" where
  "route_node_set p =
     rbind (prefix_copy (rp route_node_new) p) (\<lambda>q. Inr (route_node_new\<lparr>rp := q\<rparr>))"

subsection \<open>The common prefix of two prefixes\<close>

text \<open>The \<open>for\<close> loop copies equal bytes and returns the index where it stops.\<close>

function common_bytes :: "u8 list \<Rightarrow> u8 list \<Rightarrow> nat \<Rightarrow> nat \<Rightarrow> u8 list \<Rightarrow> nat \<times> u8 list" where
  "common_bytes np pp n i newp =
     (if i < n then
        if np ! i = pp ! i then common_bytes np pp n (Suc i) (newp[i := np ! i]) else (i, newp)
      else (i, newp))"
  by pat_completeness auto
termination
  by (relation "measure (\<lambda>(np, pp, n, i, newp). n - i)") auto

declare common_bytes.simps [simp del]

text \<open>The \<open>while\<close> loop shifts the mask until it meets a differing bit or the length of \<open>p\<close>.\<close>

function common_bits :: "u8 \<Rightarrow> nat \<Rightarrow> u8 \<Rightarrow> nat \<Rightarrow> nat" where
  "common_bits diff plen m len =
     (if len < plen \<and> m AND diff = 0 then common_bits diff plen (drop_bit 1 m) (Suc len) else len)"
  by pat_completeness auto
termination
  by (relation "measure (\<lambda>(diff, plen, m, len). plen - len)") auto

declare common_bits.simps [simp del]

definition route_common :: "prefix \<Rightarrow> prefix \<Rightarrow> prefix \<Rightarrow> prefix" where
  "route_common n p new =
     (let np = u_bytes n; pp = u_bytes p; plen = unat (prefixlen p);
          (i, newp) = common_bytes np pp (plen div 8) 0 (u_bytes new);
          len = i * 8
      in if len \<noteq> plen then
           let len' = common_bits (np ! i XOR pp ! i) plen 0x80 len
           in new\<lparr>prefixlen := of_nat len', u_bytes := newp[i := np ! i AND maskbit ! (len' mod 8)]\<rparr>
         else new\<lparr>prefixlen := of_nat len, u_bytes := newp\<rparr>)"

subsection \<open>Links and locks\<close>

definition set_link :: "rheap \<Rightarrow> raddr \<Rightarrow> raddr \<Rightarrow> rheap res" where
  "set_link h node new =
     rbind (rnode h node) (\<lambda>n. rbind (rnode h new) (\<lambda>m.
       let h1 = h(node \<mapsto> (if prefix_bit (u_bytes (rp m)) (unat (prefixlen (rp n))) = 0
                           then n\<lparr>l_left := Some new\<rparr> else n\<lparr>l_right := Some new\<rparr>))
       in rbind (rnode h1 new) (\<lambda>m1. Inr (h1(new \<mapsto> m1\<lparr>parent := Some node\<rparr>)))))"

definition route_lock_node :: "rheap \<Rightarrow> raddr \<Rightarrow> rheap res" where
  "route_lock_node h a = rbind (rnode h a) (\<lambda>n. Inr (h(a \<mapsto> n\<lparr>lock := lock n + 1\<rparr>)))"

subsection \<open>Lookup\<close>

definition step_down :: "route_node \<Rightarrow> prefix \<Rightarrow> bool" where
  "step_down n p \<longleftrightarrow> prefixlen (rp n) \<le> prefixlen p \<and> prefix_match (rp n) p"

definition next_link :: "route_node \<Rightarrow> prefix \<Rightarrow> raddr option" where
  "next_link n p = link n (prefix_bit (u_bytes p) (unat (prefixlen (rp n))))"

partial_function (option) match_loop ::
    "rheap \<Rightarrow> prefix \<Rightarrow> raddr option \<Rightarrow> raddr option \<Rightarrow> raddr option res option" where
  "match_loop h p node matched =
     (case node of
        None \<Rightarrow> Some (Inr matched)
      | Some a \<Rightarrow>
          (case h a of
             None \<Rightarrow> Some (Inl Dangling)
           | Some n \<Rightarrow>
               if step_down n p then
                 let matched' = (if info n \<noteq> None then Some a else matched)
                 in if prefixlen (rp n) = prefixlen p then Some (Inr matched')
                    else match_loop h p (next_link n p) matched'
               else Some (Inr matched)))"

definition route_node_match :: "route_table \<Rightarrow> prefix \<Rightarrow> (raddr option \<times> route_table) res option" where
  "route_node_match table p =
     map_option (\<lambda>r. rbind r (\<lambda>matched.
         case matched of
           Some a \<Rightarrow> rbind (route_lock_node (rmem table) a) (\<lambda>h. Inr (Some a, table\<lparr>rmem := h\<rparr>))
         | None \<Rightarrow> Inr (None, table)))
       (match_loop (rmem table) p (top table) None)"

definition route_node_match_ipv4 :: "route_table \<Rightarrow> u8 list \<Rightarrow> (raddr option \<times> route_table) res option" where
  "route_node_match_ipv4 table a =
     route_node_match table (prefix_new\<lparr>family := AF_INET, prefixlen := of_nat IPV4_MAX_BITLEN,
       u_bytes := take 4 a @ drop 4 (u_bytes prefix_new)\<rparr>)"

definition route_node_match_ipv6 :: "route_table \<Rightarrow> u8 list \<Rightarrow> (raddr option \<times> route_table) res option" where
  "route_node_match_ipv6 table a =
     route_node_match table (prefix_new\<lparr>family := AF_INET6, prefixlen := of_nat IPV6_MAX_BITLEN,
       u_bytes := take 16 a\<rparr>)"

partial_function (option) lookup_loop ::
    "rheap \<Rightarrow> prefix \<Rightarrow> raddr option \<Rightarrow> raddr option res option" where
  "lookup_loop h p node =
     (case node of
        None \<Rightarrow> Some (Inr None)
      | Some a \<Rightarrow>
          (case h a of
             None \<Rightarrow> Some (Inl Dangling)
           | Some n \<Rightarrow>
               if step_down n p then
                 if prefixlen (rp n) = prefixlen p then
                   Some (Inr (if info n \<noteq> None then Some a else None))
                 else lookup_loop h p (next_link n p)
               else Some (Inr None)))"

definition route_node_lookup :: "route_table \<Rightarrow> prefix \<Rightarrow> (raddr option \<times> route_table) res option" where
  "route_node_lookup table p =
     map_option (\<lambda>r. rbind r (\<lambda>found.
         case found of
           Some a \<Rightarrow> rbind (route_lock_node (rmem table) a) (\<lambda>h. Inr (Some a, table\<lparr>rmem := h\<rparr>))
         | None \<Rightarrow> Inr (None, table)))
       (lookup_loop (rmem table) p (top table))"

subsection \<open>Insertion\<close>

text \<open>The walk of \<open>route_node_get\<close> finds the node, or stops with \<open>match\<close> and \<open>node\<close>.\<close>

datatype get_stop = Got raddr | Stop "raddr option" "raddr option"

partial_function (option) get_loop ::
    "rheap \<Rightarrow> prefix \<Rightarrow> raddr option \<Rightarrow> raddr option \<Rightarrow> get_stop res option" where
  "get_loop h p node match =
     (case node of
        None \<Rightarrow> Some (Inr (Stop match None))
      | Some a \<Rightarrow>
          (case h a of
             None \<Rightarrow> Some (Inl Dangling)
           | Some n \<Rightarrow>
               if step_down n p then
                 if prefixlen (rp n) = prefixlen p then Some (Inr (Got a))
                 else get_loop h p (next_link n p) (Some a)
               else Some (Inr (Stop match (Some a)))))"

definition attach :: "route_table \<Rightarrow> raddr option \<Rightarrow> raddr \<Rightarrow> route_table res" where
  "attach table match new =
     (case match of
        Some m \<Rightarrow> rbind (set_link (rmem table) m new) (\<lambda>h. Inr (table\<lparr>rmem := h\<rparr>))
      | None \<Rightarrow> Inr (table\<lparr>top := Some new\<rparr>))"

text \<open>
  The part after the walk; \<open>c\<close> and \<open>d\<close> are the addresses of the first and the second node
  that is allocated.
\<close>

definition get_insert ::
    "raddr \<Rightarrow> raddr \<Rightarrow> route_table \<Rightarrow> prefix \<Rightarrow> get_stop \<Rightarrow> (raddr \<times> route_table) res" where
  "get_insert c d table p stop =
     (case stop of
        Got a \<Rightarrow> Inr (a, table)
      | Stop match node \<Rightarrow>
          (case node of
             None \<Rightarrow>
               rbind (route_node_set p) (\<lambda>n.
               rbind (attach (table\<lparr>rmem := (rmem table)(c \<mapsto> n)\<rparr>) match c) (\<lambda>t. Inr (c, t)))
           | Some b \<Rightarrow>
               rbind (rnode (rmem table) b) (\<lambda>nb.
               let q = (route_common (rp nb) p prefix_new)\<lparr>family := family p\<rparr> in
               rbind (set_link ((rmem table)(c \<mapsto> route_node_new\<lparr>rp := q\<rparr>)) c b) (\<lambda>h.
               rbind (attach (table\<lparr>rmem := h\<rparr>) match c) (\<lambda>t.
               if prefixlen q \<noteq> prefixlen p then
                 rbind (route_node_set p) (\<lambda>n.
                 rbind (set_link ((rmem t)(d \<mapsto> n)) c d) (\<lambda>h'. Inr (d, t\<lparr>rmem := h'\<rparr>)))
               else Inr (c, t))))))"

definition route_node_get ::
    "raddr \<Rightarrow> raddr \<Rightarrow> route_table \<Rightarrow> prefix \<Rightarrow> (raddr \<times> route_table) res option" where
  "route_node_get c d table p =
     map_option (\<lambda>r. rbind r (\<lambda>stop. rbind (get_insert c d table p stop)
         (\<lambda>(new, t). rbind (route_lock_node (rmem t) new) (\<lambda>h. Inr (new, t\<lparr>rmem := h\<rparr>)))))
     (get_loop (rmem table) p (top table) None)"

subsection \<open>Deletion\<close>

definition set_parent :: "rheap \<Rightarrow> raddr option \<Rightarrow> raddr option \<Rightarrow> rheap res" where
  "set_parent h child par =
     (case child of
        None \<Rightarrow> Inr h
      | Some c \<Rightarrow> rbind (rnode h c) (\<lambda>m. Inr (h(c \<mapsto> m\<lparr>parent := par\<rparr>))))"

definition unlink :: "route_table \<Rightarrow> raddr option \<Rightarrow> raddr \<Rightarrow> raddr option \<Rightarrow> route_table res" where
  "unlink table par node child =
     (case par of
        Some q \<Rightarrow> rbind (rnode (rmem table) q) (\<lambda>m.
          Inr (table\<lparr>rmem := (rmem table)(q \<mapsto>
             (if l_left m = Some node then m\<lparr>l_left := child\<rparr> else m\<lparr>l_right := child\<rparr>))\<rparr>))
      | None \<Rightarrow> Inr (table\<lparr>top := child\<rparr>))"

text \<open>One activation of \<open>route_node_delete\<close>: the new table, and the parent to delete next.\<close>

definition delete_step :: "route_table \<Rightarrow> raddr \<Rightarrow> (route_table \<times> raddr option) res" where
  "delete_step table node =
     rbind (rnode (rmem table) node) (\<lambda>n.
     c_assert (lock n = 0) (c_assert (info n = None)
     (if l_left n \<noteq> None \<and> l_right n \<noteq> None then Inr (table, None)
      else
        let child = (if l_left n \<noteq> None then l_left n else l_right n); par = parent n in
        rbind (set_parent (rmem table) child par) (\<lambda>h.
        rbind (unlink (table\<lparr>rmem := h\<rparr>) par node child) (\<lambda>t.
        let t' = t\<lparr>rmem := (rmem t)(node := None)\<rparr> in
        (case par of
           None \<Rightarrow> Inr (t', None)
         | Some q \<Rightarrow> rbind (rnode (rmem t') q) (\<lambda>m. Inr (t', if lock m = 0 then Some q else None))))))))"

partial_function (option) route_node_delete :: "route_table \<Rightarrow> raddr \<Rightarrow> route_table res option" where
  "route_node_delete table node =
     (case delete_step table node of
        Inl e \<Rightarrow> Some (Inl e)
      | Inr (t, None) \<Rightarrow> Some (Inr t)
      | Inr (t, Some q) \<Rightarrow> route_node_delete t q)"

definition route_unlock_node :: "route_table \<Rightarrow> raddr \<Rightarrow> route_table res option" where
  "route_unlock_node table node =
     (case rnode (rmem table) node of
        Inl e \<Rightarrow> Some (Inl e)
      | Inr n \<Rightarrow>
          let t = table\<lparr>rmem := (rmem table)(node \<mapsto> n\<lparr>lock := lock n - 1\<rparr>)\<rparr>
          in if lock n - 1 = 0 then route_node_delete t node else Some (Inr t))"

subsection \<open>Iteration\<close>

definition route_top :: "route_table \<Rightarrow> (raddr option \<times> route_table) res" where
  "route_top table =
     (case top table of
        None \<Rightarrow> Inr (None, table)
      | Some a \<Rightarrow> rbind (route_lock_node (rmem table) a) (\<lambda>h. Inr (Some a, table\<lparr>rmem := h\<rparr>)))"

text \<open>The climb of \<open>route_next_until\<close>; \<open>route_next\<close> is the same without a limit.\<close>

partial_function (option) climb :: "rheap \<Rightarrow> raddr option \<Rightarrow> raddr \<Rightarrow> raddr option res option" where
  "climb h limit node =
     (case h node of
        None \<Rightarrow> Some (Inl Dangling)
      | Some n \<Rightarrow>
          (case parent n of
             None \<Rightarrow> Some (Inr None)
           | Some q \<Rightarrow>
               if limit = Some node then Some (Inr None)
               else (case h q of
                   None \<Rightarrow> Some (Inl Dangling)
                 | Some m \<Rightarrow>
                     if l_left m = Some node \<and> l_right m \<noteq> None then Some (Inr (l_right m))
                     else climb h limit q)))"

definition next_node :: "rheap \<Rightarrow> raddr option \<Rightarrow> raddr \<Rightarrow> raddr option res option" where
  "next_node h limit node =
     (case h node of
        None \<Rightarrow> Some (Inl Dangling)
      | Some n \<Rightarrow>
          if l_left n \<noteq> None then Some (Inr (l_left n))
          else if l_right n \<noteq> None then Some (Inr (l_right n))
          else climb h limit node)"

definition lock_then_unlock ::
    "route_table \<Rightarrow> raddr option \<Rightarrow> raddr \<Rightarrow> (raddr option \<times> route_table) res option" where
  "lock_then_unlock table nxt start =
     (case (case nxt of None \<Rightarrow> Inr (rmem table) | Some b \<Rightarrow> route_lock_node (rmem table) b) of
        Inl e \<Rightarrow> Some (Inl e)
      | Inr h \<Rightarrow> map_option (\<lambda>r. rbind r (\<lambda>t. Inr (nxt, t)))
                   (route_unlock_node (table\<lparr>rmem := h\<rparr>) start))"

definition route_next_until ::
    "route_table \<Rightarrow> raddr \<Rightarrow> raddr option \<Rightarrow> (raddr option \<times> route_table) res option" where
  "route_next_until table node limit =
     (case next_node (rmem table) limit node of
        None \<Rightarrow> None
      | Some (Inl e) \<Rightarrow> Some (Inl e)
      | Some (Inr nxt) \<Rightarrow> lock_then_unlock table nxt node)"

definition route_next :: "route_table \<Rightarrow> raddr \<Rightarrow> (raddr option \<times> route_table) res option" where
  "route_next table node = route_next_until table node None"

text \<open>The walk clients write as \<open>for (rn = route_top (t); rn; rn = route_next (rn))\<close>.\<close>

partial_function (option) route_walk_from ::
    "route_table \<Rightarrow> raddr option \<Rightarrow> (raddr list \<times> route_table) res option" where
  "route_walk_from table node =
     (case node of
        None \<Rightarrow> Some (Inr ([], table))
      | Some a \<Rightarrow> (case route_next table a of
            None \<Rightarrow> None
          | Some (Inl e) \<Rightarrow> Some (Inl e)
          | Some (Inr (nxt, t)) \<Rightarrow>
              Option.bind (route_walk_from t nxt) (\<lambda>r. Some (rbind r (\<lambda>(xs, t'). Inr (a # xs, t'))))))"

definition route_walk :: "route_table \<Rightarrow> (raddr list \<times> route_table) res option" where
  "route_walk table =
     (case route_top table of
        Inl e \<Rightarrow> Some (Inl e)
      | Inr (node, t) \<Rightarrow> route_walk_from t node)"

subsection \<open>Release of the table\<close>

definition clear_child :: "raddr \<Rightarrow> route_node \<Rightarrow> route_node" where
  "clear_child tmp m = (if l_left m = Some tmp then m\<lparr>l_left := None\<rparr> else m\<lparr>l_right := None\<rparr>)"

partial_function (option) route_table_free_loop :: "rheap \<Rightarrow> raddr option \<Rightarrow> rheap res option" where
  "route_table_free_loop h node =
     (case node of
        None \<Rightarrow> Some (Inr h)
      | Some a \<Rightarrow>
          (case h a of
             None \<Rightarrow> Some (Inl Dangling)
           | Some n \<Rightarrow>
               if l_left n \<noteq> None then route_table_free_loop h (l_left n)
               else if l_right n \<noteq> None then route_table_free_loop h (l_right n)
               else (case parent n of
                   None \<Rightarrow> Some (Inr (h(a := None)))
                 | Some q \<Rightarrow> (case h q of
                       None \<Rightarrow> Some (Inl Dangling)
                     | Some m \<Rightarrow> route_table_free_loop ((h(q \<mapsto> clear_child a m))(a := None)) (Some q)))))"

text \<open>The result is the store; the table itself is freed with its last node.\<close>

definition route_table_free :: "route_table option \<Rightarrow> rheap res option" where
  "route_table_free rt =
     (case rt of None \<Rightarrow> Some (Inr Map.empty) | Some table \<Rightarrow> route_table_free_loop (rmem table) (top table))"

definition route_table_finish :: "route_table option \<Rightarrow> rheap res option" where
  "route_table_finish rt = route_table_free rt"

section \<open>The table as a tree\<close>

text \<open>A tree over the addresses of the nodes, with the prefix and \<open>info\<close> of each.\<close>

datatype rtree = Tip | Nd rtree raddr prefix "nat option" rtree

fun preorder :: "rtree \<Rightarrow> (raddr \<times> prefix \<times> nat option) list" where
  "preorder Tip = []"
| "preorder (Nd l a p i r) = (a, p, i) # preorder l @ preorder r"

definition addrs :: "rtree \<Rightarrow> raddr list" where
  "addrs t = map fst (preorder t)"

fun tree_at :: "rheap \<Rightarrow> raddr option \<Rightarrow> raddr option \<Rightarrow> rtree \<Rightarrow> bool" where
  "tree_at h par ptr Tip \<longleftrightarrow> ptr = None"
| "tree_at h par ptr (Nd l a p i r) \<longleftrightarrow> ptr = Some a \<and>
     (case h a of
        None \<Rightarrow> False
      | Some n \<Rightarrow> rp n = p \<and> info n = i \<and> parent n = par \<and>
          tree_at h (Some a) (l_left n) l \<and> tree_at h (Some a) (l_right n) r)"

definition below :: "bool list \<Rightarrow> rtree \<Rightarrow> bool" where
  "below b t \<longleftrightarrow> (\<forall>(a, q, i) \<in> set (preorder t). Sublist.prefix b (prefix_bits q))"

text \<open>Every prefix is well formed and of family \<open>f\<close>, and extends its parent by the bit of its side.\<close>

fun trie_ok :: "u8 \<Rightarrow> rtree \<Rightarrow> bool" where
  "trie_ok f Tip \<longleftrightarrow> True"
| "trie_ok f (Nd l a p i r) \<longleftrightarrow> prefix_ok p \<and> family p = f \<and>
     below (prefix_bits p @ [False]) l \<and> below (prefix_bits p @ [True]) r \<and> trie_ok f l \<and> trie_ok f r"

definition table_ok :: "u8 \<Rightarrow> route_table \<Rightarrow> rtree \<Rightarrow> bool" where
  "table_ok f table t \<longleftrightarrow> tree_at (rmem table) None (top table) t \<and> distinct (addrs t) \<and> trie_ok f t"

lemma addrs_simps [simp]:
  "addrs Tip = []" "addrs (Nd l a p i r) = a # addrs l @ addrs r"
  by (simp_all add: addrs_def)

lemma below_simps [simp]:
  "below b Tip"
  "below b (Nd l a p i r) \<longleftrightarrow> Sublist.prefix b (prefix_bits p) \<and> below b l \<and> below b r"
  unfolding below_def by (simp_all add: ball_Un)

lemma below_trans: "below b t \<Longrightarrow> Sublist.prefix c b \<Longrightarrow> below c t"
  unfolding below_def using prefix_order.trans by blast

lemma belowD: "below b t \<Longrightarrow> (a, q, i) \<in> set (preorder t) \<Longrightarrow> Sublist.prefix b (prefix_bits q)"
  by (auto simp: below_def)

lemma trie_okD: "trie_ok f t \<Longrightarrow> (a, q, i) \<in> set (preorder t) \<Longrightarrow> prefix_ok q \<and> family q = f"
  by (induction t) auto

subsection \<open>The guards of the walks\<close>

lemma prefix_bit_of_prefix:
  assumes "prefix_ok p" "k < unat (prefixlen p)"
  shows "prefix_bit (u_bytes p) k = of_bool (prefix_bits p ! k)"
proof -
  have "k < 8 * length (u_bytes p)" using assms prefix_ok_len [OF assms(1)] by simp
  then show ?thesis using assms(2) by (simp add: prefix_bit_nth prefix_bits_def)
qed

lemma step_down_iff:
  assumes "prefix_ok (rp n)" "prefix_ok p"
  shows "step_down n p \<longleftrightarrow> Sublist.prefix (prefix_bits (rp n)) (prefix_bits p)"
  using assms prefix_length_le [of "prefix_bits (rp n)" "prefix_bits p"]
  by (auto simp: step_down_def prefix_match_bits word_le_nat_alt)

lemma prefixlen_eq_iff:
  "prefix_ok p \<Longrightarrow> prefix_ok q \<Longrightarrow> prefixlen p = prefixlen q \<longleftrightarrow>
   length (prefix_bits p) = length (prefix_bits q)"
  by (simp add: word_unat_eq_iff)

definition down :: "bool list \<Rightarrow> bool list \<Rightarrow> 'a \<Rightarrow> 'a \<Rightarrow> 'a" where
  "down q p l r = (if p ! length q then r else l)"

lemma next_link_down:
  assumes "prefix_ok (rp n)" "prefix_ok p" "length (prefix_bits (rp n)) < length (prefix_bits p)"
  shows "next_link n p = down (prefix_bits (rp n)) (prefix_bits p) (l_left n) (l_right n)"
  using assms by (simp add: next_link_def link_def down_def prefix_bit_of_prefix)

lemma prefix_len_less:
  "Sublist.prefix xs ys \<Longrightarrow> length xs \<noteq> length ys \<Longrightarrow> length xs < length ys"
  using prefix_length_le [of xs ys] by simp

lemma tree_at_down:
  "tree_at h par (l_left n) l \<Longrightarrow> tree_at h par (l_right n) r \<Longrightarrow>
   tree_at h par (down q p (l_left n) (l_right n)) (down q p l r)"
  by (simp add: down_def)

lemma down_no_match:
  assumes "below (b @ [x]) t" "(a, q, i) \<in> set (preorder t)" "Sublist.prefix (prefix_bits q) p"
  shows "length b < length p \<and> p ! length b = x"
proof -
  have "Sublist.prefix (b @ [x]) p" using belowD [OF assms(1,2)] assms(3) prefix_order.trans by blast
  then show ?thesis by (auto simp: prefix_def nth_append)
qed

lemma side_exact:
  "below (b @ [x]) t \<Longrightarrow> (a, q, i) \<in> set (preorder t) \<Longrightarrow> prefix_bits q = p \<Longrightarrow>
   length b < length p \<and> p ! length b = x"
  using down_no_match [of b x t a q i p] by simp

lemma below_not_prefix:
  assumes "below b t" "\<not> Sublist.prefix b p" "(a, q, i) \<in> set (preorder t)"
  shows "\<not> Sublist.prefix (prefix_bits q) p"
  using belowD [OF assms(1,3)] assms(2) prefix_order.trans by blast

subsection \<open>Matching\<close>

fun tmatch :: "prefix \<Rightarrow> rtree \<Rightarrow> raddr option \<Rightarrow> raddr option" where
  "tmatch p Tip m = m"
| "tmatch p (Nd l a q i r) m =
     (if Sublist.prefix (prefix_bits q) (prefix_bits p) then
        let m' = (if i \<noteq> None then Some a else m)
        in if length (prefix_bits q) = length (prefix_bits p) then m'
           else if prefix_bits p ! length (prefix_bits q) then tmatch p r m' else tmatch p l m'
      else m)"

lemma match_loop_tree:
  "tree_at h par ptr t \<Longrightarrow> trie_ok f t \<Longrightarrow> prefix_ok p \<Longrightarrow> match_loop h p ptr m = Some (Inr (tmatch p t m))"
proof (induction t arbitrary: par ptr m)
  case Tip
  then show ?case by (subst match_loop.simps) simp
next
  case (Nd l a q i r)
  then obtain n where n: "ptr = Some a" "h a = Some n" "rp n = q" "info n = i"
    "tree_at h (Some a) (l_left n) l" "tree_at h (Some a) (l_right n) r"
    by (auto split: option.splits)
  note link = next_link_down [of n p] prefix_len_less [of "prefix_bits q" "prefix_bits p"]
  show ?case using Nd n link
    by (subst match_loop.simps)
      (auto simp: step_down_iff prefixlen_eq_iff down_def Let_def simp del: length_prefix_bits)
qed

definition candidates :: "prefix \<Rightarrow> rtree \<Rightarrow> (raddr \<times> prefix \<times> nat option) set" where
  "candidates p t = {(a, q, i) \<in> set (preorder t). i \<noteq> None \<and> Sublist.prefix (prefix_bits q) (prefix_bits p)}"

definition longest :: "prefix \<Rightarrow> rtree \<Rightarrow> raddr \<Rightarrow> bool" where
  "longest p t a \<longleftrightarrow> (\<exists>q i. (a, q, i) \<in> candidates p t \<and>
     (\<forall>(b, q', j) \<in> candidates p t. length (prefix_bits q') \<le> length (prefix_bits q)))"

lemma candidates_Tip [simp]: "candidates p Tip = {}"
  by (simp add: candidates_def)

lemma candidates_no_match:
  "\<not> Sublist.prefix (prefix_bits q) (prefix_bits p) \<Longrightarrow> trie_ok f (Nd l a q i r) \<Longrightarrow>
   candidates p (Nd l a q i r) = {}"
  using below_not_prefix [of "prefix_bits q" _ "prefix_bits p"]
    below_trans [of "prefix_bits q @ [False]" l "prefix_bits q"]
    below_trans [of "prefix_bits q @ [True]" r "prefix_bits q"]
  by (auto simp: candidates_def)

lemma candidates_full:
  "length (prefix_bits q) = length (prefix_bits p) \<Longrightarrow> trie_ok f (Nd l a q i r) \<Longrightarrow>
   candidates p (Nd l a q i r) \<subseteq> {(a, q, i)}"
  by (auto simp: candidates_def dest: down_no_match)

lemma candidates_step:
  assumes "Sublist.prefix (prefix_bits q) (prefix_bits p)"
    "length (prefix_bits q) \<noteq> length (prefix_bits p)" "trie_ok f (Nd l a q i r)"
  shows "candidates p (Nd l a q i r) = (if i \<noteq> None then {(a, q, i)} else {}) \<union>
    candidates p (if prefix_bits p ! length (prefix_bits q) then r else l)"
  using assms by (auto simp: candidates_def dest: down_no_match)

lemma candidate_longer:
  "trie_ok f (Nd l a q i r) \<Longrightarrow> (b, q', j) \<in> candidates p (if x then r else l) \<Longrightarrow>
   length (prefix_bits q) \<le> length (prefix_bits q')"
  by (auto simp: candidates_def dest!: belowD dest: prefix_length_le split: if_splits)

lemma longest_root:
  "candidates p t = {(a, q, i)} \<Longrightarrow> longest p t a"
  by (auto simp: longest_def)

lemma tmatch_spec:
  "trie_ok f t \<Longrightarrow>
   (if candidates p t = {} then tmatch p t m = m else \<exists>a. tmatch p t m = Some a \<and> longest p t a)"
proof (induction t arbitrary: m)
  case (Nd l a q i r)
  let ?t = "Nd l a q i r" and ?Q = "prefix_bits q" and ?P = "prefix_bits p"
  let ?s = "if ?P ! length ?Q then r else l" and ?m = "if i \<noteq> None then Some a else m"
  consider "\<not> Sublist.prefix ?Q ?P" | "Sublist.prefix ?Q ?P" "length ?Q = length ?P"
    | "Sublist.prefix ?Q ?P" "length ?Q \<noteq> length ?P" by blast
  then show ?case
  proof cases
    case 1
    then show ?thesis using Nd.prems by (simp add: candidates_no_match [OF 1 Nd.prems])
  next
    case 2
    then have "candidates p ?t = (if i = None then {} else {(a, q, i)})"
      using candidates_full [OF 2(2) Nd.prems] by (auto simp: candidates_def)
    then show ?thesis using 2 longest_root by (auto simp: Let_def)
  next
    case 3
    note C = candidates_step [OF 3 Nd.prems]
    have tm: "tmatch p ?t m = tmatch p ?s ?m" using 3 by (simp add: Let_def)
    have IH: "if candidates p ?s = {} then tmatch p ?s ?m = ?m
        else \<exists>b. tmatch p ?s ?m = Some b \<and> longest p ?s b"
    proof (cases "?P ! length ?Q")
      case True
      have "trie_ok f r" using Nd.prems by simp
      then show ?thesis unfolding if_P [OF True] by (rule Nd.IH(2))
    next
      case False
      have "trie_ok f l" using Nd.prems by simp
      then show ?thesis unfolding if_not_P [OF False] by (rule Nd.IH(1))
    qed
    show ?thesis
    proof (cases "candidates p ?s = {}")
      case True
      then have c: "candidates p ?t = (if i \<noteq> None then {(a, q, i)} else {})" using C by simp
      have "tmatch p ?t m = ?m" using IH unfolding if_P [OF True] tm .
      then show ?thesis using c longest_root [of p ?t a q i] by (cases "i = None") auto
    next
      case False
      then obtain b where b: "tmatch p ?s ?m = Some b" "longest p ?s b"
        using IH unfolding if_not_P [OF False] by blast
      then obtain q' i' where c: "(b, q', i') \<in> candidates p ?s"
        "\<forall>(b', q'', j) \<in> candidates p ?s. length (prefix_bits q'') \<le> length (prefix_bits q')"
        unfolding longest_def by blast
      have "length ?Q \<le> length (prefix_bits q')" using candidate_longer [OF Nd.prems c(1)] .
      then have "longest p ?t b" using c unfolding longest_def C by (intro exI [of _ q'] exI [of _ i']) auto
      moreover have "candidates p ?t \<noteq> {}" using C False by auto
      ultimately show ?thesis using b(1) tm by auto
    qed
  qed
qed simp

subsection \<open>Exact lookup\<close>

fun tfind :: "prefix \<Rightarrow> rtree \<Rightarrow> (raddr \<times> nat option) option" where
  "tfind p Tip = None"
| "tfind p (Nd l a q i r) =
     (if Sublist.prefix (prefix_bits q) (prefix_bits p) then
        if length (prefix_bits q) = length (prefix_bits p) then Some (a, i)
        else if prefix_bits p ! length (prefix_bits q) then tfind p r else tfind p l
      else None)"

lemma lookup_loop_tree:
  "tree_at h par ptr t \<Longrightarrow> trie_ok f t \<Longrightarrow> prefix_ok p \<Longrightarrow>
   lookup_loop h p ptr = Some (Inr (case tfind p t of Some (a, Some _) \<Rightarrow> Some a | _ \<Rightarrow> None))"
proof (induction t arbitrary: par ptr)
  case Tip
  then show ?case by (subst lookup_loop.simps) simp
next
  case (Nd l a q i r)
  then obtain n where n: "ptr = Some a" "h a = Some n" "rp n = q" "info n = i"
    "tree_at h (Some a) (l_left n) l" "tree_at h (Some a) (l_right n) r"
    by (auto split: option.splits)
  note link = next_link_down [of n p] prefix_len_less [of "prefix_bits q" "prefix_bits p"]
  show ?case using Nd n link
    by (subst lookup_loop.simps)
      (auto simp: step_down_iff prefixlen_eq_iff down_def simp del: length_prefix_bits
        split: option.splits)
qed

lemma tfind_spec:
  "trie_ok f t \<Longrightarrow> tfind p t = Some (a, i) \<longleftrightarrow>
   (\<exists>q. (a, q, i) \<in> set (preorder t) \<and> prefix_bits q = prefix_bits p)"
proof (induction t)
  case (Nd l b q j r)
  let ?Q = "prefix_bits q" and ?P = "prefix_bits p"
  consider "\<not> Sublist.prefix ?Q ?P" | "?Q = ?P" | "Sublist.prefix ?Q ?P" "length ?Q < length ?P"
    using prefix_length_less [of ?Q ?P] by (auto simp: strict_prefix_def)
  then show ?case
  proof cases
    case 1
    then have "\<not> Sublist.prefix (prefix_bits q') ?P" if "(a', q', i') \<in> set (preorder (Nd l b q j r))" for a' q' i'
      using that Nd.prems below_not_prefix [of ?Q _ ?P]
        below_trans [of "?Q @ [False]" l ?Q] below_trans [of "?Q @ [True]" r ?Q] by auto
    then show ?thesis using 1 by fastforce
  next
    case 2
    then show ?thesis using Nd.prems
      by (auto simp del: length_prefix_bits dest: side_exact [where p = ?P])
  next
    case 3
    have ne: "?Q \<noteq> ?P" using 3(2) by auto
    have len: "length ?Q \<noteq> length ?P" using 3(2) by simp
    have ok: "below (?Q @ [False]) l" "below (?Q @ [True]) r" "trie_ok f l" "trie_ok f r"
      using Nd.prems by simp_all
    show ?thesis
    proof (cases "?P ! length ?Q")
      case True
      have "\<nexists>q'. (a, q', i) \<in> set (preorder l) \<and> prefix_bits q' = ?P"
        using side_exact [OF ok(1)] True by blast
      then show ?thesis using Nd.IH(2) [OF ok(4)] 3(1) len ne True
        by (simp del: length_prefix_bits) blast
    next
      case False
      have "\<nexists>q'. (a, q', i) \<in> set (preorder r) \<and> prefix_bits q' = ?P"
        using side_exact [OF ok(2)] False by blast
      then show ?thesis using Nd.IH(1) [OF ok(3)] 3(1) len ne False
        by (simp del: length_prefix_bits) blast
    qed
  qed
qed simp

subsection \<open>Lookup and match in the store\<close>

text \<open>Locks do not matter to the shape of the tree.\<close>

lemma tree_at_lock:
  "tree_at h par ptr t \<Longrightarrow> h a = Some n \<Longrightarrow> tree_at (h(a \<mapsto> n\<lparr>lock := k\<rparr>)) par ptr t"
  by (induction t arbitrary: par ptr) (auto split: option.splits)

lemma tree_at_node:
  "tree_at h par ptr t \<Longrightarrow> (a, q, i) \<in> set (preorder t) \<Longrightarrow> \<exists>n. h a = Some n \<and> rp n = q \<and> info n = i"
  by (induction t arbitrary: par ptr) (auto split: option.splits)

lemma route_lock_spec:
  "h a = Some n \<Longrightarrow> route_lock_node h a = Inr (h(a \<mapsto> n\<lparr>lock := lock n + 1\<rparr>))"
  by (simp add: route_lock_node_def rnode_def)

lemma table_ok_lock:
  "table_ok f T t \<Longrightarrow> rmem T a = Some n \<Longrightarrow> table_ok f (T\<lparr>rmem := (rmem T)(a \<mapsto> n\<lparr>lock := k\<rparr>)\<rparr>) t"
  by (simp add: table_ok_def tree_at_lock)

lemma table_ok_node:
  "table_ok f T t \<Longrightarrow> (a, q, i) \<in> set (preorder t) \<Longrightarrow> \<exists>n. rmem T a = Some n \<and> rp n = q \<and> info n = i"
  unfolding table_ok_def using tree_at_node by blast

lemma route_node_lookup_spec:
  assumes "table_ok f T t" "prefix_ok p"
  shows "\<exists>r T'. route_node_lookup T p = Some (Inr (r, T')) \<and> table_ok f T' t \<and>
    (\<forall>a. r = Some a \<longleftrightarrow> (\<exists>q i. (a, q, Some i) \<in> set (preorder t) \<and> prefix_bits q = prefix_bits p))"
proof -
  have tr: "tree_at (rmem T) None (top T) t" "trie_ok f t" using assms(1) by (simp_all add: table_ok_def)
  define r where "r = (case tfind p t of Some (a, Some _) \<Rightarrow> Some a | _ \<Rightarrow> None)"
  have l: "lookup_loop (rmem T) p (top T) = Some (Inr r)"
    using lookup_loop_tree [OF tr assms(2)] by (simp add: r_def)
  have "r = Some a \<longleftrightarrow> (\<exists>i. tfind p t = Some (a, Some i))" for a
    by (auto simp: r_def split: option.splits)
  then have r: "r = Some a \<longleftrightarrow> (\<exists>q i. (a, q, Some i) \<in> set (preorder t) \<and> prefix_bits q = prefix_bits p)" for a
    using tfind_spec [OF tr(2), of p a] by auto
  show ?thesis
  proof (cases r)
    case None
    then show ?thesis using l r assms(1) by (auto simp: route_node_lookup_def)
  next
    case (Some a)
    then obtain n where n: "rmem T a = Some n" using r table_ok_node [OF assms(1)] by blast
    then have "route_node_lookup T p = Some (Inr (r, T\<lparr>rmem := (rmem T)(a \<mapsto> n\<lparr>lock := lock n + 1\<rparr>)\<rparr>))"
      using l by (simp add: route_node_lookup_def route_lock_spec Some)
    then show ?thesis using r table_ok_lock [OF assms(1) n] by blast
  qed
qed

lemma route_node_match_spec:
  assumes "table_ok f T t" "prefix_ok p"
  shows "\<exists>r T'. route_node_match T p = Some (Inr (r, T')) \<and> table_ok f T' t \<and>
    (case r of None \<Rightarrow> candidates p t = {} | Some a \<Rightarrow> longest p t a)"
proof -
  have tr: "tree_at (rmem T) None (top T) t" "trie_ok f t" using assms(1) by (simp_all add: table_ok_def)
  have l: "match_loop (rmem T) p (top T) None = Some (Inr (tmatch p t None))"
    using match_loop_tree [OF tr assms(2)] .
  note spec = tmatch_spec [OF tr(2), of p None]
  show ?thesis
  proof (cases "candidates p t = {}")
    case True
    then have "tmatch p t None = None" using spec by simp
    then show ?thesis using l assms(1) True by (auto simp: route_node_match_def)
  next
    case False
    then obtain a where a: "tmatch p t None = Some a" "longest p t a" using spec by auto
    then obtain q i where "(a, q, i) \<in> set (preorder t)" by (auto simp: longest_def candidates_def)
    then obtain n where n: "rmem T a = Some n" using table_ok_node [OF assms(1)] by blast
    then have "route_node_match T p = Some (Inr (Some a, T\<lparr>rmem := (rmem T)(a \<mapsto> n\<lparr>lock := lock n + 1\<rparr>)\<rparr>))"
      using l a(1) by (simp add: route_node_match_def route_lock_spec)
    then show ?thesis using a(2) table_ok_lock [OF assms(1) n] by fastforce
  qed
qed

end
