(* ===== verification/Route_Insert.thy ===== *)
theory Route_Insert
  imports Route_Table
begin

text \<open>
  Insertion into the route table (\<open>route_node_get\<close>, \<open>route_common\<close> of \<open>lib/table.c\<close>):
  the common prefix of two prefixes, the tree after an insertion, and the proof that the
  pointer updates of the code build that tree.
\<close>

subsection \<open>The common prefix\<close>

lemma common_bytes_spec:
  assumes "common_bytes np pp n i new = (k, new')" "i \<le> n" "n \<le> length np" "n \<le> length pp" "n \<le> length new"
    "take i np = take i pp" "take i new = take i np"
  shows "k \<le> n \<and> take k np = take k pp \<and> take k new' = take k np \<and> length new' = length new \<and>
    (k < n \<longrightarrow> np ! k \<noteq> pp ! k)"
  using assms
proof (induction np pp n i new rule: common_bytes.induct)
  case (1 np pp n i new)
  show ?case
  proof (cases "i < n \<and> np ! i = pp ! i")
    case True
    then have "common_bytes np pp n (Suc i) (new[i := np ! i]) = (k, new')"
      using "1.prems"(1) by (subst (asm) common_bytes.simps) simp
    moreover have "take (Suc i) np = take (Suc i) pp" "take (Suc i) (new[i := np ! i]) = take (Suc i) np"
      using True "1.prems" by (simp_all add: take_Suc_conv_app_nth)
    ultimately show ?thesis using "1.IH" True "1.prems" by simp
  next
    case False
    then show ?thesis using "1.prems" by (subst (asm) common_bytes.simps) (auto split: if_splits)
  qed
qed

lemma mask_and_zero:
  assumes "k < 8"
  shows "drop_bit k (0x80 :: u8) AND d = 0 \<longleftrightarrow> \<not> bit d (7 - k)"
proof -
  have "k \<in> {0, 1, 2, 3, 4, 5, 6, 7}" using assms by (simp only: less_8_cases)
  then show ?thesis
    by (elim insertE emptyE) (simp_all add: u8_eq_iff bit_and_iff bit_drop_bit_eq)
qed

lemma common_bits_spec:
  assumes "len = 8 * i + k" "k \<le> 8" "len \<le> plen" "plen \<le> 8 * i + 8 \<or> (\<exists>j<8. k \<le> j \<and> bit d (7 - j))"
    "r = common_bits d plen (drop_bit k 0x80) len"
  shows "len \<le> r \<and> r \<le> plen \<and> r \<le> 8 * i + 8 \<and>
    (\<forall>j. len \<le> j \<and> j < r \<longrightarrow> \<not> bit d (7 - (j - 8 * i))) \<and>
    (r < plen \<longrightarrow> r < 8 * i + 8 \<and> bit d (7 - (r - 8 * i)))"
  using assms
proof (induction "plen - len" arbitrary: len k)
  case 0
  then have "r = len" by (subst (asm) common_bits.simps) simp
  then show ?case using 0 by auto
next
  case (Suc x)
  then have k: "k < 8" by auto
  show ?case
  proof (cases "bit d (7 - k)")
    case True
    then have "r = len" using Suc.prems k mask_and_zero [OF k, of d]
      by (subst (asm) common_bits.simps) simp
    then show ?thesis using Suc True k by auto
  next
    case False
    have m: "drop_bit 1 (drop_bit k (0x80 :: u8)) = drop_bit (Suc k) 0x80" by (simp add: drop_bit_drop_bit)
    have "len < plen \<and> drop_bit k 0x80 AND d = 0"
      using Suc.hyps(2) False mask_and_zero [OF k, of d] by simp
    then have "r = common_bits d plen (drop_bit (Suc k) 0x80) (Suc len)"
      unfolding Suc.prems(5) by (subst common_bits.simps) (simp only: if_True simp_thms m)
    moreover have "plen \<le> 8 * i + 8 \<or> (\<exists>j<8. Suc k \<le> j \<and> bit d (7 - j))"
      using Suc.prems(4) False by (metis le_antisym not_less_eq_eq)
    ultimately have IH: "Suc len \<le> r \<and> r \<le> plen \<and> r \<le> 8 * i + 8 \<and>
      (\<forall>j. Suc len \<le> j \<and> j < r \<longrightarrow> \<not> bit d (7 - (j - 8 * i))) \<and>
      (r < plen \<longrightarrow> r < 8 * i + 8 \<and> bit d (7 - (r - 8 * i)))"
      using Suc.hyps(1) [of "Suc len" "Suc k"] Suc.hyps(2) Suc.prems k by auto
    have "\<not> bit d (7 - (j - 8 * i))" if "len \<le> j" "j < r" for j
      using IH that False Suc.prems(1) by (cases "j = len") auto
    with IH show ?thesis by auto
  qed
qed

lemma bits_differ_iff:
  assumes "j div 8 < length xs" "j div 8 < length ys"
  shows "bits_of xs ! j = bits_of ys ! j \<longleftrightarrow> \<not> bit (xs ! (j div 8) XOR ys ! (j div 8)) (7 - j mod 8)"
proof -
  have "j < 8 * length xs" "j < 8 * length ys" using assms by auto
  then show ?thesis by (auto simp: nth_bits_of bit_xor_iff)
qed

text \<open>
  \<open>route_common\<close> finds the first bit where the addresses differ, or the length of \<open>p\<close>:
  \<open>first_diff\<close> states it for the address bits.
\<close>

definition first_diff :: "bool list \<Rightarrow> bool list \<Rightarrow> nat \<Rightarrow> nat \<Rightarrow> bool" where
  "first_diff xs ys n k \<longleftrightarrow> k \<le> n \<and> (\<forall>j<k. xs ! j = ys ! j) \<and> (k < n \<longrightarrow> xs ! k \<noteq> ys ! k)"

lemma take_eq_below:
  "take i xs = take i ys \<Longrightarrow> j < i \<Longrightarrow> xs ! j = ys ! j"
  by (metis nth_take)

lemma bits_agree_below:
  "take i xs = take i ys \<Longrightarrow> j < 8 * i \<Longrightarrow> bits_of xs ! j = bits_of ys ! j"
  using take_eq_below [of "8 * i" "bits_of xs" "bits_of ys"] by (metis bits_of_take)

lemma common_bits_first_diff:
  assumes i: "take i np = take i pp" "8 * i < plen" "plen < 8 * i + 8 \<or> np ! i \<noteq> pp ! i"
    and len: "plen \<le> 8 * length np" "plen \<le> 8 * length pp"
    and r: "r = common_bits (np ! i XOR pp ! i) plen 0x80 (8 * i)"
  shows "first_diff (bits_of np) (bits_of pp) plen r \<and> 8 * i \<le> r \<and> r < 8 * i + 8"
proof -
  let ?d = "np ! i XOR pp ! i"
  have stop: "plen < 8 * i + 8 \<or> (\<exists>j<8. 0 \<le> j \<and> bit ?d (7 - j))"
  proof (cases "np ! i = pp ! i")
    case True
    then show ?thesis using i(3) by blast
  next
    case False
    then have "byte_bits (np ! i) \<noteq> byte_bits (pp ! i)" by simp
    then obtain j where "j < 8" "byte_bits (np ! i) ! j \<noteq> byte_bits (pp ! i) ! j"
      by (auto simp: list_eq_iff_nth_eq)
    then show ?thesis by (auto simp: byte_bits_nth bit_xor_iff)
  qed
  then have "plen \<le> 8 * i + 8 \<or> (\<exists>j<8. 0 \<le> j \<and> bit ?d (7 - j))" by auto
  note cb = common_bits_spec [of "8 * i" i 0 plen ?d r, OF _ _ _ this]
  have "8 * i \<le> r \<and> r \<le> plen \<and> r \<le> 8 * i + 8 \<and>
    (\<forall>j. 8 * i \<le> j \<and> j < r \<longrightarrow> \<not> bit ?d (7 - (j - 8 * i))) \<and>
    (r < plen \<longrightarrow> r < 8 * i + 8 \<and> bit ?d (7 - (r - 8 * i)))"
    by (rule cb) (use r i in simp_all)
  then have lo: "8 * i \<le> r" and hi: "r \<le> plen"
    and zero: "\<And>j. 8 * i \<le> j \<Longrightarrow> j < r \<Longrightarrow> \<not> bit ?d (7 - (j - 8 * i))"
    and one: "r < plen \<Longrightarrow> bit ?d (7 - (r - 8 * i))" by blast+
  have r8: "r < 8 * i + 8"
  proof (rule ccontr)
    assume r: "\<not> r < 8 * i + 8"
    then have "\<not> bit ?d (7 - j)" if "j < 8" for j
      using zero [of "8 * i + j"] that by simp
    then show False using stop hi r by auto
  qed
  have byte: "bits_of np ! j = bits_of pp ! j \<longleftrightarrow> \<not> bit ?d (7 - (j - 8 * i))"
    if j: "8 * i \<le> j" "j < 8 * i + 8" "j < plen" for j
  proof -
    obtain k where k: "j = 8 * i + k" using le_Suc_ex [OF j(1)] by auto
    then have "k < 8" using j(2) by simp
    with k have "j div 8 = i" "j mod 8 = j - 8 * i" by simp_all
    moreover have "j div 8 < length np" "j div 8 < length pp" using j len by linarith+
    ultimately show ?thesis using bits_differ_iff [of j np pp] by simp
  qed
  have "bits_of np ! j = bits_of pp ! j" if "j < r" for j
  proof (cases "j < 8 * i")
    case True
    then show ?thesis by (rule bits_agree_below [OF i(1)])
  next
    case False
    then show ?thesis using byte [of j] zero [of j] that r8 hi by simp
  qed
  moreover have "r < plen \<Longrightarrow> bits_of np ! r \<noteq> bits_of pp ! r" using byte [of r] one lo r8 by simp
  ultimately show ?thesis using lo hi r8 by (simp add: first_diff_def)
qed

lemma route_common_spec:
  assumes "prefix_ok n" "prefix_ok p" "length (u_bytes new) = 16"
  shows "\<exists>k. first_diff (bits_of (u_bytes n)) (bits_of (u_bytes p)) (unat (prefixlen p)) k \<and>
    prefixlen (route_common n p new) = of_nat k \<and>
    length (u_bytes (route_common n p new)) = 16 \<and>
    take k (bits_of (u_bytes (route_common n p new))) = take k (bits_of (u_bytes n))"
proof -
  let ?np = "u_bytes n" and ?pp = "u_bytes p" and ?plen = "unat (prefixlen p)"
  obtain i newp where cb: "common_bytes ?np ?pp (?plen div 8) 0 (u_bytes new) = (i, newp)"
    by (cases "common_bytes ?np ?pp (?plen div 8) 0 (u_bytes new)")
  note len = prefix_ok_len [OF assms(1)] prefix_ok_len [OF assms(2)]
  then have bound: "?plen div 8 \<le> 16" by auto
  from common_bytes_spec [OF cb] bound len assms(3)
  have i: "i \<le> ?plen div 8" "take i ?np = take i ?pp" "take i newp = take i ?np" "length newp = 16"
    "i < ?plen div 8 \<longrightarrow> ?np ! i \<noteq> ?pp ! i" by auto
  show ?thesis
  proof (cases "i * 8 = ?plen")
    case True
    then have "first_diff (bits_of ?np) (bits_of ?pp) ?plen ?plen"
      using bits_agree_below [OF i(2)] by (auto simp: first_diff_def)
    moreover have "take ?plen (bits_of newp) = take ?plen (bits_of ?np)"
      using i(3) True bits_of_take [of i newp] bits_of_take [of i ?np] by (simp add: mult.commute)
    moreover have "route_common n p new = new\<lparr>prefixlen := of_nat ?plen, u_bytes := newp\<rparr>"
      using cb True by (simp add: route_common_def Let_def)
    ultimately show ?thesis using i(4) by (intro exI [of _ ?plen]) simp
  next
    case False
    define r where "r = common_bits (?np ! i XOR ?pp ! i) ?plen 0x80 (8 * i)"
    have lt: "8 * i < ?plen" using i(1) False by linarith
    have "?plen < 8 * i + 8 \<or> ?np ! i \<noteq> ?pp ! i" using i(1,5) by (cases "i = ?plen div 8") auto
    from common_bits_first_diff [OF i(2) lt this _ _ r_def] len
    have fd: "first_diff (bits_of ?np) (bits_of ?pp) ?plen r" "8 * i \<le> r" "r < 8 * i + 8" by auto
    then have ri: "r div 8 = i" by (simp add: div_nat_eqI)
    let ?new = "newp[i := ?np ! i AND maskbit ! (r mod 8)]"
    have i16: "i < 16" using lt len by auto
    have l: "r \<le> 8 * length ?new" "r \<le> 8 * length ?np" using i(4) len i16 fd(3) by simp_all
    have "take i ?new = take i ?np" "?new ! i = ?np ! i AND maskbit ! (r mod 8)"
      using i(3,4) i16 by simp_all
    then have "take r (bits_of ?new) = take r (bits_of ?np)"
      unfolding take_bits_of_eq [OF l] ri by (simp add: byte_bits_maskbit)
    moreover have "route_common n p new = new\<lparr>prefixlen := of_nat r, u_bytes := ?new\<rparr>"
      using cb False by (simp add: route_common_def r_def mult.commute Let_def)
    ultimately show ?thesis using fd(1) i(4) by (intro exI [of _ r]) simp
  qed
qed

definition common_of :: "prefix \<Rightarrow> prefix \<Rightarrow> prefix" where
  "common_of q p = (route_common q p prefix_new)\<lparr>family := family p\<rparr>"

lemma prefix_bits_nth:
  "prefix_ok p \<Longrightarrow> j < unat (prefixlen p) \<Longrightarrow> prefix_bits p ! j = bits_of (u_bytes p) ! j"
  by (simp add: prefix_bits_def)

lemma common_of_spec:
  assumes ok: "prefix_ok q" "prefix_ok p" and np: "\<not> Sublist.prefix (prefix_bits q) (prefix_bits p)"
  defines "C \<equiv> prefix_bits (common_of q p)"
  shows "prefix_ok (common_of q p)" "Sublist.prefix C (prefix_bits p)" "Sublist.prefix C (prefix_bits q)"
    "length C < length (prefix_bits q)"
    "length C < length (prefix_bits p) \<Longrightarrow> prefix_bits q ! length C \<noteq> prefix_bits p ! length C"
proof -
  let ?Q = "prefix_bits q" and ?P = "prefix_bits p" and ?c = "common_of q p"
  obtain k where k: "first_diff (bits_of (u_bytes q)) (bits_of (u_bytes p)) (unat (prefixlen p)) k"
    "prefixlen ?c = of_nat k" "length (u_bytes ?c) = 16"
    "take k (bits_of (u_bytes ?c)) = take k (bits_of (u_bytes q))"
    using route_common_spec [OF ok, of prefix_new] by (auto simp: common_of_def prefix_new_def)
  have kp: "k \<le> unat (prefixlen p)" using k(1) by (simp add: first_diff_def)
  then have uk: "unat (prefixlen ?c) = k" using k(2) prefix_ok_len [OF ok(2)]
    by (simp add: unat_of_nat)
  show okc: "prefix_ok ?c" using ok(2) k(3) kp uk
    by (auto simp: prefix_ok_def prefix_blen_def common_of_def prefix_consts split: if_splits)
  have lenC: "length C = k" using okc uk by (simp add: C_def)
  have agree: "j < k \<Longrightarrow> bits_of (u_bytes q) ! j = bits_of (u_bytes p) ! j" for j
    using k(1) by (simp add: first_diff_def)
  have C: "C ! j = bits_of (u_bytes q) ! j" if "j < k" for j
    using that k(4) uk by (simp add: C_def prefix_bits_def)
  have kq: "k < length ?Q"
  proof (rule ccontr)
    assume "\<not> k < length ?Q"
    then have "length ?Q \<le> length ?P" "take (length ?Q) ?P = ?Q"
      using kp ok agree by (auto intro!: nth_equalityI simp: prefix_bits_nth)
    then show False using np by (simp add: prefix_iff_take)
  qed
  then show "length C < length ?Q" by (simp add: lenC)
  show "Sublist.prefix C ?P"
    using kp ok C agree by (auto simp: prefix_iff_take lenC prefix_bits_nth intro!: nth_equalityI)
  show "Sublist.prefix C ?Q"
    using kq ok C by (auto simp: prefix_iff_take lenC prefix_bits_nth intro!: nth_equalityI)
  show "?Q ! length C \<noteq> ?P ! length C" if "length C < length ?P"
    using that k(1) kq ok by (simp add: lenC prefix_bits_nth first_diff_def)
qed

lemma common_of_family [simp]: "family (common_of q p) = family p"
  by (simp add: common_of_def)

definition pcopy :: "prefix \<Rightarrow> prefix" where
  "pcopy p = (case prefix_copy prefix_new p of Inr q \<Rightarrow> q | Inl _ \<Rightarrow> p)"

lemma prefix_copy_new:
  assumes "prefix_ok p"
  shows "prefix_copy prefix_new p = Inr (pcopy p)" "prefix_ok (pcopy p)"
    "family (pcopy p) = family p" "prefixlen (pcopy p) = prefixlen p"
    "prefix_bits (pcopy p) = prefix_bits p"
proof -
  have fam: "family p = AF_INET \<or> family p = AF_INET6" using assms by (auto simp: prefix_ok_def)
  then show "prefix_copy prefix_new p = Inr (pcopy p)"
    by (auto simp: prefix_copy_def pcopy_def prefix_consts Let_def)
  have len: "length (u_bytes p) = 16" using assms by (simp add: prefix_ok_def)
  have pc: "pcopy p = \<lparr>family = family p, prefixlen = prefixlen p,
      u_bytes = if family p = AF_INET then take 4 (u_bytes p) @ replicate 12 0 else u_bytes p\<rparr>"
    using fam len by (auto simp: pcopy_def prefix_copy_def prefix_consts Let_def prefix_new_def)
  show "family (pcopy p) = family p" "prefixlen (pcopy p) = prefixlen p" by (simp_all add: pc)
  show "prefix_ok (pcopy p)" using assms
    by (auto simp: pc prefix_ok_def prefix_blen_def prefix_consts split: if_splits)
  have "family p = AF_INET \<Longrightarrow> unat (prefixlen p) \<le> 32"
    using assms by (simp add: prefix_ok_def prefix_blen_def prefix_consts)
  then show "prefix_bits (pcopy p) = prefix_bits p"
    using len by (auto simp: pc prefix_bits_def bits_of_take min_def)
qed

subsection \<open>Insertion into the tree\<close>

lemma prefix_snoc_nth:
  "Sublist.prefix b q \<Longrightarrow> length b < length q \<Longrightarrow> Sublist.prefix (b @ [q ! length b]) q"
  by (auto simp: prefix_def) (metis append_Cons append_Nil hd_conv_nth list.collapse nth_append_length_plus
      add.right_neutral)

lemma common_above:
  assumes ok: "prefix_ok q" "prefix_ok p" and np: "\<not> Sublist.prefix (prefix_bits q) (prefix_bits p)"
    and b: "Sublist.prefix b (prefix_bits q)" "Sublist.prefix b (prefix_bits p)"
  shows "Sublist.prefix b (prefix_bits (common_of q p))"
proof -
  note C = common_of_spec [OF ok np]
  let ?k = "length (prefix_bits (common_of q p))"
  have "length b \<le> ?k"
  proof (rule ccontr)
    assume "\<not> length b \<le> ?k"
    then have "b ! ?k = prefix_bits q ! ?k" "b ! ?k = prefix_bits p ! ?k" "?k < length (prefix_bits p)"
      using b prefix_length_le [OF b(2)] by (auto simp: prefix_def nth_append)
    then show False using C(5) by simp
  qed
  then show ?thesis using b(2) C(2) prefix_length_prefix by blast
qed

definition leaf_tree :: "raddr \<Rightarrow> prefix \<Rightarrow> rtree" where
  "leaf_tree a p = Nd Tip a (pcopy p) None Tip"

definition same_len :: "prefix \<Rightarrow> prefix \<Rightarrow> bool" where
  "same_len q p \<longleftrightarrow> length (prefix_bits (common_of q p)) = length (prefix_bits p)"

definition branch :: "raddr \<Rightarrow> raddr \<Rightarrow> prefix \<Rightarrow> prefix \<Rightarrow> rtree \<Rightarrow> rtree" where
  "branch c d p q t =
     (let e = (if same_len q p then Tip else leaf_tree d p)
      in if prefix_bits q ! length (prefix_bits (common_of q p))
         then Nd e c (common_of q p) None t else Nd t c (common_of q p) None e)"

text \<open>The tree after \<open>route_node_get\<close>, and the address it returns.\<close>

fun tget :: "raddr \<Rightarrow> raddr \<Rightarrow> prefix \<Rightarrow> rtree \<Rightarrow> rtree" where
  "tget c d p Tip = leaf_tree c p"
| "tget c d p (Nd l a q i r) =
     (if Sublist.prefix (prefix_bits q) (prefix_bits p) then
        if length (prefix_bits q) = length (prefix_bits p) then Nd l a q i r
        else if prefix_bits p ! length (prefix_bits q) then Nd l a q i (tget c d p r)
        else Nd (tget c d p l) a q i r
      else branch c d p q (Nd l a q i r))"

fun tres :: "raddr \<Rightarrow> raddr \<Rightarrow> prefix \<Rightarrow> rtree \<Rightarrow> raddr" where
  "tres c d p Tip = c"
| "tres c d p (Nd l a q i r) =
     (if Sublist.prefix (prefix_bits q) (prefix_bits p) then
        if length (prefix_bits q) = length (prefix_bits p) then a
        else if prefix_bits p ! length (prefix_bits q) then tres c d p r
        else tres c d p l
      else if same_len q p then c else d)"

lemma below_branch:
  assumes "below b (Nd l a q i r)" "Sublist.prefix b (prefix_bits p)" "prefix_ok q" "prefix_ok p"
    "\<not> Sublist.prefix (prefix_bits q) (prefix_bits p)"
  shows "below b (branch c d p q (Nd l a q i r))"
  using assms common_above [OF assms(3,4,5), of b] prefix_copy_new(5) [OF assms(4)]
  by (simp add: branch_def leaf_tree_def Let_def)

lemma below_tget:
  "below b t \<Longrightarrow> Sublist.prefix b (prefix_bits p) \<Longrightarrow> trie_ok f t \<Longrightarrow> prefix_ok p \<Longrightarrow> below b (tget c d p t)"
proof (induction t)
  case Tip
  then show ?case by (simp add: leaf_tree_def prefix_copy_new)
next
  case (Nd l a q i r)
  then show ?case using below_branch [of b l a q i r p c d] by (simp del: length_prefix_bits)
qed

lemma trie_branch:
  assumes "trie_ok (family p) (Nd l a q i r)" "prefix_ok p"
    "\<not> Sublist.prefix (prefix_bits q) (prefix_bits p)"
  shows "trie_ok (family p) (branch c d p q (Nd l a q i r))"
proof -
  let ?C = "prefix_bits (common_of q p)" and ?t = "Nd l a q i r"
  have q: "prefix_ok q" using assms(1) by simp
  note C = common_of_spec [OF q assms(2,3)]
  have "below (prefix_bits q) ?t"
    using assms(1) below_trans [of "prefix_bits q @ [False]" l "prefix_bits q"]
      below_trans [of "prefix_bits q @ [True]" r "prefix_bits q"] by simp
  then have t: "below (?C @ [prefix_bits q ! length ?C]) ?t"
    using below_trans prefix_snoc_nth [OF C(3,4)] by blast
  have e: "below (?C @ [\<not> prefix_bits q ! length ?C]) (leaf_tree d p)" if "\<not> same_len q p"
  proof -
    have lt: "length ?C < length (prefix_bits p)"
      using that prefix_length_le [OF C(2)] by (simp add: same_len_def)
    have "Sublist.prefix (?C @ [prefix_bits p ! length ?C]) (prefix_bits p)"
      by (rule prefix_snoc_nth [OF C(2) lt])
    moreover have "prefix_bits p ! length ?C = (\<not> prefix_bits q ! length ?C)" using C(5) [OF lt] by blast
    ultimately show ?thesis using prefix_copy_new [OF assms(2)] by (simp add: leaf_tree_def)
  qed
  have "trie_ok (family p) (leaf_tree d p)"
    using prefix_copy_new [OF assms(2)] by (simp add: leaf_tree_def)
  then show ?thesis using t e assms(1) C(1)
    by (cases "prefix_bits q ! length ?C") (simp_all add: branch_def Let_def)
qed

lemma trie_tget:
  "trie_ok f t \<Longrightarrow> prefix_ok p \<Longrightarrow> family p = f \<Longrightarrow> trie_ok f (tget c d p t)"
proof (induction t)
  case Tip
  then show ?case by (simp add: leaf_tree_def prefix_copy_new)
next
  case (Nd l a q i r)
  let ?Q = "prefix_bits q" and ?P = "prefix_bits p"
  have "Sublist.prefix (?Q @ [?P ! length ?Q]) ?P" if "Sublist.prefix ?Q ?P" "length ?Q \<noteq> length ?P"
    using that prefix_snoc_nth prefix_len_less by blast
  then show ?case
    using Nd below_tget [of "?Q @ [True]" r p f c d] below_tget [of "?Q @ [False]" l p f c d]
      trie_branch [of p l a q i r c d]
    by (auto simp del: length_prefix_bits)
qed

lemma preorder_tget_old: "x \<in> set (preorder t) \<Longrightarrow> x \<in> set (preorder (tget c d p t))"
  by (induction t) (auto simp: leaf_tree_def branch_def Let_def)

lemma preorder_tget_new:
  "(a, q, i) \<in> set (preorder (tget c d p t)) \<Longrightarrow> (a, q, i) \<in> set (preorder t) \<or> i = None \<and> a \<in> {c, d}"
  by (induction t) (auto simp: leaf_tree_def branch_def Let_def split: if_splits)

lemma tres_tget:
  "trie_ok f t \<Longrightarrow> prefix_ok p \<Longrightarrow>
   \<exists>q i. (tres c d p t, q, i) \<in> set (preorder (tget c d p t)) \<and> prefix_bits q = prefix_bits p"
proof (induction t)
  case Tip
  then show ?case by (simp add: leaf_tree_def prefix_copy_new)
next
  case (Nd l a q i r)
  let ?Q = "prefix_bits q" and ?P = "prefix_bits p"
  consider "\<not> Sublist.prefix ?Q ?P" | "Sublist.prefix ?Q ?P" "length ?Q = length ?P"
    | "Sublist.prefix ?Q ?P" "length ?Q \<noteq> length ?P" by blast
  then show ?case
  proof cases
    case 1
    have "Sublist.prefix (prefix_bits (common_of q p)) ?P"
      using common_of_spec(2) [of q p] 1 Nd.prems by simp
    then have "same_len q p \<Longrightarrow> prefix_bits (common_of q p) = ?P"
      unfolding same_len_def by (auto simp: prefix_def)
    then show ?thesis using 1 prefix_copy_new(5) [of p] Nd.prems(2)
      by (cases "same_len q p") (auto simp: branch_def leaf_tree_def Let_def)
  next
    case 2
    then have "?Q = ?P" by (auto simp: prefix_def)
    then show ?thesis using 2 by auto
  next
    case 3
    show ?thesis
    proof (cases "?P ! length ?Q")
      case True
      then show ?thesis using 3 Nd.IH(2) Nd.prems by auto
    next
      case False
      then show ?thesis using 3 Nd.IH(1) Nd.prems by auto
    qed
  qed
qed

lemma addrs_tget: "set (addrs (tget c d p t)) \<subseteq> set (addrs t) \<union> {c, d}"
  by (induction t) (auto simp: leaf_tree_def branch_def Let_def)

lemma distinct_tget:
  "distinct (addrs t) \<Longrightarrow> c \<noteq> d \<Longrightarrow> c \<notin> set (addrs t) \<Longrightarrow> d \<notin> set (addrs t) \<Longrightarrow>
   distinct (addrs (tget c d p t))"
proof (induction t)
  case (Nd l a q i r)
  then show ?case using addrs_tget [of c d p l] addrs_tget [of c d p r]
    by (auto simp: leaf_tree_def branch_def Let_def)
qed (simp add: leaf_tree_def)

subsection \<open>Insertion into the store\<close>

fun rootp :: "rtree \<Rightarrow> raddr option" where
  "rootp Tip = None"
| "rootp (Nd l a p i r) = Some a"

lemma rootp_branch [simp]: "rootp (branch c d p q t) = Some c"
  by (simp add: branch_def Let_def)

lemma tree_at_rootp: "tree_at h par ptr t \<Longrightarrow> ptr = rootp t"
  by (cases t) auto

lemma tree_at_frame:
  "tree_at h par ptr t \<Longrightarrow> \<forall>x \<in> set (addrs t). h' x = h x \<Longrightarrow> tree_at h' par ptr t"
  by (induction t arbitrary: par ptr) (auto split: option.splits)

lemma tree_at_alloc: "tree_at h par ptr t \<Longrightarrow> x \<in> set (addrs t) \<Longrightarrow> h x \<noteq> None"
  by (induction t arbitrary: par ptr) (auto split: option.splits)

fun tstop :: "prefix \<Rightarrow> rtree \<Rightarrow> raddr option \<Rightarrow> get_stop" where
  "tstop p Tip m = Stop m None"
| "tstop p (Nd l a q i r) m =
     (if Sublist.prefix (prefix_bits q) (prefix_bits p) then
        if length (prefix_bits q) = length (prefix_bits p) then Got a
        else if prefix_bits p ! length (prefix_bits q) then tstop p r (Some a) else tstop p l (Some a)
      else Stop m (Some a))"

lemma get_loop_tree:
  "tree_at h par ptr t \<Longrightarrow> trie_ok f t \<Longrightarrow> prefix_ok p \<Longrightarrow>
   get_loop h p ptr m = Some (Inr (tstop p t m))"
proof (induction t arbitrary: par ptr m)
  case Tip
  then show ?case by (subst get_loop.simps) simp
next
  case (Nd l a q i r)
  then obtain n where n: "ptr = Some a" "h a = Some n" "rp n = q" "info n = i"
    "tree_at h (Some a) (l_left n) l" "tree_at h (Some a) (l_right n) r"
    by (auto split: option.splits)
  note link = next_link_down [of n p] prefix_len_less [of "prefix_bits q" "prefix_bits p"]
  show ?case using Nd n link
    by (subst get_loop.simps)
      (auto simp: step_down_iff prefixlen_eq_iff down_def simp del: length_prefix_bits)
qed

lemma tstop_Got:
  "tstop p t m = Got a \<Longrightarrow> tget c d p t = t \<and> tres c d p t = a \<and> a \<in> set (addrs t)"
  by (induction t arbitrary: m) (auto split: if_splits)

lemma tstop_addr:
  "tstop p t m = Stop m' n' \<Longrightarrow> (m' = m \<or> (\<exists>x \<in> set (addrs t). m' = Some x)) \<and>
   (n' = None \<or> (\<exists>x \<in> set (addrs t). n' = Some x))"
  by (induction t arbitrary: m) (auto split: if_splits)

lemma tstop_root:
  "tstop p t m = Stop m' n' \<Longrightarrow> \<forall>x \<in> set (addrs t). m \<noteq> Some x \<Longrightarrow>
   rootp (tget c d p t) = (if m' = m then Some c else rootp t)"
proof (cases t)
  case (Nd l a q i r)
  assume s: "tstop p t m = Stop m' n'" "\<forall>x \<in> set (addrs t). m \<noteq> Some x"
  show ?thesis
  proof (cases "Sublist.prefix (prefix_bits q) (prefix_bits p)")
    case True
    then have "m' \<noteq> m"
      using s Nd tstop_addr [of p r "Some a" m' n'] tstop_addr [of p l "Some a" m' n']
      by (auto split: if_splits)
    then show ?thesis using True Nd s by (auto split: if_splits)
  next
    case False
    then show ?thesis using Nd s by (auto simp: branch_def Let_def)
  qed
qed (auto simp: leaf_tree_def)

text \<open>The store after \<open>route_node_get\<close> stopped at \<open>m\<close> and \<open>n\<close>, apart from the lock.\<close>

definition leaf_node :: "prefix \<Rightarrow> raddr option \<Rightarrow> route_node" where
  "leaf_node p par = route_node_new\<lparr>rp := pcopy p, parent := par\<rparr>"

definition branch_node :: "raddr \<Rightarrow> prefix \<Rightarrow> prefix \<Rightarrow> raddr \<Rightarrow> raddr option \<Rightarrow> route_node" where
  "branch_node d p q b par =
     (let e = (if same_len q p then None else Some d);
          right = prefix_bits q ! length (prefix_bits (common_of q p))
      in route_node_new\<lparr>rp := common_of q p, parent := par,
           l_left := if right then e else Some b, l_right := if right then Some b else e\<rparr>)"

definition relinked :: "prefix \<Rightarrow> raddr \<Rightarrow> route_node \<Rightarrow> route_node" where
  "relinked p c n = (if prefix_bits p ! length (prefix_bits (rp n))
     then n\<lparr>l_right := Some c\<rparr> else n\<lparr>l_left := Some c\<rparr>)"

definition inserted ::
    "raddr \<Rightarrow> raddr \<Rightarrow> prefix \<Rightarrow> rheap \<Rightarrow> raddr option \<Rightarrow> raddr option \<Rightarrow> rheap \<Rightarrow> bool" where
  "inserted c d p h m n h' \<longleftrightarrow>
     (\<forall>x. x \<noteq> c \<and> x \<noteq> d \<and> m \<noteq> Some x \<and> n \<noteq> Some x \<longrightarrow> h' x = h x) \<and>
     (case m of None \<Rightarrow> True | Some a \<Rightarrow> h' a = map_option (relinked p c) (h a)) \<and>
     (case n of
        None \<Rightarrow> h' c = Some (leaf_node p m)
      | Some b \<Rightarrow> h' b = map_option (\<lambda>nb. nb\<lparr>parent := Some c\<rparr>) (h b) \<and>
          h' c = map_option (\<lambda>nb. branch_node d p (rp nb) b m) (h b) \<and>
          (\<forall>nb. h b = Some nb \<and> \<not> same_len (rp nb) p \<longrightarrow> h' d = Some (leaf_node p (Some c))))"

lemma tree_at_branch:
  assumes "tree_at h par ptr (Nd l a q i r)" "inserted c d p h par (Some a) h'"
    "distinct (addrs (Nd l a q i r))" "c \<notin> set (addrs (Nd l a q i r))" "d \<notin> set (addrs (Nd l a q i r))"
    "\<forall>x \<in> set (addrs (Nd l a q i r)). par \<noteq> Some x"
  shows "tree_at h' par (Some c) (branch c d p q (Nd l a q i r))"
proof -
  obtain n where n: "h a = Some n" "rp n = q" "info n = i" "tree_at h (Some a) (l_left n) l"
    "tree_at h (Some a) (l_right n) r" using assms(1) by (auto split: option.splits)
  have h': "h' a = Some (n\<lparr>parent := Some c\<rparr>)" "h' c = Some (branch_node d p q a par)"
    "\<not> same_len q p \<Longrightarrow> h' d = Some (leaf_node p (Some c))"
    using assms(2) n by (simp_all add: inserted_def)
  have "\<forall>x \<in> set (addrs l) \<union> set (addrs r). h' x = h x"
    using assms unfolding inserted_def by auto
  then have "tree_at h' (Some a) (l_left n) l" "tree_at h' (Some a) (l_right n) r"
    using tree_at_frame [OF n(4)] tree_at_frame [OF n(5)] by auto
  then have "tree_at h' (Some c) (Some a) (Nd l a q i r)" using h'(1) n by simp
  moreover have "tree_at h' (Some c) (if same_len q p then None else Some d)
      (if same_len q p then Tip else leaf_tree d p)"
    using h'(3) by (simp add: leaf_tree_def leaf_node_def route_node_new_def)
  ultimately show ?thesis using h'(2)
    by (simp add: branch_def branch_node_def Let_def route_node_new_def)
qed

lemma inserted_frame:
  "inserted c d p h m n h' \<Longrightarrow> x \<noteq> c \<Longrightarrow> x \<noteq> d \<Longrightarrow> m \<noteq> Some x \<Longrightarrow> n \<noteq> Some x \<Longrightarrow> h' x = h x"
  by (simp add: inserted_def)

text \<open>One step down: \<open>s\<close> is the subtree that is entered, \<open>u\<close> the other one.\<close>

lemma inserted_step:
  assumes ins: "inserted c d p h m n h'" and st: "tstop p s (Some a) = Stop m n"
    and ha: "h a = Some k" "rootp s = (if x then l_right k else l_left k)"
    and x: "x = prefix_bits p ! length (prefix_bits (rp k))"
    and fr: "a \<noteq> c" "a \<noteq> d" "a \<notin> set (addrs s)" "c \<notin> set (addrs u)" "d \<notin> set (addrs u)"
      "a \<notin> set (addrs u)" "set (addrs s) \<inter> set (addrs u) = {}"
  shows "h' a = Some (if x then k\<lparr>l_right := rootp (tget c d p s)\<rparr> else k\<lparr>l_left := rootp (tget c d p s)\<rparr>)"
    and "y \<in> set (addrs u) \<Longrightarrow> h' y = h y"
proof -
  have root: "rootp (tget c d p s) = (if m = Some a then Some c else rootp s)"
    using fr(3) by (intro tstop_root [OF st]) auto
  have n: "n \<noteq> Some a" using tstop_addr [OF st] fr(3) by auto
  show "h' a = Some (if x then k\<lparr>l_right := rootp (tget c d p s)\<rparr> else k\<lparr>l_left := rootp (tget c d p s)\<rparr>)"
  proof (cases "m = Some a")
    case True
    then have "h' a = Some (relinked p c k)" using ins ha by (simp add: inserted_def)
    then show ?thesis using True root x by (simp add: relinked_def del: length_prefix_bits)
  next
    case False
    then have "h' a = Some k" using inserted_frame [OF ins fr(1,2) _ n] ha by simp
    then show ?thesis using False root ha(2) by simp
  qed
  show "h' y = h y" if "y \<in> set (addrs u)"
    using inserted_frame [OF ins, of y] tstop_addr [OF st] that fr by auto
qed

lemma tree_at_tget:
  "tree_at h par ptr t \<Longrightarrow> tstop p t par = Stop m n \<Longrightarrow> inserted c d p h m n h' \<Longrightarrow>
   distinct (addrs t) \<Longrightarrow> c \<notin> set (addrs t) \<Longrightarrow> d \<notin> set (addrs t) \<Longrightarrow> \<forall>x \<in> set (addrs t). par \<noteq> Some x \<Longrightarrow>
   tree_at h' par (rootp (tget c d p t)) (tget c d p t)"
proof (induction t arbitrary: par ptr)
  case Tip
  then show ?case by (auto simp: leaf_tree_def inserted_def leaf_node_def route_node_new_def)
next
  case (Nd l a q i r)
  let ?Q = "prefix_bits q" and ?P = "prefix_bits p"
  obtain k where k: "h a = Some k" "rp k = q" "info k = i" "parent k = par"
    "tree_at h (Some a) (l_left k) l" "tree_at h (Some a) (l_right k) r"
    using Nd.prems(1) by (auto split: option.splits)
  have roots: "rootp l = l_left k" "rootp r = l_right k"
    using tree_at_rootp [OF k(5)] tree_at_rootp [OF k(6)] by simp_all
  consider "\<not> Sublist.prefix ?Q ?P" | "Sublist.prefix ?Q ?P" "length ?Q \<noteq> length ?P"
    using Nd.prems(2) by (auto split: if_splits)
  then show ?case
  proof cases
    case 1
    then have "inserted c d p h par (Some a) h'" using Nd.prems(2,3) by simp
    from tree_at_branch [OF Nd.prems(1) this Nd.prems(4-7)] 1 show ?thesis
      by (simp add: rootp_branch)
  next
    case 2
    show ?thesis
    proof (cases "?P ! length ?Q")
      case True
      then have st: "tstop p r (Some a) = Stop m n" using 2 Nd.prems(2) by simp
      have IH: "tree_at h' (Some a) (rootp (tget c d p r)) (tget c d p r)"
        by (rule Nd.IH(2) [OF k(6) st Nd.prems(3)]) (use Nd.prems(4-6) in auto)
      note step = inserted_step [OF Nd.prems(3) st k(1), where x = True and u = l]
      have fr: "a \<noteq> c" "a \<noteq> d" "a \<notin> set (addrs r)" "c \<notin> set (addrs l)" "d \<notin> set (addrs l)"
        "a \<notin> set (addrs l)" "set (addrs r) \<inter> set (addrs l) = {}"
        using Nd.prems(4-6) by auto
      have "rootp r = (if True then l_right k else l_left k)"
        "True = prefix_bits p ! length (prefix_bits (rp k))" using roots True k(2) by simp_all
      note step' = step [OF this fr]
      have "h' a = Some (k\<lparr>l_right := rootp (tget c d p r)\<rparr>)" using step'(1) by simp
      moreover have "\<forall>y \<in> set (addrs l). h' y = h y" using step'(2) by blast
      ultimately show ?thesis using 2 True IH k tree_at_frame [OF k(5)] by simp
    next
      case False
      then have st: "tstop p l (Some a) = Stop m n" using 2 Nd.prems(2) by simp
      have IH: "tree_at h' (Some a) (rootp (tget c d p l)) (tget c d p l)"
        by (rule Nd.IH(1) [OF k(5) st Nd.prems(3)]) (use Nd.prems(4-6) in auto)
      note step = inserted_step [OF Nd.prems(3) st k(1), where x = False and u = r]
      have fr: "a \<noteq> c" "a \<noteq> d" "a \<notin> set (addrs l)" "c \<notin> set (addrs r)" "d \<notin> set (addrs r)"
        "a \<notin> set (addrs r)" "set (addrs l) \<inter> set (addrs r) = {}"
        using Nd.prems(4-6) by auto
      have "rootp l = (if False then l_right k else l_left k)"
        "False = prefix_bits p ! length (prefix_bits (rp k))" using roots False k(2) by simp_all
      note step' = step [OF this fr]
      have "h' a = Some (k\<lparr>l_left := rootp (tget c d p l)\<rparr>)" using step'(1) by simp
      moreover have "\<forall>y \<in> set (addrs r). h' y = h y" using step'(2) by blast
      ultimately show ?thesis using 2 False IH k tree_at_frame [OF k(6)] by simp
    qed
  qed
qed

subsection \<open>The code of \<open>route_node_get\<close>\<close>

lemma preorder_addrs: "(a, q, i) \<in> set (preorder t) \<Longrightarrow> a \<in> set (addrs t)"
  by (force simp: addrs_def)

text \<open>Where the walk stops: the last matching node, and below it a node that does not match.\<close>

definition stop_at :: "prefix \<Rightarrow> rtree \<Rightarrow> raddr \<Rightarrow> prefix \<Rightarrow> bool" where
  "stop_at p t a q \<longleftrightarrow> (\<exists>i. (a, q, i) \<in> set (preorder t)) \<and>
     Sublist.prefix (prefix_bits q) (prefix_bits p) \<and> length (prefix_bits q) < length (prefix_bits p)"

lemma tstop_match:
  "tstop p t m = Stop m' n' \<Longrightarrow> m' \<noteq> m \<Longrightarrow> \<exists>a q. m' = Some a \<and> stop_at p t a q"
proof (induction t arbitrary: m)
  case (Nd l a q i r)
  then have pq: "Sublist.prefix (prefix_bits q) (prefix_bits p)"
    "length (prefix_bits q) \<noteq> length (prefix_bits p)" by (auto split: if_splits)
  then have here: "stop_at p (Nd l a q i r) a q"
    using prefix_len_less by (auto simp: stop_at_def simp del: length_prefix_bits)
  have sub: "stop_at p (Nd l a q i r) b q'" if "stop_at p l b q' \<or> stop_at p r b q'" for b q'
    using that by (auto simp: stop_at_def)
  show ?case
  proof (cases "m' = Some a")
    case True
    then show ?thesis using here by blast
  next
    case False
    have "tstop p r (Some a) = Stop m' n' \<or> tstop p l (Some a) = Stop m' n'"
      using Nd.prems(1) pq by (auto simp del: length_prefix_bits split: if_splits)
    then show ?thesis using Nd.IH(1) [of "Some a"] Nd.IH(2) [of "Some a"] False sub by blast
  qed
qed simp

lemma tstop_node:
  "tstop p t m = Stop m' (Some b) \<Longrightarrow> trie_ok f t \<Longrightarrow> distinct (addrs t) \<Longrightarrow>
   \<exists>q j. (b, q, j) \<in> set (preorder t) \<and> \<not> Sublist.prefix (prefix_bits q) (prefix_bits p) \<and>
     (m' = m \<or> (\<exists>a qa. m' = Some a \<and> a \<noteq> b \<and> stop_at p t a qa \<and>
        Sublist.prefix (prefix_bits qa @ [prefix_bits p ! length (prefix_bits qa)]) (prefix_bits q)))"
proof (induction t arbitrary: m)
  case (Nd l a q i r)
  let ?Q = "prefix_bits q" and ?P = "prefix_bits p" and ?t = "Nd l a q i r"
  show ?case
  proof (cases "Sublist.prefix ?Q ?P")
    case False
    then show ?thesis using Nd.prems(1) by (intro exI [of _ q] exI [of _ i]) auto
  next
    case True
    then have ne: "length ?Q \<noteq> length ?P" using Nd.prems(1) by (auto split: if_splits)
    have here: "stop_at p ?t a q"
      using True ne prefix_len_less by (auto simp: stop_at_def simp del: length_prefix_bits)
    define s where "s = (if ?P ! length ?Q then r else l)"
    have st: "tstop p s (Some a) = Stop m' (Some b)"
      using Nd.prems(1) True ne by (auto simp: s_def simp del: length_prefix_bits)
    have "below (?Q @ [?P ! length ?Q]) s" using Nd.prems(2) by (simp add: s_def del: length_prefix_bits)
    have "a \<notin> set (addrs s)" using Nd.prems(3) by (simp add: s_def)
    obtain q' j where b: "(b, q', j) \<in> set (preorder s)" "\<not> Sublist.prefix (prefix_bits q') ?P"
      "m' = Some a \<or> (\<exists>a' qa. m' = Some a' \<and> a' \<noteq> b \<and> stop_at p s a' qa \<and>
        Sublist.prefix (prefix_bits qa @ [?P ! length (prefix_bits qa)]) (prefix_bits q'))"
      using Nd.IH(1) [of "Some a"] Nd.IH(2) [of "Some a"] st Nd.prems(2,3)
      by (cases "?P ! length ?Q") (auto simp: s_def simp del: length_prefix_bits)
    have sub: "stop_at p s x y \<Longrightarrow> stop_at p ?t x y" for x y by (auto simp: stop_at_def s_def split: if_splits)
    have "a \<noteq> b" using b(1) \<open>a \<notin> set (addrs s)\<close> preorder_addrs by blast
    moreover have "Sublist.prefix (?Q @ [?P ! length ?Q]) (prefix_bits q')"
      using belowD [OF \<open>below (?Q @ [?P ! length ?Q]) s\<close> b(1)] .
    moreover have "(b, q', j) \<in> set (preorder ?t)" using b(1) by (auto simp: s_def split: if_splits)
    ultimately show ?thesis using b(2,3) here sub by blast
  qed
qed simp

lemma tstop_tres:
  "tstop p t m = Stop m' n' \<Longrightarrow>
   (case n' of None \<Rightarrow> tres c d p t = c
    | Some b \<Rightarrow> \<exists>q j. (b, q, j) \<in> set (preorder t) \<and> tres c d p t = (if same_len q p then c else d))"
proof (induction t arbitrary: m)
  case (Nd l a q i r)
  show ?case
  proof (cases "Sublist.prefix (prefix_bits q) (prefix_bits p)")
    case False
    then have "n' = Some a" using Nd.prems by simp
    moreover have "(a, q, i) \<in> set (preorder (Nd l a q i r))" by simp
    moreover have "tres c d p (Nd l a q i r) = (if same_len q p then c else d)" using False by simp
    ultimately show ?thesis unfolding \<open>n' = Some a\<close> option.case by blast
  next
    case True
    define s where "s = (if prefix_bits p ! length (prefix_bits q) then r else l)"
    have st: "tstop p s (Some a) = Stop m' n'" "tres c d p (Nd l a q i r) = tres c d p s"
      using Nd.prems True by (auto simp: s_def split: if_splits)
    have "case n' of None \<Rightarrow> tres c d p s = c
      | Some b \<Rightarrow> \<exists>q j. (b, q, j) \<in> set (preorder s) \<and> tres c d p s = (if same_len q p then c else d)"
      using Nd.IH [of "Some a"] st(1) by (cases "prefix_bits p ! length (prefix_bits q)")
        (simp_all only: s_def if_True if_False)
    moreover have "set (preorder s) \<subseteq> set (preorder (Nd l a q i r))" by (auto simp: s_def)
    ultimately show ?thesis unfolding st(2) by (cases n') (simp_all only: option.case, blast)
  qed
qed simp

lemma set_link_spec:
  assumes "h a = Some n" "h b = Some m" "a \<noteq> b" "prefix_ok (rp n)" "prefix_ok (rp m)"
    "length (prefix_bits (rp n)) < length (prefix_bits (rp m))"
  shows "set_link h a b = Inr (h(
     a \<mapsto> (if prefix_bits (rp m) ! length (prefix_bits (rp n)) then n\<lparr>l_right := Some b\<rparr> else n\<lparr>l_left := Some b\<rparr>),
     b \<mapsto> m\<lparr>parent := Some a\<rparr>))"
  using assms by (simp add: set_link_def rnode_def prefix_bit_of_prefix Let_def)

lemma route_node_set_spec: "prefix_ok p \<Longrightarrow> route_node_set p = Inr (leaf_node p None)"
  by (simp add: route_node_set_def route_node_new_def leaf_node_def prefix_copy_new)

lemma leaf_node_simps [simp]:
  "rp (leaf_node p par) = pcopy p" "(leaf_node p par)\<lparr>parent := par'\<rparr> = leaf_node p par'"
  by (simp_all add: leaf_node_def)

lemma insert_leaf:
  assumes ok: "table_ok f T t" "prefix_ok p" and st: "tstop p t None = Stop m None"
    and fresh: "rmem T c = None" "rmem T d = None" "c \<noteq> d"
  shows "\<exists>h'. get_insert c d T p (Stop m None) =
      Inr (c, \<lparr>top = if m = None then Some c else top T, rmem = h'\<rparr>) \<and>
    inserted c d p (rmem T) m None h'"
proof (cases m)
  case None
  then show ?thesis using ok(2) fresh
    by (cases T) (simp add: get_insert_def route_node_set_spec attach_def inserted_def)
next
  case (Some a)
  then obtain q i where a: "(a, q, i) \<in> set (preorder t)"
    "length (prefix_bits q) < length (prefix_bits p)"
    using tstop_match [OF st] by (auto simp: stop_at_def)
  then obtain k where k: "rmem T a = Some k" "rp k = q"
    using ok(1) tree_at_node unfolding table_ok_def by blast
  let ?h = "(rmem T)(c \<mapsto> leaf_node p None)"
  have "a \<noteq> c" using k fresh by auto
  moreover have "prefix_ok q" using ok(1) a(1) trie_okD unfolding table_ok_def by blast
  ultimately have "set_link ?h a c = Inr (?h(a \<mapsto> relinked p c k, c \<mapsto> leaf_node p (Some a)))"
    using set_link_spec [of ?h a k c "leaf_node p None"] k a(2) prefix_copy_new [OF ok(2)]
    by (simp add: relinked_def del: length_prefix_bits)
  then show ?thesis using Some ok(2) fresh k \<open>a \<noteq> c\<close>
    by (cases T) (simp add: get_insert_def route_node_set_spec attach_def inserted_def)
qed

text \<open>A node that splits an edge: the three link updates of the code.\<close>

lemma set_link_common:
  assumes ok: "prefix_ok (rp nb)" "prefix_ok p" "\<not> Sublist.prefix (prefix_bits (rp nb)) (prefix_bits p)"
    and h: "h b = Some nb" "b \<noteq> c"
  defines "q \<equiv> common_of (rp nb) p"
  defines "k \<equiv> route_node_new\<lparr>rp := q\<rparr>"
  defines "right \<equiv> prefix_bits (rp nb) ! length (prefix_bits q)"
  shows "set_link (h(c \<mapsto> k)) c b = Inr (h(
     c \<mapsto> (if right then k\<lparr>l_right := Some b\<rparr> else k\<lparr>l_left := Some b\<rparr>), b \<mapsto> nb\<lparr>parent := Some c\<rparr>))"
proof -
  note C = common_of_spec [OF ok]
  show ?thesis using set_link_spec [of "h(c \<mapsto> k)" c k b nb] C(1,4) ok(1) h
    by (auto simp: k_def q_def right_def fun_upd_twist simp del: length_prefix_bits)
qed

lemma set_link_new_leaf:
  assumes "prefix_ok p" "prefix_ok (rp k)" "length (prefix_bits (rp k)) < length (prefix_bits p)"
    "h c = Some k" "c \<noteq> d"
  shows "set_link (h(d \<mapsto> leaf_node p None)) c d = Inr (h(
     c \<mapsto> (if prefix_bits p ! length (prefix_bits (rp k)) then k\<lparr>l_right := Some d\<rparr>
           else k\<lparr>l_left := Some d\<rparr>), d \<mapsto> leaf_node p (Some c)))"
  using set_link_spec [of "h(d \<mapsto> leaf_node p None)" c k d "leaf_node p None"] assms prefix_copy_new [OF assms(1)]
  by (auto simp: fun_upd_twist simp del: length_prefix_bits)

lemma attach_common:
  assumes ok: "prefix_ok q" "prefix_ok (rp a')" and len: "Sublist.prefix (prefix_bits (rp a') @ [x]) (prefix_bits q)"
    and h: "h a = Some a'" "h c = Some k" "rp k = q" "a \<noteq> c"
  shows "attach \<lparr>top = tp, rmem = h\<rparr> (Some a) c = Inr \<lparr>top = tp, rmem = h(
     a \<mapsto> (if x then a'\<lparr>l_right := Some c\<rparr> else a'\<lparr>l_left := Some c\<rparr>), c \<mapsto> k\<lparr>parent := Some a\<rparr>)\<rparr>"
proof -
  have "length (prefix_bits (rp a')) < length (prefix_bits q)"
    "prefix_bits q ! length (prefix_bits (rp a')) = x"
    using len by (auto simp: prefix_def nth_append)
  then show ?thesis using set_link_spec [of h a a' c k] ok h
    by (simp add: attach_def del: length_prefix_bits)
qed

text \<open>The node \<open>c\<close> before and after it got its second child.\<close>

definition half_node :: "prefix \<Rightarrow> prefix \<Rightarrow> raddr \<Rightarrow> route_node" where
  "half_node p q b = (let k = route_node_new\<lparr>rp := common_of q p\<rparr>
     in if prefix_bits q ! length (prefix_bits (common_of q p))
        then k\<lparr>l_right := Some b\<rparr> else k\<lparr>l_left := Some b\<rparr>)"

lemma half_node_simps [simp]: "rp (half_node p q b) = common_of q p" "parent (half_node p q b) = None"
  by (simp_all add: half_node_def Let_def route_node_new_def)

lemma half_node_same: "same_len q p \<Longrightarrow> (half_node p q b)\<lparr>parent := m\<rparr> = branch_node d p q b m"
  by (simp add: half_node_def branch_node_def Let_def route_node_new_def)

lemma half_node_full:
  "\<not> same_len q p \<Longrightarrow> x = (\<not> prefix_bits q ! length (prefix_bits (common_of q p))) \<Longrightarrow>
   (if x then (half_node p q b)\<lparr>parent := m, l_right := Some d\<rparr>
    else (half_node p q b)\<lparr>parent := m, l_left := Some d\<rparr>) = branch_node d p q b m"
  by (simp add: half_node_def branch_node_def Let_def route_node_new_def)

lemma attach_branch:
  assumes tr: "tree_at (rmem T) None (top T) t" "trie_ok f t" and p: "prefix_ok p"
    and q: "prefix_ok q" "\<not> Sublist.prefix (prefix_bits q) (prefix_bits p)"
    and m: "m = None \<or> (\<exists>a qa. m = Some a \<and> a \<noteq> b \<and> stop_at p t a qa \<and>
        Sublist.prefix (prefix_bits qa @ [prefix_bits p ! length (prefix_bits qa)]) (prefix_bits q))"
    and fresh: "rmem T c = None" "rmem T d = None" "b \<noteq> c" "b \<noteq> d"
    and h1_def: "h1 = (rmem T)(c \<mapsto> half_node p q b, b \<mapsto> nb)"
  obtains h2 where "attach (T\<lparr>rmem := h1\<rparr>) m c = Inr \<lparr>top = if m = None then Some c else top T, rmem = h2\<rparr>"
    "h2 c = Some ((half_node p q b)\<lparr>parent := m\<rparr>)" "h2 b = Some nb"
    "\<forall>a. m = Some a \<longrightarrow> a \<noteq> d \<and> a \<noteq> c \<and> a \<noteq> b \<and> h2 a = map_option (relinked p c) (rmem T a)"
    "\<forall>x. x \<noteq> c \<and> x \<noteq> b \<and> m \<noteq> Some x \<longrightarrow> h2 x = rmem T x"
proof (cases m)
  have tp: "T\<lparr>rmem := h1\<rparr> = \<lparr>top = top T, rmem = h1\<rparr>" by (cases T) simp
  {
    case None
    then have "attach (T\<lparr>rmem := h1\<rparr>) m c = Inr \<lparr>top = if m = None then Some c else top T, rmem = h1\<rparr>"
      unfolding tp by (simp add: attach_def)
    from that [OF this] None fresh show thesis by (simp add: h1_def)
  next
    case (Some a)
    then obtain qa i where a: "a \<noteq> b" "(a, qa, i) \<in> set (preorder t)" "Sublist.prefix (prefix_bits qa) (prefix_bits p)"
      "length (prefix_bits qa) < length (prefix_bits p)"
      "Sublist.prefix (prefix_bits qa @ [prefix_bits p ! length (prefix_bits qa)]) (prefix_bits q)"
      using m by (auto simp: stop_at_def)
    obtain ka where ka: "rmem T a = Some ka" "rp ka = qa" using tree_at_node [OF tr(1) a(2)] by auto
    have ac: "a \<noteq> c" "a \<noteq> d" using ka fresh by auto
    have "Sublist.prefix (prefix_bits qa @ [prefix_bits p ! length (prefix_bits qa)]) (prefix_bits (common_of q p))"
      using common_above [OF q(1) p q(2) a(5)] prefix_snoc_nth [OF a(3,4)] by blast
    moreover have "prefix_ok qa" using trie_okD [OF tr(2) a(2)] by simp
    ultimately have "attach \<lparr>top = top T, rmem = h1\<rparr> (Some a) c = Inr \<lparr>top = top T,
        rmem = h1(a \<mapsto> relinked p c ka, c \<mapsto> (half_node p q b)\<lparr>parent := Some a\<rparr>)\<rparr>"
      using attach_common [of "common_of q p" ka _ h1 a c "half_node p q b" "top T"]
        common_of_spec(1) [OF q(1) p q(2)] ka a(1) ac fresh
      by (simp add: relinked_def h1_def del: length_prefix_bits)
    then have "attach (T\<lparr>rmem := h1\<rparr>) m c = Inr \<lparr>top = if m = None then Some c else top T,
        rmem = h1(a \<mapsto> relinked p c ka, c \<mapsto> (half_node p q b)\<lparr>parent := Some a\<rparr>)\<rparr>" unfolding tp Some by simp
    from that [OF this] Some ka ac fresh a(1) show thesis by (simp add: h1_def)
  }
qed

lemma insert_branch:
  assumes ok: "table_ok f T t" "prefix_ok p" and st: "tstop p t None = Stop m (Some b)"
    and fresh: "rmem T c = None" "rmem T d = None" "c \<noteq> d"
  shows "\<exists>h'. get_insert c d T p (Stop m (Some b)) =
      Inr (tres c d p t, \<lparr>top = if m = None then Some c else top T, rmem = h'\<rparr>) \<and>
    inserted c d p (rmem T) m (Some b) h'"
proof -
  let ?h = "rmem T"
  have tr: "tree_at ?h None (top T) t" "trie_ok f t" "distinct (addrs t)"
    using ok(1) by (simp_all add: table_ok_def)
  obtain q j where b: "(b, q, j) \<in> set (preorder t)" "\<not> Sublist.prefix (prefix_bits q) (prefix_bits p)"
    and m: "m = None \<or> (\<exists>a qa. m = Some a \<and> a \<noteq> b \<and> stop_at p t a qa \<and>
        Sublist.prefix (prefix_bits qa @ [prefix_bits p ! length (prefix_bits qa)]) (prefix_bits q))"
    using tstop_node [OF st tr(2,3)] by blast
  obtain nb where nb: "?h b = Some nb" "rp nb = q" using tree_at_node [OF tr(1) b(1)] by auto
  have okq: "prefix_ok q" using trie_okD [OF tr(2) b(1)] by simp
  have bc: "b \<noteq> c" "b \<noteq> d" using nb fresh by auto
  note C = common_of_spec [OF okq ok(2) b(2)]
  let ?k = "common_of q p" and ?h1 = "?h(c \<mapsto> half_node p q b, b \<mapsto> nb\<lparr>parent := Some c\<rparr>)"
  have s1: "set_link (?h(c \<mapsto> route_node_new\<lparr>rp := ?k\<rparr>)) c b = Inr ?h1"
    using set_link_common [of nb p ?h b c] okq ok(2) b(2) nb bc by (simp add: half_node_def Let_def)
  obtain h2 where h2: "attach (T\<lparr>rmem := ?h1\<rparr>) m c = Inr \<lparr>top = if m = None then Some c else top T, rmem = h2\<rparr>"
    "h2 c = Some ((half_node p q b)\<lparr>parent := m\<rparr>)" "h2 b = Some (nb\<lparr>parent := Some c\<rparr>)"
    "\<forall>a. m = Some a \<longrightarrow> a \<noteq> d \<and> a \<noteq> c \<and> a \<noteq> b \<and> h2 a = map_option (relinked p c) (?h a)"
    "\<forall>x. x \<noteq> c \<and> x \<noteq> b \<and> m \<noteq> Some x \<longrightarrow> h2 x = ?h x"
    using attach_branch [OF tr(1,2) ok(2) okq b(2) m fresh(1,2) bc refl] by blast
  have res: "tres c d p t = (if same_len q p then c else d)"
  proof -
    obtain q' j' where b': "(b, q', j') \<in> set (preorder t)"
      and r: "tres c d p t = (if same_len q' p then c else d)"
      using tstop_tres [OF st, of c d] unfolding option.case by blast
    have "q' = q" using tree_at_node [OF tr(1) b'] nb by auto
    then show ?thesis using r by simp
  qed
  have sl: "prefixlen ?k = prefixlen p \<longleftrightarrow> same_len q p"
    using prefixlen_eq_iff [OF C(1) ok(2)] by (simp only: same_len_def)
  have ins: "get_insert c d T p (Stop m (Some b)) =
      (if same_len q p then Inr (c, \<lparr>top = if m = None then Some c else top T, rmem = h2\<rparr>)
       else rbind (set_link (h2(d \<mapsto> leaf_node p None)) c d)
         (\<lambda>h'. Inr (d, \<lparr>top = if m = None then Some c else top T, rmem = h'\<rparr>)))"
    using nb s1 h2(1) sl unfolding common_of_def
    by (simp add: get_insert_def rnode_def route_node_set_spec [OF ok(2)] Let_def)
  show ?thesis
  proof (cases "same_len q p")
    case True
    then show ?thesis unfolding ins res using h2 nb half_node_same [OF True, where b = b and m = m and d = d]
      by (auto simp: inserted_def split: option.split)
  next
    case False
    then have lt: "length (prefix_bits ?k) < length (prefix_bits p)"
      using prefix_length_le [OF C(2)] by (simp add: same_len_def)
    let ?h3 = "h2(c \<mapsto> branch_node d p q b m, d \<mapsto> leaf_node p (Some c))"
    have "set_link (h2(d \<mapsto> leaf_node p None)) c d = Inr ?h3"
      using set_link_new_leaf [OF ok(2), of "(half_node p q b)\<lparr>parent := m\<rparr>" h2 c d] C(1) lt h2(2) fresh(3)
        half_node_full [OF False, where x = "prefix_bits p ! length (prefix_bits ?k)" and b = b and m = m and d = d] C(5) [OF lt]
      by (simp del: length_prefix_bits)
    then show ?thesis unfolding ins res using False h2 nb fresh bc
      by (auto simp: inserted_def split: option.split)
  qed
qed

lemma table_ok_fresh: "table_ok f T t \<Longrightarrow> rmem T c = None \<Longrightarrow> c \<notin> set (addrs t)"
  unfolding table_ok_def using tree_at_alloc by blast

lemma get_insert_spec:
  assumes ok: "table_ok f T t" "prefix_ok p" "family p = f"
    and fresh: "rmem T c = None" "rmem T d = None" "c \<noteq> d"
  shows "\<exists>T'. get_insert c d T p (tstop p t None) = Inr (tres c d p t, T') \<and> table_ok f T' (tget c d p t)"
proof (cases "tstop p t None")
  case (Got a)
  then show ?thesis using tstop_Got [OF Got] ok(1) by (auto simp: get_insert_def)
next
  case (Stop m n)
  obtain h' where h': "get_insert c d T p (Stop m n) =
      Inr (tres c d p t, \<lparr>top = if m = None then Some c else top T, rmem = h'\<rparr>)" "inserted c d p (rmem T) m n h'"
    using insert_leaf [OF ok(1,2) _ fresh, of m] insert_branch [OF ok(1,2) _ fresh, of m] Stop
      tstop_tres [OF Stop, of c d] by (cases n) auto
  have tr: "tree_at (rmem T) None (top T) t" "trie_ok f t" "distinct (addrs t)"
    using ok(1) by (simp_all add: table_ok_def)
  note fr = table_ok_fresh [OF ok(1) fresh(1)] table_ok_fresh [OF ok(1) fresh(2)]
  have "rootp (tget c d p t) = (if m = None then Some c else top T)"
    using tstop_root [OF Stop, of c d] tree_at_rootp [OF tr(1)] by simp
  then have "tree_at h' None (if m = None then Some c else top T) (tget c d p t)"
    using tree_at_tget [OF tr(1) Stop h'(2) tr(3) fr] by simp
  then have "table_ok f \<lparr>top = if m = None then Some c else top T, rmem = h'\<rparr> (tget c d p t)"
    using trie_tget [OF tr(2) ok(2,3)] distinct_tget [OF tr(3) fresh(3) fr] by (simp add: table_ok_def)
  then show ?thesis using h'(1) Stop by auto
qed

lemma route_node_get_spec:
  assumes ok: "table_ok f T t" "prefix_ok p" "family p = f"
    and fresh: "rmem T c = None" "rmem T d = None" "c \<noteq> d"
  shows "\<exists>T'. route_node_get c d T p = Some (Inr (tres c d p t, T')) \<and> table_ok f T' (tget c d p t)"
proof -
  obtain T1 where T1: "get_insert c d T p (tstop p t None) = Inr (tres c d p t, T1)"
    "table_ok f T1 (tget c d p t)" using get_insert_spec [OF assms] by blast
  have "trie_ok f t" using ok(1) by (simp add: table_ok_def)
  from tres_tget [OF this ok(2)] obtain q i where
    "(tres c d p t, q, i) \<in> set (preorder (tget c d p t))" by blast
  with T1(2) obtain n where n: "rmem T1 (tres c d p t) = Some n" using table_ok_node by blast
  moreover have "get_loop (rmem T) p (top T) None = Some (Inr (tstop p t None))"
    using get_loop_tree ok by (auto simp: table_ok_def)
  ultimately show ?thesis using T1 table_ok_lock [OF T1(2) n]
    by (simp add: route_node_get_def route_lock_spec)
qed

subsection \<open>Setting the information of a node\<close>

fun tset :: "raddr \<Rightarrow> nat option \<Rightarrow> rtree \<Rightarrow> rtree" where
  "tset a v Tip = Tip"
| "tset a v (Nd l b p i r) = Nd (tset a v l) b p (if b = a then v else i) (tset a v r)"

lemma preorder_tset:
  "preorder (tset a v t) = map (\<lambda>(b, q, i). (b, q, if b = a then v else i)) (preorder t)"
  by (induction t) auto

lemma addrs_tset [simp]: "addrs (tset a v t) = addrs t"
  by (induction t) auto

lemma below_tset [simp]: "below b (tset a v t) = below b t"
  by (induction t) auto

lemma trie_tset [simp]: "trie_ok f (tset a v t) = trie_ok f t"
  by (induction t) auto

lemma tree_at_tset:
  "tree_at h par ptr t \<Longrightarrow> h a = Some n \<Longrightarrow> tree_at (h(a \<mapsto> n\<lparr>info := v\<rparr>)) par ptr (tset a v t)"
  by (induction t arbitrary: par ptr) (auto split: option.splits)

lemma table_ok_tset:
  "table_ok f T t \<Longrightarrow> rmem T a = Some n \<Longrightarrow>
   table_ok f (T\<lparr>rmem := (rmem T)(a \<mapsto> n\<lparr>info := v\<rparr>)\<rparr>) (tset a v t)"
  by (simp add: table_ok_def tree_at_tset)

end
