(* ===== verification/Route_Delete.thy ===== *)
theory Route_Delete
  imports Route_Insert
begin

text \<open>
  Deletion of nodes (\<open>route_node_delete\<close>, \<open>route_unlock_node\<close>) and iteration
  (\<open>route_next\<close>) over the route table of \<open>lib/table.c\<close>: a deleted node is replaced by its
  only child, the recursion to the parent ends, and iteration visits the nodes in preorder.
\<close>

section \<open>Deletion\<close>

fun tdel :: "raddr \<Rightarrow> rtree \<Rightarrow> rtree" where
  "tdel a Tip = Tip"
| "tdel a (Nd l b p i r) =
     (if b = a then (if l = Tip then r else l) else Nd (tdel a l) b p i (tdel a r))"

text \<open>The store after one activation of \<open>route_node_delete\<close> on \<open>a\<close>.\<close>

definition removed ::
    "raddr \<Rightarrow> raddr option \<Rightarrow> raddr option \<Rightarrow> rheap \<Rightarrow> rheap \<Rightarrow> bool" where
  "removed a par child h h' \<longleftrightarrow> h' a = None \<and>
     (\<forall>c. child = Some c \<longrightarrow> h' c = map_option (\<lambda>m. m\<lparr>parent := par\<rparr>) (h c)) \<and>
     (\<forall>q. par = Some q \<longrightarrow> h' q = map_option (\<lambda>m. if l_left m = Some a then m\<lparr>l_left := child\<rparr>
        else m\<lparr>l_right := child\<rparr>) (h q)) \<and>
     (\<forall>x. x \<noteq> a \<and> child \<noteq> Some x \<and> par \<noteq> Some x \<longrightarrow> h' x = h x)"

lemma rootp_None [simp]: "rootp t = None \<longleftrightarrow> t = Tip" "None = rootp t \<longleftrightarrow> t = Tip"
  by (cases t; simp)+

lemma rootp_in: "rootp t = Some a \<Longrightarrow> a \<in> set (addrs t)"
  by (cases t) auto

lemma tree_at_reparent:
  assumes "tree_at h par ptr t" "distinct (addrs t)"
    "\<forall>c. ptr = Some c \<longrightarrow> h' c = map_option (\<lambda>m. m\<lparr>parent := par'\<rparr>) (h c)"
    "\<forall>x \<in> set (addrs t). ptr \<noteq> Some x \<longrightarrow> h' x = h x"
  shows "tree_at h' par' ptr t"
proof (cases t)
  case Tip
  then show ?thesis using assms(1) by simp
next
  case (Nd l a p i r)
  then obtain n where n: "ptr = Some a" "h a = Some n" "rp n = p" "info n = i"
    "tree_at h (Some a) (l_left n) l" "tree_at h (Some a) (l_right n) r"
    using assms(1) by (auto split: option.splits)
  have "\<forall>x \<in> set (addrs l). h' x = h x" "\<forall>x \<in> set (addrs r). h' x = h x"
    using assms(2,4) Nd n(1) by auto
  then have "tree_at h' (Some a) (l_left n) l" "tree_at h' (Some a) (l_right n) r"
    using n(5,6) tree_at_frame by blast+
  then show ?thesis using Nd n assms(3) by simp
qed

lemma tdel_id: "a \<notin> set (addrs t) \<Longrightarrow> tdel a t = t"
  by (induction t) auto

text \<open>The node \<open>a\<close> has at most one child.\<close>

fun single :: "raddr \<Rightarrow> rtree \<Rightarrow> bool" where
  "single a Tip \<longleftrightarrow> True"
| "single a (Nd l b p i r) \<longleftrightarrow> (b = a \<longrightarrow> l = Tip \<or> r = Tip) \<and> single a l \<and> single a r"

definition only_child :: "route_node \<Rightarrow> raddr option" where
  "only_child n = (if l_left n \<noteq> None then l_left n else l_right n)"

lemma set_preorder_tdel:
  "distinct (addrs t) \<Longrightarrow> single a t \<Longrightarrow> set (preorder (tdel a t)) = {(b, q, i) \<in> set (preorder t). b \<noteq> a}"
proof (induction t)
  case (Nd l b p i r)
  have sub: "x \<in> set (addrs s)" if "(x, q, j) \<in> set (preorder s)" for x q j s
    using that by (rule preorder_addrs)
  show ?case
  proof (cases "b = a")
    case True
    then have "a \<notin> set (addrs l)" "a \<notin> set (addrs r)" using Nd.prems(1) by auto
    then show ?thesis using True Nd.prems(2) sub by (cases "l = Tip") auto
  next
    case False
    then show ?thesis using Nd by auto
  qed
qed simp

lemma addrs_tdel:
  "distinct (addrs t) \<Longrightarrow> single a t \<Longrightarrow> distinct (addrs (tdel a t)) \<and> set (addrs (tdel a t)) = set (addrs t) - {a}"
proof (induction t)
  case (Nd l b p i r)
  then show ?case by (cases "b = a"; cases "l = Tip") auto
qed simp

lemma below_subset: "below b t \<Longrightarrow> set (preorder t') \<subseteq> set (preorder t) \<Longrightarrow> below b t'"
  by (auto simp: below_def)

lemma trie_tdel: "trie_ok f t \<Longrightarrow> distinct (addrs t) \<Longrightarrow> single a t \<Longrightarrow> trie_ok f (tdel a t)"
proof (induction t)
  case (Nd l b p i r)
  have "set (preorder (tdel a l)) \<subseteq> set (preorder l)" "set (preorder (tdel a r)) \<subseteq> set (preorder r)"
    using set_preorder_tdel [of l a] set_preorder_tdel [of r a] Nd.prems by auto
  then show ?case using Nd below_subset by auto
qed simp

lemma single_heap:
  "tree_at h par ptr t \<Longrightarrow> h a = Some n \<Longrightarrow> l_left n = None \<or> l_right n = None \<Longrightarrow> single a t"
proof (induction t arbitrary: par ptr)
  case (Nd l b p i r)
  then obtain k where k: "h b = Some k" "tree_at h (Some b) (l_left k) l" "tree_at h (Some b) (l_right k) r"
    by (auto split: option.splits)
  have "l_left k = rootp l" "l_right k = rootp r" using k tree_at_rootp by blast+
  then show ?case using Nd k by (cases l; cases r) auto
qed simp

lemma node_place:
  "tree_at h pr ptr t \<Longrightarrow> distinct (addrs t) \<Longrightarrow> a \<in> set (addrs t) \<Longrightarrow> h a = Some n \<Longrightarrow>
   \<forall>x \<in> set (addrs t). pr \<noteq> Some x \<Longrightarrow>
   (if rootp t = Some a then parent n = pr else \<exists>b \<in> set (addrs t). b \<noteq> a \<and> parent n = Some b) \<and>
   (\<forall>c. only_child n = Some c \<longrightarrow> c \<noteq> a \<and> c \<in> set (addrs t) \<and> parent n \<noteq> Some c)"
proof (induction t arbitrary: pr ptr)
  case (Nd l b p i r)
  then obtain k where k: "h b = Some k" "parent k = pr"
    "tree_at h (Some b) (l_left k) l" "tree_at h (Some b) (l_right k) r" by (auto split: option.splits)
  have roots: "l_left k = rootp l" "l_right k = rootp r" using k tree_at_rootp by blast+
  consider "a = b" | "a \<noteq> b" "a \<in> set (addrs l)" | "a \<noteq> b" "a \<in> set (addrs r)" using Nd.prems(3) by auto
  then show ?case
  proof cases
    case 1
    then have "n = k" using Nd.prems(4) k(1) by simp
    then show ?thesis using 1 k(2) roots rootp_in Nd.prems(2,5)
      by (auto simp: only_child_def split: if_splits)
  next
    case 2
    have "\<forall>x \<in> set (addrs l). Some b \<noteq> Some x" using Nd.prems(2) by auto
    from Nd.IH(1) [OF k(3) _ 2(2) Nd.prems(4) this] show ?thesis
      using Nd.prems(2) 2 by (auto split: if_splits)
  next
    case 3
    have "\<forall>x \<in> set (addrs r). Some b \<noteq> Some x" using Nd.prems(2) by auto
    from Nd.IH(2) [OF k(4) _ 3(2) Nd.prems(4) this] show ?thesis
      using Nd.prems(2) 3 by (auto split: if_splits)
  qed
qed simp

lemma tdel_root:
  "tree_at h pr ptr t \<Longrightarrow> h a = Some n \<Longrightarrow>
   rootp (tdel a t) = (if rootp t = Some a then only_child n else rootp t)"
  by (cases t) (auto simp: only_child_def dest!: tree_at_rootp split: option.splits)

lemma removed_frame:
  "removed a par child h h' \<Longrightarrow> x \<noteq> a \<Longrightarrow> child \<noteq> Some x \<Longrightarrow> par \<noteq> Some x \<Longrightarrow> h' x = h x"
  by (simp add: removed_def)

text \<open>One step down: \<open>s\<close> is the subtree that holds \<open>a\<close>, \<open>u\<close> the other one.\<close>

lemma removed_step:
  assumes s: "tree_at h (Some b) (rootp s) s" "distinct (addrs s)" "a \<in> set (addrs s)" "h a = Some n"
    and rem: "removed a (parent n) (only_child n) h h'"
    and b: "h b = Some k" "b \<notin> set (addrs s)" "b \<notin> set (addrs u)" "set (addrs s) \<inter> set (addrs u) = {}"
    and side: "if x then l_right k = rootp s \<and> l_left k = rootp u else l_left k = rootp s"
  shows "h' b = Some (if x then k\<lparr>l_right := rootp (tdel a s)\<rparr> else k\<lparr>l_left := rootp (tdel a s)\<rparr>)"
    and "y \<in> set (addrs u) \<Longrightarrow> h' y = h y"
proof -
  have "\<forall>x \<in> set (addrs s). Some b \<noteq> Some x" using b(2) by auto
  note pl = node_place [OF s this]
  note root = tdel_root [OF s(1,4)]
  have c: "only_child n = Some c \<Longrightarrow> c \<in> set (addrs s)" for c using pl by blast
  show "h' b = Some (if x then k\<lparr>l_right := rootp (tdel a s)\<rparr> else k\<lparr>l_left := rootp (tdel a s)\<rparr>)"
  proof (cases "rootp s = Some a")
    case True
    then have "parent n = Some b" using pl by simp
    then have "h' b = Some (if l_left k = Some a then k\<lparr>l_left := only_child n\<rparr> else k\<lparr>l_right := only_child n\<rparr>)"
      using rem b(1) by (simp add: removed_def)
    moreover have "x \<Longrightarrow> l_left k \<noteq> Some a" using side rootp_in [of u a] s(3) b(4) by auto
    ultimately show ?thesis using side True root by (cases x) auto
  next
    case False
    then obtain b' where "b' \<in> set (addrs s)" "parent n = Some b'" using pl by auto
    then have "h' b = h b" using removed_frame [OF rem, of b] b(2) c s(3) by auto
    then show ?thesis using b(1) side False root by (cases x) auto
  qed
  show "h' y = h y" if "y \<in> set (addrs u)"
  proof -
    have "parent n \<noteq> Some y" using pl b(3,4) that by (auto split: if_splits)
    then show ?thesis using removed_frame [OF rem, of y] that b(4) c s(3) by auto
  qed
qed

lemma tree_at_tdel:
  "tree_at h pr ptr t \<Longrightarrow> distinct (addrs t) \<Longrightarrow> a \<in> set (addrs t) \<Longrightarrow> h a = Some n \<Longrightarrow> single a t \<Longrightarrow>
   removed a (parent n) (only_child n) h h' \<Longrightarrow> \<forall>x \<in> set (addrs t). pr \<noteq> Some x \<Longrightarrow>
   tree_at h' pr (rootp (tdel a t)) (tdel a t)"
proof (induction t arbitrary: pr ptr)
  case (Nd l b p i r)
  then obtain k where k: "h b = Some k" "parent k = pr" "rp k = p" "info k = i"
    "tree_at h (Some b) (l_left k) l" "tree_at h (Some b) (l_right k) r" by (auto split: option.splits)
  have roots: "l_left k = rootp l" "l_right k = rootp r" using k tree_at_rootp by blast+
  have dist: "distinct (addrs l)" "distinct (addrs r)" "b \<notin> set (addrs l)" "b \<notin> set (addrs r)"
    "set (addrs l) \<inter> set (addrs r) = {}" "set (addrs r) \<inter> set (addrs l) = {}" using Nd.prems(2) by auto
  consider "a = b" | "a \<noteq> b" "a \<in> set (addrs l)" | "a \<noteq> b" "a \<in> set (addrs r)" using Nd.prems(3) by auto
  then show ?case
  proof cases
    case 1
    let ?s = "if l = Tip then r else l"
    have n: "n = k" using 1 Nd.prems(4) k(1) by simp
    have s: "tree_at h (Some b) (only_child n) ?s" "only_child n = rootp ?s"
      using k roots n by (auto simp: only_child_def)
    have "tree_at h' pr (only_child n) ?s"
    proof (rule tree_at_reparent [OF s(1)])
      show "distinct (addrs ?s)" using dist by simp
      show "\<forall>c. only_child n = Some c \<longrightarrow> h' c = map_option (\<lambda>m. m\<lparr>parent := pr\<rparr>) (h c)"
        using Nd.prems(6) n k(2) by (simp add: removed_def)
      show "\<forall>x \<in> set (addrs ?s). only_child n \<noteq> Some x \<longrightarrow> h' x = h x"
      proof (intro ballI impI)
        fix x assume x: "x \<in> set (addrs ?s)" "only_child n \<noteq> Some x"
        then have "x \<noteq> a" "pr \<noteq> Some x" using dist 1 Nd.prems(7) by (auto split: if_splits)
        then show "h' x = h x" using removed_frame [OF Nd.prems(6), of x] x(2) n k(2) by simp
      qed
    qed
    then show ?thesis using 1 s(2) by simp
  next
    case 2
    have IH: "tree_at h' (Some b) (rootp (tdel a l)) (tdel a l)"
      by (rule Nd.IH(1) [OF k(5) dist(1) 2(2) Nd.prems(4) _ Nd.prems(6)]) (use Nd.prems(5) dist in auto)
    have "if False then l_right k = rootp l \<and> l_left k = rootp r else l_left k = rootp l" using roots by simp
    note st = removed_step [OF _ dist(1) 2(2) Nd.prems(4,6) k(1) dist(3,4,5) this]
    have "h' b = Some (k\<lparr>l_left := rootp (tdel a l)\<rparr>)" "\<forall>y \<in> set (addrs r). h' y = h y"
      using st k(5) roots by simp_all
    moreover have "tdel a r = r" using tdel_id [of a r] 2(2) dist(5) by blast
    ultimately show ?thesis using 2(1) IH k tree_at_frame [OF k(6)] by simp
  next
    case 3
    have IH: "tree_at h' (Some b) (rootp (tdel a r)) (tdel a r)"
      by (rule Nd.IH(2) [OF k(6) dist(2) 3(2) Nd.prems(4) _ Nd.prems(6)]) (use Nd.prems(5) dist in auto)
    have "if True then l_right k = rootp r \<and> l_left k = rootp l else l_left k = rootp r" using roots by simp
    note st = removed_step [OF _ dist(2) 3(2) Nd.prems(4,6) k(1) dist(4,3,6) this]
    have "h' b = Some (k\<lparr>l_right := rootp (tdel a r)\<rparr>)" "\<forall>y \<in> set (addrs l). h' y = h y"
      using st k(6) roots by simp_all
    moreover have "tdel a l = l" using tdel_id [of a l] 3(2) dist(5) by blast
    ultimately show ?thesis using 3(1) IH k tree_at_frame [OF k(5)] by simp
  qed
qed simp

subsection \<open>The code of \<open>route_node_delete\<close>\<close>

lemma set_parent_spec:
  "\<forall>c. child = Some c \<longrightarrow> h c \<noteq> None \<Longrightarrow> \<exists>h1. set_parent h child par = Inr h1 \<and>
     (\<forall>x. h1 x = (if child = Some x then map_option (\<lambda>m. m\<lparr>parent := par\<rparr>) (h x) else h x))"
  by (cases child) (auto simp: set_parent_def rnode_def)

lemma unlink_spec:
  "\<forall>q. par = Some q \<longrightarrow> rmem T q \<noteq> None \<Longrightarrow> \<exists>h2. unlink T par a child =
     Inr \<lparr>top = (if par = None then child else top T), rmem = h2\<rparr> \<and>
     (\<forall>x. h2 x = (if par = Some x then map_option (\<lambda>m. if l_left m = Some a then m\<lparr>l_left := child\<rparr>
        else m\<lparr>l_right := child\<rparr>) (rmem T x) else rmem T x))"
proof (cases par)
  case None
  then show ?thesis by (cases T) (simp add: unlink_def)
next
  case (Some q)
  assume "\<forall>q. par = Some q \<longrightarrow> rmem T q \<noteq> None"
  then obtain m where m: "rmem T q = Some m" using Some by auto
  let ?m = "if l_left m = Some a then m\<lparr>l_left := child\<rparr> else m\<lparr>l_right := child\<rparr>"
  have "unlink T par a child = Inr \<lparr>top = top T, rmem = (rmem T)(q \<mapsto> ?m)\<rparr>"
    using m Some by (cases T) (simp add: unlink_def rnode_def)
  then show ?thesis using m Some by auto
qed

lemma delete_step_unfold:
  assumes "rmem T a = Some n" "lock n = 0" "info n = None" "l_left n = None \<or> l_right n = None"
    "set_parent (rmem T) (only_child n) (parent n) = Inr h1"
    "unlink (T\<lparr>rmem := h1\<rparr>) (parent n) a (only_child n) = Inr \<lparr>top = tp, rmem = h2\<rparr>"
  shows "delete_step T a = (case parent n of None \<Rightarrow> Inr (\<lparr>top = tp, rmem = h2(a := None)\<rparr>, None)
    | Some q \<Rightarrow> rbind (rnode (h2(a := None)) q) (\<lambda>m.
        Inr (\<lparr>top = tp, rmem = h2(a := None)\<rparr>, if lock m = 0 then Some q else None)))"
proof -
  have "rnode (rmem T) a = Inr n" using assms(1) by (simp add: rnode_def)
  then show ?thesis using assms(2-6) unfolding delete_step_def
    by (cases "parent n"; cases "l_left n"; cases "l_right n") (simp_all add: Let_def only_child_def del: fun_upd_apply)
qed

lemma delete_step_spec:
  assumes ok: "table_ok f T t" "a \<in> set (addrs t)"
    and n: "rmem T a = Some n" "lock n = 0" "info n = None" "l_left n = None \<or> l_right n = None"
  shows "\<exists>T' nxt. delete_step T a = Inr (T', nxt) \<and> table_ok f T' (tdel a t) \<and>
    removed a (parent n) (only_child n) (rmem T) (rmem T') \<and>
    (\<forall>q. nxt = Some q \<longrightarrow> q \<in> set (addrs (tdel a t)) \<and> (\<exists>m. rmem T' q = Some m \<and> lock m = 0))"
proof -
  let ?h = "rmem T" and ?c = "only_child n" and ?p = "parent n"
  have tr: "tree_at ?h None (top T) t" "trie_ok f t" "distinct (addrs t)"
    using ok(1) by (simp_all add: table_ok_def)
  have pl: "if rootp t = Some a then ?p = None else \<exists>b \<in> set (addrs t). b \<noteq> a \<and> ?p = Some b"
    "\<forall>c. ?c = Some c \<longrightarrow> c \<noteq> a \<and> c \<in> set (addrs t) \<and> ?p \<noteq> Some c"
    using node_place [OF tr(1,3) ok(2) n(1)] by blast+
  have sg: "single a t" using single_heap [OF tr(1) n(1,4)] .
  obtain h1 where h1: "set_parent ?h ?c ?p = Inr h1"
    "\<forall>x. h1 x = (if ?c = Some x then map_option (\<lambda>m. m\<lparr>parent := ?p\<rparr>) (?h x) else ?h x)"
    using set_parent_spec [of ?c ?h ?p] pl(2) tree_at_alloc [OF tr(1)] by blast
  have pin: "\<forall>q. ?p = Some q \<longrightarrow> q \<in> set (addrs t) \<and> q \<noteq> a" using pl(1) by (auto split: if_splits)
  then have "\<forall>q. ?p = Some q \<longrightarrow> h1 q \<noteq> None" using h1(2) tree_at_alloc [OF tr(1)] by auto
  then obtain h2 where h2: "unlink (T\<lparr>rmem := h1\<rparr>) ?p a ?c = Inr \<lparr>top = (if ?p = None then ?c else top T), rmem = h2\<rparr>"
    "\<forall>x. h2 x = (if ?p = Some x then map_option (\<lambda>m. if l_left m = Some a then m\<lparr>l_left := ?c\<rparr>
        else m\<lparr>l_right := ?c\<rparr>) (h1 x) else h1 x)"
    using unlink_spec [of ?p "T\<lparr>rmem := h1\<rparr>" a ?c] by auto
  let ?h3 = "h2(a := None)"
  let ?T = "\<lparr>top = (if ?p = None then ?c else top T), rmem = ?h3\<rparr>"
  have rem: "removed a ?p ?c ?h ?h3" using h1(2) h2(2) pl(2) pin by (auto simp: removed_def)
  have "rootp (tdel a t) = (if ?p = None then ?c else top T)"
    using tdel_root [OF tr(1) n(1)] pl(1) tree_at_rootp [OF tr(1)] by (auto split: if_splits)
  then have "tree_at ?h3 None (if ?p = None then ?c else top T) (tdel a t)"
    using tree_at_tdel [OF tr(1,3) ok(2) n(1) sg rem] by simp
  then have tok: "table_ok f ?T (tdel a t)"
    using trie_tdel [OF tr(2,3) sg] addrs_tdel [OF tr(3) sg] by (simp add: table_ok_def)
  have q: "?p = Some q \<Longrightarrow> q \<in> set (addrs (tdel a t))" for q
    using pin addrs_tdel [OF tr(3) sg] by auto
  show ?thesis
  proof (cases ?p)
    case None
    have "delete_step T a = Inr (?T, None)"
      unfolding delete_step_unfold [OF n h1(1) h2(1)] None by simp
    then show ?thesis using tok rem by auto
  next
    case (Some b)
    then obtain m where m: "?h3 b = Some m"
      using q tree_at_alloc tok unfolding table_ok_def by fastforce
    have "delete_step T a = Inr (?T, if lock m = 0 then Some b else None)"
      unfolding delete_step_unfold [OF n h1(1) h2(1)] Some using m by (simp add: rnode_def)
    then show ?thesis using tok rem q [OF Some] m by fastforce
  qed
qed

text \<open>A node with information is locked: clients lock a node when they attach to it.\<close>

definition info_locked :: "route_table \<Rightarrow> bool" where
  "info_locked T \<longleftrightarrow> (\<forall>b m. rmem T b = Some m \<and> info m \<noteq> None \<longrightarrow> lock m \<noteq> 0)"

lemma removed_info_locked:
  assumes "info_locked T" "removed a par child (rmem T) (rmem T')"
  shows "info_locked T'"
  unfolding info_locked_def
proof (intro allI impI)
  fix b m assume b: "rmem T' b = Some m \<and> info m \<noteq> None"
  then have "\<exists>k. rmem T b = Some k \<and> info k = info m \<and> lock k = lock m"
    using assms(2) unfolding removed_def
    by (cases "b = a"; cases "child = Some b"; cases "par = Some b") (auto split: if_splits)
  then show "lock m \<noteq> 0" using assms(1) b unfolding info_locked_def by metis
qed

definition entries :: "rtree \<Rightarrow> (raddr \<times> prefix \<times> nat option) set" where
  "entries t = {(a, q, i) \<in> set (preorder t). i \<noteq> None}"

lemma route_node_delete_spec:
  assumes "table_ok f T t" "a \<in> set (addrs t)" "rmem T a = Some n" "lock n = 0" "info_locked T"
  shows "\<exists>T' t'. route_node_delete T a = Some (Inr T') \<and> table_ok f T' t' \<and> info_locked T' \<and>
    entries t' = entries t \<and> set (preorder t') \<subseteq> set (preorder t)"
  using assms
proof (induction "length (addrs t)" arbitrary: T t a n rule: less_induct)
  case less
  have info: "info n = None" using less.prems unfolding info_locked_def by blast
  show ?case
  proof (cases "l_left n = None \<or> l_right n = None")
    case False
    then have "delete_step T a = Inr (T, None)"
      using less.prems info by (simp add: delete_step_def rnode_def)
    then show ?thesis using less.prems by (subst route_node_delete.simps) auto
  next
    case True
    obtain T1 nxt where T1: "delete_step T a = Inr (T1, nxt)" "table_ok f T1 (tdel a t)"
      "removed a (parent n) (only_child n) (rmem T) (rmem T1)"
      "\<forall>q. nxt = Some q \<longrightarrow> q \<in> set (addrs (tdel a t)) \<and> (\<exists>m. rmem T1 q = Some m \<and> lock m = 0)"
      using delete_step_spec [OF less.prems(1-4) info True] by blast
    have tr: "tree_at (rmem T) None (top T) t" "distinct (addrs t)"
      using less.prems(1) by (simp_all add: table_ok_def)
    have sg: "single a t" using single_heap [OF tr(1) less.prems(3) True] .
    have pre: "set (preorder (tdel a t)) = {(b, q, i) \<in> set (preorder t). b \<noteq> a}"
      using set_preorder_tdel [OF tr(2) sg] .
    have "i = None" if "(a, q, i) \<in> set (preorder t)" for q i
      using tree_at_node [OF tr(1) that] less.prems(3) info by auto
    then have ent: "entries (tdel a t) = entries t" unfolding entries_def pre by auto
    have "set (addrs (tdel a t)) = set (addrs t) - {a}" "distinct (addrs (tdel a t))"
      using addrs_tdel [OF tr(2) sg] by blast+
    then have len: "length (addrs (tdel a t)) < length (addrs t)"
      using less.prems(2) tr(2) by (metis Diff_subset distinct_card length_remove1 card_Diff1_less
          finite_set)
    have il: "info_locked T1" using removed_info_locked [OF less.prems(5) T1(3)] .
    show ?thesis
    proof (cases nxt)
      case None
      then show ?thesis using T1 ent il pre by (subst route_node_delete.simps) auto
    next
      case (Some q)
      then obtain m where "q \<in> set (addrs (tdel a t))" "rmem T1 q = Some m" "lock m = 0" using T1(4) by auto
      from less.hyps [OF len T1(2) this il] obtain T' t' where
        "route_node_delete T1 q = Some (Inr T')" "table_ok f T' t'" "info_locked T'"
        "entries t' = entries (tdel a t)" "set (preorder t') \<subseteq> set (preorder (tdel a t))" by blast
      then show ?thesis using T1(1) Some ent pre by (subst route_node_delete.simps) auto
    qed
  qed
qed

section \<open>Iteration\<close>

lemma addrs_hd: "t \<noteq> Tip \<Longrightarrow> \<exists>a as. addrs t = a # as \<and> rootp t = Some a"
  by (cases t) auto

lemma climb_up:
  assumes "h a = Some n" "parent n = Some b" "h b = Some k" "l_left k \<noteq> Some a \<or> l_right k = None"
  shows "climb h None a = climb h None b"
  using assms by (subst climb.simps) auto

text \<open>From the last node of a subtree the climb reaches the root of the subtree.\<close>

lemma climb_last:
  "tree_at h par (Some r) t \<Longrightarrow> distinct (addrs t) \<Longrightarrow> climb h None (last (addrs t)) = climb h None r"
proof (induction t arbitrary: par r)
  case (Nd l b p i s)
  then obtain k where k: "r = b" "h b = Some k"
    "tree_at h (Some b) (l_left k) l" "tree_at h (Some b) (l_right k) s" by (auto split: option.splits)
  have roots: "l_left k = rootp l" "l_right k = rootp s" using k tree_at_rootp by blast+
  show ?case
  proof (cases "s = Tip")
    case False
    then obtain c n where c: "rootp s = Some c" "h c = Some n" "parent n = Some b"
      using k(4) roots(2) by (cases s) (auto split: option.splits)
    have "l_left k \<noteq> Some c" using roots(1) rootp_in [of l c] rootp_in [OF c(1)] Nd.prems(2) by auto
    then have "climb h None c = climb h None b" using climb_up [OF c(2,3) k(2)] by simp
    then show ?thesis using Nd.IH(2) [of "Some b" c] k roots c(1) Nd.prems(2) False addrs_hd [of s] by auto
  next
    case True
    show ?thesis
    proof (cases "l = Tip")
      case False
      then obtain c n where c: "rootp l = Some c" "h c = Some n" "parent n = Some b"
        using k(3) roots(1) by (cases l) (auto split: option.splits)
      have "climb h None c = climb h None b" using climb_up [OF c(2,3) k(2)] roots(2) True by simp
      then show ?thesis using Nd.IH(1) [of "Some b" c] k roots c(1) Nd.prems(2) False True addrs_hd [of l] by auto
    qed (use True k(1) in simp)
  qed
qed simp

lemma last_leaf:
  "tree_at h par ptr t \<Longrightarrow> t \<noteq> Tip \<Longrightarrow>
   \<exists>n. h (last (addrs t)) = Some n \<and> l_left n = None \<and> l_right n = None"
proof (induction t arbitrary: par ptr)
  case (Nd l b p i s)
  then obtain k where k: "h b = Some k"
    "tree_at h (Some b) (l_left k) l" "tree_at h (Some b) (l_right k) s" by (auto split: option.splits)
  then show ?case using Nd.IH(1) [OF k(2)] Nd.IH(2) [OF k(3)] addrs_hd [of l] addrs_hd [of s]
    by (cases "s = Tip"; cases "l = Tip") auto
qed simp

lemma next_last:
  assumes "tree_at h par (Some r) t" "distinct (addrs t)"
  shows "next_node h None (last (addrs t)) = climb h None r"
proof -
  have "t \<noteq> Tip" using assms(1) by auto
  then show ?thesis using last_leaf [OF assms(1)] climb_last [OF assms] by (auto simp: next_node_def)
qed

lemma next_succ:
  "tree_at h par ptr t \<Longrightarrow> distinct (addrs t) \<Longrightarrow> addrs t = xs @ a # b # ys \<Longrightarrow>
   next_node h None a = Some (Inr (Some b))"
proof (induction t arbitrary: par ptr xs ys)
  case (Nd l c p i s)
  then obtain k where k: "h c = Some k"
    "tree_at h (Some c) (l_left k) l" "tree_at h (Some c) (l_right k) s" by (auto split: option.splits)
  have roots: "l_left k = rootp l" "l_right k = rootp s" using k tree_at_rootp by blast+
  have dist: "distinct (addrs l)" "distinct (addrs s)" using Nd.prems(2) by auto
  show ?case
  proof (cases xs)
    case Nil
    then have "c = a" "addrs l @ addrs s = b # ys" using Nd.prems(3) by auto
    then show ?thesis using k(1) roots addrs_hd [of l] addrs_hd [of s]
      by (cases "l = Tip"; cases "s = Tip") (auto simp: next_node_def)
  next
    case (Cons x xs')
    then have "addrs l @ addrs s = xs' @ a # b # ys" using Nd.prems(3) by simp
    then consider us where "addrs l = xs' @ a # b # us" | "addrs l = xs' @ [a]" "addrs s = b # ys"
      | us where "addrs s = us @ a # b # ys"
      by (auto simp: append_eq_append_conv2 append_eq_Cons_conv)
    then show ?thesis
    proof cases
      case 1
      then show ?thesis by (rule Nd.IH(1) [OF k(2) dist(1)])
    next
      case 2
      then have ne: "l \<noteq> Tip" "s \<noteq> Tip" by auto
      obtain r n where r: "rootp l = Some r" "h r = Some n" "parent n = Some c"
        using k(2) roots(1) ne by (cases l) (auto split: option.splits)
      have "rootp s = Some b" using addrs_hd [OF ne(2)] 2(2) by simp
      then have "climb h None r = Some (Inr (Some b))"
        using r k(1) roots by (subst climb.simps) simp
      moreover have "next_node h None (last (addrs l)) = climb h None r"
        using next_last [of h "Some c" r l] k(2) roots(1) r(1) dist(1) by simp
      ultimately show ?thesis using 2(1) by simp
    next
      case 3
      then show ?thesis by (rule Nd.IH(2) [OF k(3) dist(2)])
    qed
  qed
qed simp

text \<open>The node after \<open>a\<close> in a list.\<close>

fun after :: "raddr \<Rightarrow> raddr list \<Rightarrow> raddr option" where
  "after a [] = None"
| "after a [x] = None"
| "after a (x # y # ys) = (if x = a then Some y else after a (y # ys))"

lemma after_split: "distinct (xs @ a # ys) \<Longrightarrow> after a (xs @ a # ys) = (case ys of [] \<Rightarrow> None | b # _ \<Rightarrow> Some b)"
proof (induction xs)
  case Nil
  then show ?case by (cases ys) auto
next
  case (Cons x xs)
  then show ?case by (cases xs) auto
qed

lemma next_node_spec:
  assumes "table_ok f T t" "a \<in> set (addrs t)"
  shows "next_node (rmem T) None a = Some (Inr (after a (addrs t)))"
proof -
  have tr: "tree_at (rmem T) None (top T) t" "distinct (addrs t)" using assms(1) by (simp_all add: table_ok_def)
  obtain xs ys where xs: "addrs t = xs @ a # ys" using assms(2) split_list by metis
  show ?thesis
  proof (cases ys)
    case Nil
    then have l: "last (addrs t) = a" using xs by simp
    obtain r n where r: "top T = Some r" "rmem T r = Some n" "parent n = None"
      using tr(1) assms(2) by (cases t) (auto split: option.splits)
    then have "climb (rmem T) None r = Some (Inr None)" by (subst climb.simps) simp
    then show ?thesis using next_last [of "rmem T" None r t] tr r(1) l after_split [of xs a ys] xs Nil by simp
  next
    case (Cons b zs)
    then show ?thesis using next_succ [OF tr] xs after_split [of xs a ys] tr(2) by simp
  qed
qed

end
