(* ===== verification/Route_Walk.thy ===== *)
theory Route_Walk
  imports Route_Delete
begin

text \<open>
  Unlocking, iterating and freeing the tables of \<open>lib/table.c\<close>, and the properties of the
  route table: longest-prefix match, exact lookup, insertion, release of a node, the
  walk over all nodes and the release of the table.
\<close>

section \<open>Unlocking\<close>

lemma route_unlock_spec:
  assumes ok: "table_ok f T t" and a: "a \<in> set (addrs t)" "rmem T a = Some n"
    and locks: "info n \<noteq> None \<longrightarrow> lock n \<noteq> 1" "info_locked T"
  shows "\<exists>T' t'. route_unlock_node T a = Some (Inr T') \<and> table_ok f T' t' \<and> info_locked T' \<and>
    entries t' = entries t \<and> set (preorder t') \<subseteq> set (preorder t)"
proof -
  define T1 where "T1 = T\<lparr>rmem := (rmem T)(a \<mapsto> n\<lparr>lock := lock n - 1\<rparr>)\<rparr>"
  have ok1: "table_ok f T1 t" unfolding T1_def by (rule table_ok_lock [OF ok a(2)])
  have il: "info_locked T1" using locks unfolding info_locked_def T1_def by auto
  have u: "route_unlock_node T a = (if lock n - 1 = 0 then route_node_delete T1 a else Some (Inr T1))"
    using a by (simp add: route_unlock_node_def rnode_def T1_def Let_def)
  show ?thesis
  proof (cases "lock n - 1 = 0")
    case True
    then show ?thesis using route_node_delete_spec [OF ok1 a(1), of "n\<lparr>lock := lock n - 1\<rparr>"] il u
      by (simp add: T1_def)
  next
    case False
    then have "route_unlock_node T a = Some (Inr T1)" using u by simp
    then show ?thesis using ok1 il by blast
  qed
qed

section \<open>The walk\<close>

text \<open>A node without a lock is a branching point: the state between two operations.\<close>

definition tidy :: "rheap \<Rightarrow> bool" where
  "tidy h \<longleftrightarrow> (\<forall>a n. h a = Some n \<and> lock n = 0 \<longrightarrow> info n = None \<and> l_left n \<noteq> None \<and> l_right n \<noteq> None)"

definition locked_at :: "route_table \<Rightarrow> raddr \<Rightarrow> route_table" where
  "locked_at T a = T\<lparr>rmem := (rmem T)(a := map_option (\<lambda>n. n\<lparr>lock := lock n + 1\<rparr>) (rmem T a))\<rparr>"

lemma table_ok_locked_at: "table_ok f T t \<Longrightarrow> a \<in> set (addrs t) \<Longrightarrow> table_ok f (locked_at T a) t"
  using table_ok_lock [of f T t a] tree_at_alloc [of "rmem T" None "top T" t a]
  by (auto simp: locked_at_def table_ok_def)

lemma unlock_locked:
  assumes n: "rmem T a = Some n" and tidy: "lock n = 0 \<longrightarrow> info n = None \<and> l_left n \<noteq> None \<and> l_right n \<noteq> None"
  shows "route_unlock_node (locked_at T a) a = Some (Inr T)"
proof -
  have T: "(locked_at T a)\<lparr>rmem := (rmem (locked_at T a))(a \<mapsto> n)\<rparr> = T"
    using n by (simp add: locked_at_def fun_upd_idem)
  have "route_node_delete T a = Some (Inr T)" if "lock n = 0"
    using tidy that n by (subst route_node_delete.simps) (simp add: delete_step_def rnode_def c_assert_def)
  then show ?thesis using n T by (simp add: route_unlock_node_def rnode_def locked_at_def Let_def)
qed

lemma locked_at_commute:
  "a \<noteq> b \<Longrightarrow> locked_at (locked_at T a) b = locked_at (locked_at T b) a"
  by (simp add: locked_at_def fun_upd_twist)

lemma after_neq: "distinct xs \<Longrightarrow> after a xs = Some b \<Longrightarrow> b \<in> set xs \<and> b \<noteq> a"
  by (induction a xs rule: after.induct) (auto split: if_splits)

lemma route_next_spec:
  assumes ok: "table_ok f T t" and tidy: "tidy (rmem T)" and a: "a \<in> set (addrs t)"
  shows "route_next (locked_at T a) a =
    Some (Inr (after a (addrs t), case after a (addrs t) of None \<Rightarrow> T | Some b \<Rightarrow> locked_at T b))"
proof -
  have tr: "tree_at (rmem T) None (top T) t" "distinct (addrs t)" using ok by (simp_all add: table_ok_def)
  obtain n where n: "rmem T a = Some n" using tree_at_alloc [OF tr(1) a] by auto
  have tn: "lock n = 0 \<longrightarrow> info n = None \<and> l_left n \<noteq> None \<and> l_right n \<noteq> None" using tidy n by (auto simp: tidy_def)
  have nx: "next_node (rmem (locked_at T a)) None a = Some (Inr (after a (addrs t)))"
    by (rule next_node_spec [OF table_ok_locked_at [OF ok a] a])
  show ?thesis
  proof (cases "after a (addrs t)")
    case None
    have "(locked_at T a)\<lparr>rmem := rmem (locked_at T a)\<rparr> = locked_at T a" by simp
    then show ?thesis using nx None unlock_locked [OF n tn]
      by (simp add: route_next_def route_next_until_def lock_then_unlock_def)
  next
    case (Some b)
    then have b: "b \<in> set (addrs t)" "b \<noteq> a" using after_neq [OF tr(2)] by auto
    obtain m where m: "rmem T b = Some m" using tree_at_alloc [OF tr(1) b(1)] by auto
    have "route_lock_node (rmem (locked_at T a)) b = Inr (rmem (locked_at (locked_at T a) b))"
      using m b(2) by (simp add: locked_at_def route_lock_node_def rnode_def)
    moreover have "(locked_at T a)\<lparr>rmem := rmem (locked_at (locked_at T b) a)\<rparr> = locked_at (locked_at T b) a"
      by (simp add: locked_at_def)
    moreover have "route_unlock_node (locked_at (locked_at T b) a) a = Some (Inr (locked_at T b))"
      by (rule unlock_locked [OF _ tn]) (use n b(2) in \<open>simp add: locked_at_def\<close>)
    ultimately show ?thesis using nx Some b(2) locked_at_commute [of a b T]
      by (simp add: route_next_def route_next_until_def lock_then_unlock_def)
  qed
qed

lemma route_walk_from_spec:
  "table_ok f T t \<Longrightarrow> tidy (rmem T) \<Longrightarrow> addrs t = xs @ a # ys \<Longrightarrow>
   route_walk_from (locked_at T a) (Some a) = Some (Inr (a # ys, T))"
proof (induction ys arbitrary: xs a)
  case Nil
  then have "after a (addrs t) = None" using after_split [of xs a "[]"] by (auto simp: table_ok_def)
  then have "route_next (locked_at T a) a = Some (Inr (None, T))" using route_next_spec [of f T t a] Nil by simp
  moreover have "route_walk_from T None = Some (Inr ([], T))" by (subst route_walk_from.simps) simp
  ultimately show ?case by (subst route_walk_from.simps) simp
next
  case (Cons b ys)
  then have "after a (addrs t) = Some b" using after_split [of xs a "b # ys"] by (auto simp: table_ok_def)
  then have "route_next (locked_at T a) a = Some (Inr (Some b, locked_at T b))"
    using route_next_spec [of f T t a] Cons.prems by simp
  moreover have "route_walk_from (locked_at T b) (Some b) = Some (Inr (b # ys, T))"
    using Cons.IH [of "xs @ [a]" b] Cons.prems by simp
  ultimately show ?case by (subst route_walk_from.simps) simp
qed

section \<open>Release of the table\<close>

definition freed :: "rheap \<Rightarrow> raddr option \<Rightarrow> raddr \<Rightarrow> raddr set \<Rightarrow> rheap" where
  "freed h par a S = (\<lambda>x. if x \<in> S then None else if par = Some x then map_option (clear_child a) (h x) else h x)"

lemma free_leaf:
  assumes "h a = Some n" "l_left n = None" "l_right n = None" "parent n = Some q" "h q = Some m" "q \<noteq> a"
  shows "route_table_free_loop h (Some a) = route_table_free_loop (freed h (Some q) a {a}) (Some q)"
proof -
  have "(h(q \<mapsto> clear_child a m))(a := None) = freed h (Some q) a {a}"
    using assms(5,6) by (auto simp: freed_def fun_eq_iff)
  then show ?thesis using assms by (subst route_table_free_loop.simps) simp
qed

text \<open>Freeing both children of a node, given that each of them can be freed.\<close>

lemma free_children:
  assumes n: "h a = Some n" "tree_at h (Some a) (l_left n) l" "tree_at h (Some a) (l_right n) r"
    and d: "a \<notin> set (addrs l)" "a \<notin> set (addrs r)" "set (addrs l) \<inter> set (addrs r) = {}"
    and L: "\<And>h c m. tree_at h (Some a) (Some c) l \<Longrightarrow> h a = Some m \<Longrightarrow>
      route_table_free_loop h (Some c) = route_table_free_loop (freed h (Some a) c (set (addrs l))) (Some a)"
    and R: "\<And>h c m. tree_at h (Some a) (Some c) r \<Longrightarrow> h a = Some m \<Longrightarrow>
      route_table_free_loop h (Some c) = route_table_free_loop (freed h (Some a) c (set (addrs r))) (Some a)"
  obtains h2 where "route_table_free_loop h (Some a) = route_table_free_loop h2 (Some a)"
    "h2 a = Some (n\<lparr>l_left := None, l_right := None\<rparr>)"
    "\<And>x. x \<noteq> a \<Longrightarrow> h2 x = (if x \<in> set (addrs l) \<union> set (addrs r) then None else h x)"
proof -
  have roots: "l_left n = rootp l" "l_right n = rootp r" using n tree_at_rootp by blast+
  define h1 where "h1 = (if l = Tip then h else freed h (Some a) (the (rootp l)) (set (addrs l)))"
  have s1: "route_table_free_loop h (Some a) = route_table_free_loop h1 (Some a)"
  proof (cases "l = Tip")
    case False
    then obtain c where c: "rootp l = Some c" by (cases l) auto
    have "route_table_free_loop h (Some a) = route_table_free_loop h (Some c)"
      using n(1) roots c by (subst route_table_free_loop.simps) simp
    then show ?thesis using L [of h c n] n roots c False by (simp add: h1_def)
  qed (simp add: h1_def)
  have n1: "h1 a = Some (n\<lparr>l_left := None\<rparr>)"
    using n(1) roots d by (cases l) (auto simp: h1_def freed_def clear_child_def)
  have out1: "h1 x = (if x \<in> set (addrs l) then None else h x)" if "x \<noteq> a" for x
    using that by (auto simp: h1_def freed_def)
  have "\<forall>x \<in> set (addrs r). h1 x = h x" using d(2,3) out1 by (metis disjoint_iff)
  then have r1: "tree_at h1 (Some a) (rootp r) r" using tree_at_frame [OF n(3)] roots(2) by simp
  define h2 where "h2 = (if r = Tip then h1 else freed h1 (Some a) (the (rootp r)) (set (addrs r)))"
  have s2: "route_table_free_loop h1 (Some a) = route_table_free_loop h2 (Some a)"
  proof (cases "r = Tip")
    case False
    then obtain c where c: "rootp r = Some c" by (cases r) auto
    have "route_table_free_loop h1 (Some a) = route_table_free_loop h1 (Some c)"
      using n1 roots c by (subst route_table_free_loop.simps) simp
    then show ?thesis using R [of h1 c] r1 n1 c False by (simp add: h2_def)
  qed (simp add: h2_def)
  have "h2 a = Some (n\<lparr>l_left := None, l_right := None\<rparr>)"
    using n1 roots d by (cases r) (auto simp: h2_def freed_def clear_child_def)
  moreover have "\<And>x. x \<noteq> a \<Longrightarrow> h2 x = (if x \<in> set (addrs l) \<union> set (addrs r) then None else h x)"
    using out1 by (auto simp: h2_def freed_def)
  ultimately show ?thesis using that [of h2] s1 s2 by simp
qed

lemma free_tree:
  "tree_at h (Some q) (Some a) t \<Longrightarrow> distinct (addrs t) \<Longrightarrow> q \<notin> set (addrs t) \<Longrightarrow> h q = Some m \<Longrightarrow>
   route_table_free_loop h (Some a) = route_table_free_loop (freed h (Some q) a (set (addrs t))) (Some q)"
proof (induction t arbitrary: h q a m)
  case (Nd l b p i r)
  then obtain n where n: "a = b" "h a = Some n" "parent n = Some q"
    "tree_at h (Some a) (l_left n) l" "tree_at h (Some a) (l_right n) r" by (auto split: option.splits)
  have d: "distinct (addrs l)" "distinct (addrs r)" "a \<notin> set (addrs l)" "a \<notin> set (addrs r)"
    "set (addrs l) \<inter> set (addrs r) = {}" using Nd.prems(2) n(1) by auto
  obtain h2 where h2: "route_table_free_loop h (Some a) = route_table_free_loop h2 (Some a)"
    "h2 a = Some (n\<lparr>l_left := None, l_right := None\<rparr>)"
    "\<And>x. x \<noteq> a \<Longrightarrow> h2 x = (if x \<in> set (addrs l) \<union> set (addrs r) then None else h x)"
    using free_children [OF n(2,4,5) d(3,4,5)] Nd.IH(1) [OF _ d(1,3)] Nd.IH(2) [OF _ d(2,4)] by blast
  have q: "q \<noteq> a" "h2 q = Some m" using Nd.prems(3,4) n(1) h2(3) [of q] by auto
  have "freed h2 (Some q) a {a} x = freed h (Some q) a (set (addrs (Nd l b p i r))) x" for x
    using n(1) h2(3) [of x] q Nd.prems(3,4) by (auto simp: freed_def)
  then have "freed h2 (Some q) a {a} = freed h (Some q) a (set (addrs (Nd l b p i r)))" by blast
  then show ?case using h2(1) free_leaf [OF h2(2) _ _ _ q(2) q(1)] n(3) by simp
qed simp

lemma free_top:
  assumes "tree_at h None (Some a) t" "distinct (addrs t)"
  shows "\<exists>h'. route_table_free_loop h (Some a) = Some (Inr h') \<and>
    (\<forall>x. h' x = (if x \<in> set (addrs t) then None else h x))"
proof (cases t)
  case (Nd l b p i r)
  then obtain n where n: "a = b" "h a = Some n" "parent n = None"
    "tree_at h (Some a) (l_left n) l" "tree_at h (Some a) (l_right n) r"
    using assms(1) by (auto split: option.splits)
  have d: "distinct (addrs l)" "distinct (addrs r)" "a \<notin> set (addrs l)" "a \<notin> set (addrs r)"
    "set (addrs l) \<inter> set (addrs r) = {}" using assms(2) n(1) Nd by auto
  obtain h2 where h2: "route_table_free_loop h (Some a) = route_table_free_loop h2 (Some a)"
    "h2 a = Some (n\<lparr>l_left := None, l_right := None\<rparr>)"
    "\<And>x. x \<noteq> a \<Longrightarrow> h2 x = (if x \<in> set (addrs l) \<union> set (addrs r) then None else h x)"
    using free_children [OF n(2,4,5) d(3,4,5)] free_tree [OF _ d(1,3)] free_tree [OF _ d(2,4)] by blast
  have "route_table_free_loop h2 (Some a) = Some (Inr (h2(a := None)))"
    using h2(2) n(3) by (subst route_table_free_loop.simps) simp
  moreover have "(h2(a := None)) x = (if x \<in> set (addrs t) then None else h x)" for x
    using h2(3) [of x] n(1) Nd by auto
  ultimately show ?thesis using h2(1) by auto
qed (use assms in simp)

section \<open>Properties\<close>

text \<open>10/8 with information 7 and below it 10.16/12 with information 8, both locked once.\<close>

definition route_ex :: route_table where
  "route_ex = \<lparr>top = Some 1, rmem =
     [1 \<mapsto> \<lparr>rp = pfx_10_8, parent = None, l_left = Some 2, l_right = None, lock = 1, info = Some 7\<rparr>,
      2 \<mapsto> \<lparr>rp = pfx_10_1_12, parent = Some 1, l_left = None, l_right = None, lock = 1, info = Some 8\<rparr>]\<rparr>"

definition route_ex_tree :: rtree where
  "route_ex_tree = Nd (Nd Tip 2 pfx_10_1_12 (Some 8) Tip) 1 pfx_10_8 (Some 7) Tip"

definition pfx_10_2_16 :: prefix where
  "pfx_10_2_16 = \<lparr>family = 2, prefixlen = 16, u_bytes = [10, 0x12, 0, 0] @ replicate 12 0\<rparr>"

lemma pfx_10_2_16_ok [simp]: "prefix_ok pfx_10_2_16"
  by (simp add: prefix_ok_def pfx_10_2_16_def prefix_blen_def prefix_consts)

lemma route_ex_ok: "table_ok AF_INET route_ex route_ex_tree"
proof -
  have "Sublist.prefix (prefix_bits pfx_10_8 @ [False]) (prefix_bits pfx_10_1_12)" by code_simp
  moreover have "family pfx_10_8 = AF_INET" "family pfx_10_1_12 = AF_INET" by code_simp+
  ultimately show ?thesis by (simp add: table_ok_def route_ex_def route_ex_tree_def)
qed

text \<open>C7: \<open>route_node_match\<close> ends on every well-formed table and is longest-prefix match:
  it returns no node exactly when no node with information covers the address, and
  otherwise a node with information that covers it and whose prefix is at least as long as
  that of every other such node. The table stays well formed.\<close>

theorem route_node_match_longest:
  assumes "table_ok f T t" "prefix_ok p"
  shows "\<exists>r T'. route_node_match T p = Some (Inr (r, T')) \<and> table_ok f T' t \<and>
    (case r of
       None \<Rightarrow> \<not> (\<exists>a q i. (a, q, Some i) \<in> set (preorder t) \<and> Sublist.prefix (prefix_bits q) (prefix_bits p))
     | Some a \<Rightarrow> (\<exists>q i. (a, q, Some i) \<in> set (preorder t) \<and> Sublist.prefix (prefix_bits q) (prefix_bits p) \<and>
         (\<forall>b q' j. (b, q', Some j) \<in> set (preorder t) \<and> Sublist.prefix (prefix_bits q') (prefix_bits p) \<longrightarrow>
            length (prefix_bits q') \<le> length (prefix_bits q))))"
proof -
  obtain r T' where r: "route_node_match T p = Some (Inr (r, T'))" "table_ok f T' t"
    "case r of None \<Rightarrow> candidates p t = {} | Some a \<Rightarrow> longest p t a"
    using route_node_match_spec [OF assms] by blast
  show ?thesis
  proof (cases r)
    case None
    then have "\<not> (\<exists>a q i. (a, q, Some i) \<in> set (preorder t) \<and> Sublist.prefix (prefix_bits q) (prefix_bits p))"
      using r(3) by (auto simp: candidates_def)
    then show ?thesis using r(1,2) None by simp
  next
    case (Some a)
    then obtain q i where q: "(a, q, Some i) \<in> set (preorder t)" "Sublist.prefix (prefix_bits q) (prefix_bits p)"
      "\<forall>(b, q', j) \<in> candidates p t. length (prefix_bits q') \<le> length (prefix_bits q)"
      using r(3) by (auto simp: longest_def candidates_def)
    then have "\<forall>b q' j. (b, q', Some j) \<in> set (preorder t) \<and> Sublist.prefix (prefix_bits q') (prefix_bits p) \<longrightarrow>
        length (prefix_bits q') \<le> length (prefix_bits q)" by (auto simp: candidates_def)
    with q(1,2) show ?thesis using r(1,2) Some by (simp del: length_prefix_bits) blast
  qed
qed

theorem route_node_match_longest_witness:
  "table_ok AF_INET route_ex route_ex_tree \<and> prefix_ok pfx_10_2_16 \<and>
   (\<exists>r T'. route_node_match route_ex pfx_10_2_16 = Some (Inr (r, T')) \<and> table_ok AF_INET T' route_ex_tree)"
  using route_node_match_longest [OF route_ex_ok pfx_10_2_16_ok] route_ex_ok pfx_10_2_16_ok by blast

text \<open>C31: \<open>route_node_lookup\<close> ends on every well-formed table and returns a node exactly when
  that node carries information and has the same prefix as the argument.\<close>

theorem route_node_lookup_exact:
  assumes "table_ok f T t" "prefix_ok p"
  shows "\<exists>r T'. route_node_lookup T p = Some (Inr (r, T')) \<and> table_ok f T' t \<and>
    (\<forall>a. r = Some a \<longleftrightarrow> (\<exists>q i. (a, q, Some i) \<in> set (preorder t) \<and> prefix_bits q = prefix_bits p))"
  using assms by (rule route_node_lookup_spec)

theorem route_node_lookup_exact_witness:
  "\<exists>T'. route_node_lookup route_ex pfx_10_1_12 = Some (Inr (Some 2, T')) \<and> table_ok AF_INET T' route_ex_tree"
  using route_node_lookup_exact [OF route_ex_ok, of pfx_10_1_12] by (auto simp: route_ex_tree_def)

lemma distinct_preorder:
  "distinct (addrs t) \<Longrightarrow> (a, q, i) \<in> set (preorder t) \<Longrightarrow> (a, q', j) \<in> set (preorder t) \<Longrightarrow> q = q' \<and> i = j"
  unfolding addrs_def using eq_key_imp_eq_value by fastforce

lemma entries_get_set:
  assumes "trie_ok f t" "prefix_ok p" "distinct (addrs (tget c d p t))" "c \<notin> set (addrs t)" "d \<notin> set (addrs t)"
    and b: "b \<noteq> prefix_bits p"
  shows "(\<exists>q i. (x, q, Some i) \<in> set (preorder (tset (tres c d p t) (Some v) (tget c d p t))) \<and> prefix_bits q = b) \<longleftrightarrow>
    (\<exists>q i. (x, q, Some i) \<in> set (preorder t) \<and> prefix_bits q = b)" (is "?L \<longleftrightarrow> ?R")
proof -
  obtain q1 i1 where q1: "(tres c d p t, q1, i1) \<in> set (preorder (tget c d p t))" "prefix_bits q1 = prefix_bits p"
    using tres_tget [OF assms(1,2)] by blast
  show ?thesis
  proof
    assume ?L
    then obtain q i where q: "(x, q, i) \<in> set (preorder (tget c d p t))" "prefix_bits q = b"
      "x = tres c d p t \<or> i \<noteq> None" by (auto simp: preorder_tset split: if_splits)
    then have "x \<noteq> tres c d p t" using distinct_preorder [OF assms(3) q1(1)] q1(2) b by auto
    then show ?R using q preorder_tget_new [OF q(1)] by auto
  next
    assume ?R
    then obtain q i where q: "(x, q, Some i) \<in> set (preorder t)" "prefix_bits q = b" by blast
    then have i: "(x, q, Some i) \<in> set (preorder (tget c d p t))" using preorder_tget_old by blast
    then have "x \<noteq> tres c d p t" using distinct_preorder [OF assms(3) q1(1)] q1(2) b q(2) by auto
    then have "(x, q, Some i) \<in> set (preorder (tset (tres c d p t) (Some v) (tget c d p t)))"
      using i by (force simp: preorder_tset)
    then show ?L using q(2) by blast
  qed
qed

definition set_info :: "route_table \<Rightarrow> raddr \<Rightarrow> nat \<Rightarrow> route_table" where
  "set_info T a v = T\<lparr>rmem := (rmem T)(a := map_option (\<lambda>n. n\<lparr>info := Some v\<rparr>) (rmem T a))\<rparr>"

text \<open>C8: \<open>route_node_get\<close> followed by storing information in the node it returns is a map
  update. The insertion ends and succeeds, whether the node existed, is added as a leaf, is
  put above an existing node or needs a new branching node; afterwards looking the prefix up
  gives that node, and looking up any other prefix gives what it gave before.\<close>

theorem route_get_set_lookup:
  assumes ok: "table_ok f T t" and p: "prefix_ok p" "family p = f"
    and fresh: "rmem T c = None" "rmem T d = None" "c \<noteq> d"
  shows "\<exists>a T1. route_node_get c d T p = Some (Inr (a, T1)) \<and>
    (\<forall>q. prefix_ok q \<longrightarrow> (\<exists>r T2 T3. route_node_lookup T q = Some (Inr (r, T2)) \<and>
       route_node_lookup (set_info T1 a v) q =
         Some (Inr (if prefix_bits q = prefix_bits p then Some a else r, T3))))"
proof -
  let ?a = "tres c d p t" and ?t = "tget c d p t"
  obtain T1 where T1: "route_node_get c d T p = Some (Inr (?a, T1))" "table_ok f T1 ?t"
    using route_node_get_spec [OF assms] by blast
  have tr: "trie_ok f t" "distinct (addrs ?t)" "tree_at (rmem T) None (top T) t"
    using ok T1(2) by (simp_all add: table_ok_def)
  have out: "c \<notin> set (addrs t)" "d \<notin> set (addrs t)" using fresh tree_at_alloc [OF tr(3)] by blast+
  obtain q1 i1 where q1: "(?a, q1, i1) \<in> set (preorder ?t)" "prefix_bits q1 = prefix_bits p"
    using tres_tget [OF tr(1) p(1)] by blast
  obtain n where n: "rmem T1 ?a = Some n" using table_ok_node [OF T1(2) q1(1)] by blast
  have ok2: "table_ok f (set_info T1 ?a v) (tset ?a (Some v) ?t)"
    using table_ok_tset [OF T1(2) n, of "Some v"] n by (simp add: set_info_def)
  have new: "(?a, q1, Some v) \<in> set (preorder (tset ?a (Some v) ?t))" using q1(1) by (force simp: preorder_tset)
  have "\<exists>r T2 T3. route_node_lookup T q = Some (Inr (r, T2)) \<and>
      route_node_lookup (set_info T1 ?a v) q = Some (Inr (if prefix_bits q = prefix_bits p then Some ?a else r, T3))"
    if q: "prefix_ok q" for q
  proof -
    obtain r T2 where r: "route_node_lookup T q = Some (Inr (r, T2))"
      "\<forall>a. r = Some a \<longleftrightarrow> (\<exists>q' i. (a, q', Some i) \<in> set (preorder t) \<and> prefix_bits q' = prefix_bits q)"
      using route_node_lookup_spec [OF ok q] by blast
    obtain s T3 where s: "route_node_lookup (set_info T1 ?a v) q = Some (Inr (s, T3))"
      "\<forall>a. s = Some a \<longleftrightarrow> (\<exists>q' i. (a, q', Some i) \<in> set (preorder (tset ?a (Some v) ?t)) \<and>
         prefix_bits q' = prefix_bits q)"
      using route_node_lookup_spec [OF ok2 q] by blast
    have "s = (if prefix_bits q = prefix_bits p then Some ?a else r)"
    proof (cases "prefix_bits q = prefix_bits p")
      case True
      then show ?thesis using new q1(2) s(2) by auto
    next
      case False
      then have "\<forall>a. s = Some a \<longleftrightarrow> r = Some a"
        using r(2) s(2) entries_get_set [OF tr(1) p(1) tr(2) out False] by simp
      then have "s = r" by (metis option.exhaust)
      then show ?thesis using False by simp
    qed
    then show ?thesis using r(1) s(1) by simp
  qed
  then show ?thesis using T1(1) by blast
qed

theorem route_get_set_lookup_witness:
  "\<exists>a T1. route_node_get 5 6 route_ex pfx_10_2_16 = Some (Inr (a, T1)) \<and>
    (\<exists>r T2 T3. route_node_lookup route_ex pfx_10_1_12 = Some (Inr (r, T2)) \<and>
       route_node_lookup (set_info T1 a 9) pfx_10_1_12 = Some (Inr (r, T3)))"
proof -
  have f: "family pfx_10_2_16 = AF_INET" "prefix_bits pfx_10_1_12 \<noteq> prefix_bits pfx_10_2_16" by code_simp+
  have "rmem route_ex 5 = None" "rmem route_ex 6 = None" by (simp_all add: route_ex_def)
  from route_get_set_lookup [OF route_ex_ok pfx_10_2_16_ok f(1) this, of 9]
  obtain a T1 where a: "route_node_get 5 6 route_ex pfx_10_2_16 = Some (Inr (a, T1))"
    "\<forall>q. prefix_ok q \<longrightarrow> (\<exists>r T2 T3. route_node_lookup route_ex q = Some (Inr (r, T2)) \<and>
       route_node_lookup (set_info T1 a 9) q =
         Some (Inr (if prefix_bits q = prefix_bits pfx_10_2_16 then Some a else r, T3)))"
    by auto
  from spec [OF a(2), of pfx_10_1_12] a(1) f(2) show ?thesis by (simp del: length_prefix_bits)
qed

text \<open>C9: \<open>route_node_get\<close> keeps the invariant of the table (the links form a tree whose
  prefixes grow bit by bit along every path) and every node with information; the node it
  returns has the prefix that was asked for, and every added node is a fresh one without
  information.\<close>

theorem route_node_get_invariant:
  assumes "table_ok f T t" "prefix_ok p" "family p = f" "rmem T c = None" "rmem T d = None" "c \<noteq> d"
  shows "\<exists>a T' t' q i. route_node_get c d T p = Some (Inr (a, T')) \<and> table_ok f T' t' \<and>
    (a, q, i) \<in> set (preorder t') \<and> prefix_bits q = prefix_bits p \<and>
    set (preorder t) \<subseteq> set (preorder t') \<and>
    (\<forall>(b, q', j) \<in> set (preorder t') - set (preorder t). j = None \<and> b \<in> {c, d})"
proof -
  obtain T' where T': "route_node_get c d T p = Some (Inr (tres c d p t, T'))" "table_ok f T' (tget c d p t)"
    using route_node_get_spec [OF assms] by blast
  have "trie_ok f t" using assms(1) by (simp add: table_ok_def)
  then obtain q i where "(tres c d p t, q, i) \<in> set (preorder (tget c d p t))" "prefix_bits q = prefix_bits p"
    using tres_tget assms(2) by blast
  moreover have "set (preorder t) \<subseteq> set (preorder (tget c d p t))" using preorder_tget_old by blast
  moreover have "\<forall>(b, q', j) \<in> set (preorder (tget c d p t)) - set (preorder t). j = None \<and> b \<in> {c, d}"
    using preorder_tget_new by blast
  ultimately show ?thesis using T' by blast
qed

theorem route_node_get_invariant_witness:
  "\<exists>a T' t'. route_node_get 5 6 route_ex pfx_10_2_16 = Some (Inr (a, T')) \<and> table_ok AF_INET T' t' \<and>
    (2, pfx_10_1_12, Some 8) \<in> set (preorder t')"
proof -
  have f: "family pfx_10_2_16 = AF_INET" by code_simp
  have "rmem route_ex 5 = None" "rmem route_ex 6 = None" by (simp_all add: route_ex_def)
  from route_node_get_invariant [OF route_ex_ok pfx_10_2_16_ok f this]
  obtain a T' t' where "route_node_get 5 6 route_ex pfx_10_2_16 = Some (Inr (a, T'))" "table_ok AF_INET T' t'"
    "set (preorder route_ex_tree) \<subseteq> set (preorder t')" by auto
  then show ?thesis by (auto simp: route_ex_tree_def)
qed

text \<open>C10: Releasing a node ends. \<open>route_unlock_node\<close> (and \<open>route_node_delete\<close>, which it
  calls when the last lock goes and which climbs to parents that became useless) keeps the
  invariant, removes no node that carries information, adds none, and never trips its
  assertions, as long as nodes with information stay locked.\<close>

theorem route_unlock_terminates:
  assumes "table_ok f T t" "a \<in> set (addrs t)" "rmem T a = Some n"
    "info n \<noteq> None \<longrightarrow> lock n \<noteq> 1" "info_locked T"
  shows "\<exists>T' t'. route_unlock_node T a = Some (Inr T') \<and> table_ok f T' t' \<and> info_locked T' \<and>
    entries t' = entries t \<and> set (preorder t') \<subseteq> set (preorder t)"
  using assms by (rule route_unlock_spec)

definition route_ex_cleared :: route_table where
  "route_ex_cleared = route_ex\<lparr>rmem := (rmem route_ex)(2 \<mapsto>
     \<lparr>rp = pfx_10_1_12, parent = Some 1, l_left = None, l_right = None, lock = 1, info = None\<rparr>)\<rparr>"

theorem route_unlock_terminates_witness:
  "\<exists>T' t'. route_unlock_node route_ex_cleared 2 = Some (Inr T') \<and> table_ok AF_INET T' t' \<and>
    entries t' = {(1, pfx_10_8, Some 7)}"
proof -
  have ok: "table_ok AF_INET route_ex_cleared (tset 2 None route_ex_tree)"
    using table_ok_tset [OF route_ex_ok, of 2 _ None] by (auto simp: route_ex_cleared_def route_ex_def)
  moreover have "info_locked route_ex_cleared"
    by (auto simp: info_locked_def route_ex_cleared_def route_ex_def split: if_splits)
  moreover have "entries (tset 2 None route_ex_tree) = {(1, pfx_10_8, Some 7)}"
    by (auto simp: route_ex_tree_def entries_def)
  moreover have "2 \<in> set (addrs (tset 2 None route_ex_tree))" by (simp add: route_ex_tree_def)
  moreover have "rmem route_ex_cleared 2 = Some \<lparr>rp = pfx_10_1_12, parent = Some 1, l_left = None,
      l_right = None, lock = 1, info = None\<rparr>" by (simp add: route_ex_cleared_def)
  ultimately show ?thesis using route_unlock_terminates [OF ok, of 2] by fastforce
qed

text \<open>C11: The loop that starts at \<open>route_top\<close> and advances with \<open>route_next\<close> ends, visits
  every node of the table exactly once, parents before their children, and leaves the table
  as it was (every lock it takes it gives back), when each unlocked node is a
  branching point without information.\<close>

theorem route_walk_visits_all:
  assumes ok: "table_ok f T t" and tidy: "tidy (rmem T)"
  shows "route_walk T = Some (Inr (map fst (preorder t), T)) \<and> distinct (map fst (preorder t))"
proof -
  have tr: "tree_at (rmem T) None (top T) t" "distinct (addrs t)" using ok by (simp_all add: table_ok_def)
  have "route_walk T = Some (Inr (addrs t, T))"
  proof (cases t)
    case Tip
    then show ?thesis using tr by (simp add: route_walk_def route_top_def route_walk_from.simps)
  next
    case (Nd l a p i r)
    then obtain n where "top T = Some a" "rmem T a = Some n" using tr(1) by (auto split: option.splits)
    then have "route_top T = Inr (Some a, locked_at T a)"
      by (simp add: route_top_def route_lock_spec locked_at_def)
    then show ?thesis using route_walk_from_spec [OF ok tidy, of "[]" a] Nd by (simp add: route_walk_def)
  qed
  then show ?thesis using tr(2) by (simp add: addrs_def)
qed

theorem route_walk_visits_all_witness: "route_walk route_ex = Some (Inr ([1, 2], route_ex))"
proof -
  have "tidy (rmem route_ex)" by (auto simp: tidy_def route_ex_def split: if_splits)
  from route_walk_visits_all [OF route_ex_ok this] show ?thesis by (simp add: route_ex_tree_def)
qed

text \<open>C32: \<open>route_table_free\<close> ends on every well-formed table, never follows a pointer to a
  node it has freed, and frees exactly the nodes of the table.\<close>

theorem route_table_free_all:
  assumes "table_ok f T t"
  shows "\<exists>h. route_table_free (Some T) = Some (Inr h) \<and>
    (\<forall>a. h a = (if a \<in> fst ` set (preorder t) then None else rmem T a))"
proof (cases t)
  case Tip
  then show ?thesis using assms by (simp add: table_ok_def route_table_free_def route_table_free_loop.simps)
next
  case (Nd l a p i r)
  then have "tree_at (rmem T) None (Some a) t" "distinct (addrs t)" "top T = Some a"
    using assms by (auto simp: table_ok_def)
  then show ?thesis using free_top [of "rmem T" a t] by (simp add: route_table_free_def addrs_def)
qed

theorem route_table_free_all_witness: "route_table_free (Some route_ex) = Some (Inr Map.empty)"
proof -
  obtain h where h: "route_table_free (Some route_ex) = Some (Inr h)"
    "\<forall>a. h a = (if a \<in> fst ` set (preorder route_ex_tree) then None else rmem route_ex a)"
    using route_table_free_all [OF route_ex_ok] by blast
  then have "h = Map.empty" by (auto simp: route_ex_tree_def route_ex_def)
  then show ?thesis using h(1) by simp
qed

end
