(* ===== verification/Pqueue_Heap.thy ===== *)
theory Pqueue_Heap
  imports Quagga_Prelude "HOL-Library.Multiset"
begin

text \<open>
  The priority queue of \<open>lib/pqueue.c\<close>: a binary heap in an array that grows by doubling.
  The comparison \<open>cmp\<close> and the optional callback \<open>update\<close>, which tells a client the new
  position of a node, are fields that the client sets; the callback acts on a client
  state \<open>'s\<close>.
\<close>

section \<open>Operations\<close>

definition PARENT_OF :: "nat \<Rightarrow> nat" where
  "PARENT_OF x = (x - 1) div 2"

definition LEFT_OF :: "nat \<Rightarrow> nat" where
  "LEFT_OF x = 2 * x + 1"

definition RIGHT_OF :: "nat \<Rightarrow> nat" where
  "RIGHT_OF x = 2 * x + 2"

definition HAVE_CHILD :: "nat \<Rightarrow> nat \<Rightarrow> bool" where
  "HAVE_CHILD x sz \<longleftrightarrow> x < sz div 2"

type_synonym ('a, 's) update = "('a \<Rightarrow> nat \<Rightarrow> 's \<Rightarrow> 's) option"

definition call_update :: "('a, 's) update \<Rightarrow> 'a \<Rightarrow> nat \<Rightarrow> 's \<Rightarrow> 's" where
  "call_update upd x i s = (case upd of None \<Rightarrow> s | Some f \<Rightarrow> f x i s)"

text \<open>\<open>'a\<close> is the type of the pointers in the queue; \<open>array_size\<close> is the length of \<open>parray\<close>.\<close>

record ('a, 's) pqueue =
  parray :: "'a list"
  psize :: nat
  pcmp :: "'a \<Rightarrow> 'a \<Rightarrow> int"
  pupdate :: "('a, 's) update"

text \<open>The loops work on the array with a hole at \<open>index\<close>, whose node is saved in \<open>tmp\<close>.\<close>

function up_loop :: "('a \<Rightarrow> 'a \<Rightarrow> int) \<Rightarrow> ('a, 's) update \<Rightarrow> 'a \<Rightarrow> nat \<Rightarrow> 'a list \<Rightarrow> 's \<Rightarrow> 'a list \<times> 's" where
  "up_loop cmp upd tmp index xs s =
     (if 0 < index \<and> cmp tmp (xs ! PARENT_OF index) < 0 then
        up_loop cmp upd tmp (PARENT_OF index) (xs[index := xs ! PARENT_OF index])
          (call_update upd (xs ! PARENT_OF index) index s)
      else (xs[index := tmp], call_update upd tmp index s))"
  by pat_completeness auto
termination
  by (relation "measure (\<lambda>(cmp, upd, tmp, index, xs, s). index)") (auto simp: PARENT_OF_def)

declare up_loop.simps [simp del]

text \<open>The parents of an index inside the array are inside it too.\<close>

definition trickle_up :: "nat \<Rightarrow> ('a, 's) pqueue \<Rightarrow> 's \<Rightarrow> (('a, 's) pqueue \<times> 's) res" where
  "trickle_up index q s =
     (if index < length (parray q) then
        let (xs, s') = up_loop (pcmp q) (pupdate q) (parray q ! index) index (parray q) s
        in Inr (q\<lparr>parray := xs\<rparr>, s')
      else Inl Out_Of_Bounds)"

definition which_child :: "('a \<Rightarrow> 'a \<Rightarrow> int) \<Rightarrow> nat \<Rightarrow> nat \<Rightarrow> 'a list \<Rightarrow> nat" where
  "which_child cmp sz index xs =
     (if RIGHT_OF index < sz \<and> cmp (xs ! LEFT_OF index) (xs ! RIGHT_OF index) > 0
      then RIGHT_OF index else LEFT_OF index)"

lemma which_child_bounds:
  "HAVE_CHILD index sz \<Longrightarrow> index < which_child cmp sz index xs \<and> which_child cmp sz index xs < sz"
  by (auto simp: which_child_def HAVE_CHILD_def LEFT_OF_def RIGHT_OF_def)

function down_loop ::
    "('a \<Rightarrow> 'a \<Rightarrow> int) \<Rightarrow> ('a, 's) update \<Rightarrow> nat \<Rightarrow> 'a \<Rightarrow> nat \<Rightarrow> 'a list \<Rightarrow> 's \<Rightarrow> 'a list \<times> 's" where
  "down_loop cmp upd sz tmp index xs s =
     (if HAVE_CHILD index sz \<and> \<not> cmp (xs ! which_child cmp sz index xs) tmp > 0 then
        let which = which_child cmp sz index xs
        in down_loop cmp upd sz tmp which (xs[index := xs ! which])
             (call_update upd (xs ! which) index s)
      else (xs[index := tmp], call_update upd tmp index s))"
  by pat_completeness auto
termination
proof (relation "measure (\<lambda>(cmp, upd, sz, tmp, index, xs, s). sz - index)", goal_cases)
  case (2 cmp upd sz tmp index xs s x)
  then show ?case using which_child_bounds [of index sz cmp xs] by auto
qed simp

declare down_loop.simps [simp del]

text \<open>The children that the loop reads are below \<open>size\<close>, which is at most \<open>array_size\<close>.\<close>

definition trickle_down :: "nat \<Rightarrow> ('a, 's) pqueue \<Rightarrow> 's \<Rightarrow> (('a, 's) pqueue \<times> 's) res" where
  "trickle_down index q s =
     (if index < length (parray q) \<and> psize q \<le> length (parray q) then
        let (xs, s') = down_loop (pcmp q) (pupdate q) (psize q) (parray q ! index) index (parray q) s
        in Inr (q\<lparr>parray := xs\<rparr>, s')
      else Inl Out_Of_Bounds)"

definition PQUEUE_INIT_ARRAYSIZE :: nat where
  "PQUEUE_INIT_ARRAYSIZE = 32"

text \<open>
  \<open>nul\<close> is the null pointer that \<open>XCALLOC\<close> fills the array with. The client stores \<open>cmp\<close>
  in the new queue before it uses it (\<open>ospf_spf.c\<close>, \<open>isis_spf.c\<close>), so it is an argument.
\<close>

definition pqueue_create :: "'a \<Rightarrow> ('a \<Rightarrow> 'a \<Rightarrow> int) \<Rightarrow> ('a, 's) pqueue" where
  "pqueue_create nul cmp = \<lparr>parray = replicate PQUEUE_INIT_ARRAYSIZE nul, psize = 0, pcmp = cmp, pupdate = None\<rparr>"

text \<open>\<open>XCALLOC\<close> ends the process when memory runs out, so the \<open>return 0\<close> is never taken.\<close>

definition pqueue_expand :: "'a \<Rightarrow> ('a, 's) pqueue \<Rightarrow> ('a, 's) pqueue" where
  "pqueue_expand nul q = q\<lparr>parray := parray q @ replicate (length (parray q)) nul\<rparr>"

definition pqueue_enqueue :: "'a \<Rightarrow> 'a \<Rightarrow> ('a, 's) pqueue \<Rightarrow> 's \<Rightarrow> (('a, 's) pqueue \<times> 's) res" where
  "pqueue_enqueue nul data q s =
     (let q1 = (if psize q + 2 \<ge> length (parray q) then pqueue_expand nul q else q)
      in if psize q1 < length (parray q1) then
           rbind (trickle_up (psize q1) (q1\<lparr>parray := (parray q1)[psize q1 := data]\<rparr>)
                    (call_update (pupdate q1) data (psize q1) s))
             (\<lambda>(q2, s'). Inr (q2\<lparr>psize := psize q2 + 1\<rparr>, s'))
         else Inl Out_Of_Bounds)"

text \<open>On an empty queue \<open>--queue->size\<close> is -1 and the read is outside the array.\<close>

definition pqueue_dequeue :: "('a, 's) pqueue \<Rightarrow> 's \<Rightarrow> ('a \<times> ('a, 's) pqueue \<times> 's) res" where
  "pqueue_dequeue q s =
     (if 0 < psize q \<and> psize q \<le> length (parray q) then
        let data = parray q ! 0; n = psize q - 1 in
        rbind (trickle_down 0 (q\<lparr>parray := (parray q)[0 := parray q ! n], psize := n\<rparr>) s)
          (\<lambda>(q', s'). Inr (data, q', s'))
      else Inl Out_Of_Bounds)"

section \<open>The heap\<close>

text \<open>The comparison is a total preorder, as its description in \<open>lib/pqueue.c\<close> asks.\<close>

definition cmp_order :: "('a \<Rightarrow> 'a \<Rightarrow> int) \<Rightarrow> bool" where
  "cmp_order cmp \<longleftrightarrow> (\<forall>a b. cmp a b < 0 \<longleftrightarrow> cmp b a > 0) \<and>
     (\<forall>a b c. cmp a b \<le> 0 \<and> cmp b c \<le> 0 \<longrightarrow> cmp a c \<le> 0)"

lemma cmp_total: "cmp_order cmp \<Longrightarrow> \<not> cmp a b \<le> 0 \<Longrightarrow> cmp b a \<le> 0"
  unfolding cmp_order_def by (metis linorder_not_le order_less_imp_le)

lemma cmp_trans: "cmp_order cmp \<Longrightarrow> cmp a b \<le> 0 \<Longrightarrow> cmp b c \<le> 0 \<Longrightarrow> cmp a c \<le> 0"
  unfolding cmp_order_def by blast

lemma cmp_refl: "cmp_order cmp \<Longrightarrow> cmp a a \<le> 0"
  unfolding cmp_order_def by (metis less_asym linorder_not_le)

lemma cmp_not_less: "cmp_order cmp \<Longrightarrow> \<not> cmp a b < 0 \<Longrightarrow> cmp b a \<le> 0"
  unfolding cmp_order_def by (meson linorder_not_less)

lemma cmp_not_greater: "\<not> cmp a b > (0::int) \<Longrightarrow> cmp a b \<le> 0"
  by simp

definition heap :: "('a \<Rightarrow> 'a \<Rightarrow> int) \<Rightarrow> nat \<Rightarrow> 'a list \<Rightarrow> bool" where
  "heap cmp n xs \<longleftrightarrow> (\<forall>j. 0 < j \<and> j < n \<longrightarrow> cmp (xs ! PARENT_OF j) (xs ! j) \<le> 0)"

text \<open>A heap with a hole at \<open>i\<close>: links that do not touch \<open>i\<close> hold, and the children of the
  hole are not above its parent.\<close>

definition heap_but :: "('a \<Rightarrow> 'a \<Rightarrow> int) \<Rightarrow> nat \<Rightarrow> nat \<Rightarrow> 'a list \<Rightarrow> bool" where
  "heap_but cmp n i xs \<longleftrightarrow>
     (\<forall>j. 0 < j \<and> j < n \<and> j \<noteq> i \<and> PARENT_OF j \<noteq> i \<longrightarrow> cmp (xs ! PARENT_OF j) (xs ! j) \<le> 0) \<and>
     (\<forall>j. 0 < j \<and> j < n \<and> PARENT_OF j = i \<and> 0 < i \<longrightarrow> cmp (xs ! PARENT_OF i) (xs ! j) \<le> 0)"

lemma parent_less [simp]: "0 < j \<Longrightarrow> PARENT_OF j < j"
  by (auto simp: PARENT_OF_def)

lemma parent_neq [simp]: "0 < j \<Longrightarrow> PARENT_OF j \<noteq> j" "0 < j \<Longrightarrow> j \<noteq> PARENT_OF j"
  by (metis less_irrefl parent_less)+

lemma parent_iff: "0 < j \<Longrightarrow> PARENT_OF j = i \<longleftrightarrow> j = LEFT_OF i \<or> j = RIGHT_OF i"
  by (auto simp: PARENT_OF_def LEFT_OF_def RIGHT_OF_def)

lemma have_child_iff: "HAVE_CHILD i n \<longleftrightarrow> LEFT_OF i < n"
  by (auto simp: HAVE_CHILD_def LEFT_OF_def)

text \<open>Filling the hole.\<close>

lemma heap_fill:
  assumes "heap_but cmp n i xs" "i < length xs"
    "0 < i \<Longrightarrow> cmp (xs ! PARENT_OF i) x \<le> 0"
    "\<forall>j. 0 < j \<and> j < n \<and> PARENT_OF j = i \<longrightarrow> cmp x (xs ! j) \<le> 0"
  shows "heap cmp n (xs[i := x])"
  unfolding heap_def
proof (intro allI impI)
  fix j assume j: "0 < j \<and> j < n"
  then have p: "PARENT_OF j \<noteq> j" using parent_less [of j] by (simp add: less_imp_neq)
  consider "j = i" | "PARENT_OF j = i" "j \<noteq> i" | "j \<noteq> i" "PARENT_OF j \<noteq> i" by blast
  then show "cmp (xs[i := x] ! PARENT_OF j) (xs[i := x] ! j) \<le> 0"
    using assms j p by cases (auto simp: heap_but_def nth_list_update)
qed

lemma heap_but_up:
  assumes "cmp_order cmp" "heap_but cmp n i xs" "0 < i" "i < n" "n \<le> length xs"
  shows "heap_but cmp n (PARENT_OF i) (xs[i := xs ! PARENT_OF i])"
proof -
  let ?p = "PARENT_OF i" and ?ys = "xs[i := xs ! PARENT_OF i]"
  have p: "?p < i" using assms(3) by simp
  have link: "cmp (xs ! PARENT_OF j) (xs ! j) \<le> 0" if "0 < j" "j < n" "j \<noteq> i" "PARENT_OF j \<noteq> i" for j
    using assms(2) that by (auto simp: heap_but_def)
  have over: "cmp (xs ! ?p) (xs ! j) \<le> 0" if "0 < j" "j < n" "PARENT_OF j = i" for j
    using assms(2,3) that by (auto simp: heap_but_def)
  have "cmp (?ys ! PARENT_OF j) (?ys ! j) \<le> 0" if j: "0 < j" "j < n" "j \<noteq> ?p" "PARENT_OF j \<noteq> ?p" for j
  proof (cases "PARENT_OF j = i")
    case True
    then have "j \<noteq> i" using parent_less [OF j(1)] by auto
    then show ?thesis using True over [OF j(1,2)] assms(4,5) by simp
  next
    case False
    moreover have "j \<noteq> i" using j(4) by auto
    ultimately show ?thesis using link [OF j(1,2)] by simp
  qed
  moreover have "cmp (?ys ! PARENT_OF ?p) (?ys ! j) \<le> 0" if j: "0 < j" "j < n" "PARENT_OF j = ?p" "0 < ?p" for j
  proof -
    have pp: "PARENT_OF ?p < i" "PARENT_OF ?p \<noteq> i" using p parent_less [OF j(4)] by auto
    have up: "cmp (xs ! PARENT_OF ?p) (xs ! ?p) \<le> 0" using link [of ?p] p pp(2) j(4) assms(4) by simp
    show ?thesis
    proof (cases "j = i")
      case True
      then show ?thesis using up pp(2) assms(4,5) by simp
    next
      case False
      then have "cmp (xs ! ?p) (xs ! j) \<le> 0" using link [OF j(1,2)] j(3) p by auto
      then show ?thesis using up cmp_trans [OF assms(1)] False pp(2) by auto
    qed
  qed
  ultimately show ?thesis by (auto simp: heap_but_def)
qed

lemma up_loop_heap:
  "cmp_order cmp \<Longrightarrow> heap_but cmp n i xs \<Longrightarrow> i < n \<Longrightarrow> n \<le> length xs \<Longrightarrow>
   \<forall>j. 0 < j \<and> j < n \<and> PARENT_OF j = i \<longrightarrow> cmp tmp (xs ! j) \<le> 0 \<Longrightarrow>
   heap cmp n (fst (up_loop cmp upd tmp i xs s))"
proof (induction cmp upd tmp i xs s rule: up_loop.induct)
  case (1 cmp upd tmp i xs s)
  let ?p = "PARENT_OF i" and ?ys = "xs[i := xs ! PARENT_OF i]"
  show ?case
  proof (cases "0 < i \<and> cmp tmp (xs ! ?p) < 0")
    case True
    have p: "?p < i" using True by simp
    have "cmp tmp (?ys ! j) \<le> 0" if j: "0 < j" "j < n" "PARENT_OF j = ?p" for j
    proof (cases "j = i")
      case False
      then have "cmp (xs ! ?p) (xs ! j) \<le> 0" using "1.prems"(2) j p by (auto simp: heap_but_def)
      then show ?thesis using True cmp_trans [OF "1.prems"(1), of tmp "xs ! ?p" "xs ! j"] False by simp
    qed (use True "1.prems"(3,4) in simp)
    then have "heap cmp n (fst (up_loop cmp upd tmp ?p ?ys (call_update upd (xs ! ?p) i s)))"
      using "1.IH" [OF True "1.prems"(1) heap_but_up [OF "1.prems"(1,2)]] True p "1.prems"(3,4) by simp
    then show ?thesis using True by (subst up_loop.simps) simp
  next
    case False
    then have "0 < i \<Longrightarrow> cmp (xs ! ?p) tmp \<le> 0" using cmp_not_less [OF "1.prems"(1)] by blast
    then have "heap cmp n (xs[i := tmp])" using heap_fill [OF "1.prems"(2)] "1.prems"(3-5) by simp
    then show ?thesis using False by (subst up_loop.simps) auto
  qed
qed

lemma which_child_least:
  assumes "cmp_order cmp" "0 < j" "j < n" "PARENT_OF j = i"
  shows "cmp (xs ! which_child cmp n i xs) (xs ! j) \<le> 0"
proof -
  have j: "j = LEFT_OF i \<or> j = RIGHT_OF i" using parent_iff [OF assms(2), of i] assms(4) by simp
  then show ?thesis using cmp_refl [OF assms(1)] cmp_total [OF assms(1), of "xs ! LEFT_OF i" "xs ! RIGHT_OF i"] assms(3)
    by (auto simp: which_child_def)
qed

lemma which_child_parent: "PARENT_OF (which_child cmp n i xs) = i"
  by (simp add: which_child_def PARENT_OF_def LEFT_OF_def RIGHT_OF_def)

lemma heap_but_down:
  assumes "cmp_order cmp" "heap_but cmp n i xs" "HAVE_CHILD i n" "n \<le> length xs"
  defines "w \<equiv> which_child cmp n i xs"
  shows "heap_but cmp n w (xs[i := xs ! w])"
proof -
  let ?ys = "xs[i := xs ! w]"
  have w: "i < w" "w < n" "PARENT_OF w = i"
    using which_child_bounds [OF assms(3)] which_child_parent unfolding w_def by blast+
  have link: "cmp (xs ! PARENT_OF j) (xs ! j) \<le> 0" if "0 < j" "j < n" "j \<noteq> i" "PARENT_OF j \<noteq> i" for j
    using assms(2) that by (auto simp: heap_but_def)
  have "cmp (?ys ! PARENT_OF j) (?ys ! j) \<le> 0" if j: "0 < j" "j < n" "j \<noteq> w" "PARENT_OF j \<noteq> w" for j
  proof -
    consider "j = i" | "PARENT_OF j = i" "j \<noteq> i" | "j \<noteq> i" "PARENT_OF j \<noteq> i" by blast
    then show ?thesis
    proof cases
      case 1
      then have "PARENT_OF i \<noteq> i" "cmp (xs ! PARENT_OF i) (xs ! w) \<le> 0"
        using assms(2) j(1) w parent_neq [of i] by (auto simp: heap_but_def)
      then show ?thesis using 1 w assms(4) by simp
    next
      case 2
      then show ?thesis using which_child_least [OF assms(1) j(1,2)] w assms(4) by (simp add: w_def)
    next
      case 3
      then show ?thesis using link [OF j(1,2)] by simp
    qed
  qed
  moreover have "cmp (?ys ! PARENT_OF w) (?ys ! j) \<le> 0" if j: "0 < j" "j < n" "PARENT_OF j = w" for j
  proof -
    have "j \<noteq> i" using parent_less [OF j(1)] j(3) w(1) by auto
    then show ?thesis using link [OF j(1,2)] j(3) w assms(4) by simp
  qed
  ultimately show ?thesis by (auto simp: heap_but_def)
qed

lemma down_loop_heap:
  "cmp_order cmp \<Longrightarrow> heap_but cmp n i xs \<Longrightarrow> i < length xs \<Longrightarrow> n \<le> length xs \<Longrightarrow>
   0 < i \<longrightarrow> cmp (xs ! PARENT_OF i) tmp \<le> 0 \<Longrightarrow>
   heap cmp n (fst (down_loop cmp upd n tmp i xs s))"
proof (induction cmp upd n tmp i xs s rule: down_loop.induct)
  case (1 cmp upd n tmp i xs s)
  let ?w = "which_child cmp n i xs"
  show ?case
  proof (cases "HAVE_CHILD i n \<and> \<not> cmp (xs ! ?w) tmp > 0")
    case True
    have w: "i < ?w" "?w < n" "PARENT_OF ?w = i"
      using which_child_bounds [of i n] which_child_parent True by blast+
    have "heap cmp n (fst (down_loop cmp upd n tmp ?w (xs[i := xs ! ?w]) (call_update upd (xs ! ?w) i s)))"
      using "1.IH" [OF True refl "1.prems"(1) heap_but_down [OF "1.prems"(1,2)]] True w "1.prems"(3,4) by simp
    then show ?thesis using True by (subst down_loop.simps) (simp add: Let_def)
  next
    case False
    have "cmp tmp (xs ! j) \<le> 0" if j: "0 < j" "j < n" "PARENT_OF j = i" for j
    proof -
      have "HAVE_CHILD i n" using j parent_iff [OF j(1)] by (auto simp: have_child_iff LEFT_OF_def RIGHT_OF_def)
      then have "cmp tmp (xs ! ?w) \<le> 0" using False cmp_total [OF "1.prems"(1), of "xs ! ?w" tmp] by simp
      then show ?thesis using cmp_trans [OF "1.prems"(1)] which_child_least [OF "1.prems"(1) j] by blast
    qed
    then have "heap cmp n (xs[i := tmp])" using heap_fill [OF "1.prems"(2)] "1.prems"(3,5) by simp
    then show ?thesis using False by (subst down_loop.simps) auto
  qed
qed

subsection \<open>The nodes are permuted\<close>

lemma mset_hole_move:
  assumes "i < length xs" "k < length xs" "i \<noteq> k"
  shows "mset (xs[i := xs ! k, k := x]) = mset (xs[i := x])"
proof -
  have "xs[i := xs ! k, k := x] = (xs[i := x])[k := (xs[i := x]) ! i, i := (xs[i := x]) ! k]"
    using assms by (intro nth_equalityI) (auto simp: nth_list_update)
  then show ?thesis using assms mset_swap [of i "xs[i := x]" k] by simp
qed

lemma up_loop_mset:
  "i < n \<Longrightarrow> n \<le> length xs \<Longrightarrow>
   mset (fst (up_loop cmp upd tmp i xs s)) = mset (xs[i := tmp]) \<and>
   length (fst (up_loop cmp upd tmp i xs s)) = length xs \<and>
   drop n (fst (up_loop cmp upd tmp i xs s)) = drop n xs"
proof (induction cmp upd tmp i xs s rule: up_loop.induct)
  case (1 cmp upd tmp i xs s)
  let ?p = "PARENT_OF i"
  show ?case
  proof (cases "0 < i \<and> cmp tmp (xs ! ?p) < 0")
    case True
    then have p: "?p < i" by simp
    have "mset (xs[i := xs ! ?p, ?p := tmp]) = mset (xs[i := tmp])"
      using mset_hole_move [of i xs ?p tmp] p "1.prems" by simp
    then show ?thesis using "1.IH" [OF True] "1.prems" True p by (subst (1 2 3) up_loop.simps) auto
  next
    case False
    then show ?thesis using "1.prems" by (subst (1 2 3) up_loop.simps) auto
  qed
qed

lemma down_loop_mset:
  "i < length xs \<Longrightarrow> n \<le> length xs \<Longrightarrow>
   mset (fst (down_loop cmp upd n tmp i xs s)) = mset (xs[i := tmp]) \<and>
   length (fst (down_loop cmp upd n tmp i xs s)) = length xs \<and>
   (i < n \<longrightarrow> drop n (fst (down_loop cmp upd n tmp i xs s)) = drop n xs)"
proof (induction cmp upd n tmp i xs s rule: down_loop.induct)
  case (1 cmp upd n tmp i xs s)
  let ?w = "which_child cmp n i xs"
  show ?case
  proof (cases "HAVE_CHILD i n \<and> \<not> cmp (xs ! ?w) tmp > 0")
    case True
    then have w: "i < ?w" "?w < n" using which_child_bounds [of i n] by blast+
    have "mset (xs[i := xs ! ?w, ?w := tmp]) = mset (xs[i := tmp])"
      using mset_hole_move [of i xs ?w tmp] w "1.prems" by simp
    then show ?thesis using "1.IH" [OF True refl] "1.prems" True w
      by (subst (1 2 3) down_loop.simps) (auto simp: Let_def)
  next
    case False
    then show ?thesis using "1.prems" by (subst (1 2 3) down_loop.simps) auto
  qed
qed

lemma mset_take:
  "mset xs = mset ys \<Longrightarrow> drop n xs = drop n ys \<Longrightarrow> mset (take n xs) = mset (take n ys)"
  by (metis add_right_cancel append_take_drop_id mset_append)

section \<open>The operations\<close>

definition pq_ok :: "('a, 's) pqueue \<Rightarrow> bool" where
  "pq_ok q \<longleftrightarrow> cmp_order (pcmp q) \<and> psize q \<le> length (parray q) \<and> 0 < length (parray q) \<and>
     heap (pcmp q) (psize q) (parray q)"

definition nodes :: "('a, 's) pqueue \<Rightarrow> 'a multiset" where
  "nodes q = mset (take (psize q) (parray q))"

lemma heap_nth: "heap cmp n xs \<Longrightarrow> n \<le> length ys \<Longrightarrow> \<forall>j < n. ys ! j = xs ! j \<Longrightarrow> heap cmp n ys"
  unfolding heap_def using parent_less by (metis order_less_trans)

lemma heap_but_end:
  "heap cmp n xs \<Longrightarrow> heap_but cmp (Suc n) n (xs[n := x])"
  by (auto simp: heap_def heap_but_def nth_list_update dest: parent_less)

lemma pq_ok_create:
  "cmp_order cmp \<Longrightarrow> pq_ok (pqueue_create nul cmp)" "nodes (pqueue_create nul cmp) = {#}"
  by (simp_all add: pq_ok_def nodes_def pqueue_create_def heap_def PQUEUE_INIT_ARRAYSIZE_def)

lemma enqueue_loop:
  assumes "psize q \<le> length (parray q)" "0 < length (parray q)"
  obtains xs where "psize q < length xs" "take (psize q) xs = take (psize q) (parray q)" "xs ! psize q = x"
    "pqueue_enqueue nul x q s =
       (let r = up_loop (pcmp q) (pupdate q) x (psize q) xs (call_update (pupdate q) x (psize q) s)
        in Inr (q\<lparr>parray := fst r, psize := Suc (psize q)\<rparr>, snd r))"
proof -
  define q1 where "q1 = (if psize q + 2 \<ge> length (parray q) then pqueue_expand nul q else q)"
  have q1: "q1\<lparr>parray := xs\<rparr> = q\<lparr>parray := xs\<rparr>" "psize q1 = psize q" "pcmp q1 = pcmp q" "pupdate q1 = pupdate q"
    "psize q < length (parray q1)" "take (psize q) (parray q1) = take (psize q) (parray q)" for xs
    using assms by (auto simp: q1_def pqueue_expand_def simp del: length_greater_0_conv)
  let ?xs = "(parray q1)[psize q := x]"
  have "pqueue_enqueue nul x q s =
      (if psize q1 < length (parray q1) then
         rbind (trickle_up (psize q1) (q1\<lparr>parray := (parray q1)[psize q1 := x]\<rparr>)
                  (call_update (pupdate q1) x (psize q1) s))
           (\<lambda>(q2, s'). Inr (q2\<lparr>psize := psize q2 + 1\<rparr>, s'))
       else Inl Out_Of_Bounds)"
    unfolding pqueue_enqueue_def Let_def q1_def ..
  then have "pqueue_enqueue nul x q s =
       (let r = up_loop (pcmp q) (pupdate q) x (psize q) ?xs (call_update (pupdate q) x (psize q) s)
        in Inr (q\<lparr>parray := fst r, psize := Suc (psize q)\<rparr>, snd r))"
    using q1 by (simp add: trickle_up_def split_beta Let_def)
  then show ?thesis using that [of ?xs] q1(5,6) by simp
qed

lemma enqueue_spec:
  assumes "pq_ok q"
  shows "\<exists>q' s'. pqueue_enqueue nul x q s = Inr (q', s') \<and> pq_ok q' \<and> pcmp q' = pcmp q \<and>
    nodes q' = add_mset x (nodes q)"
proof -
  let ?n = "psize q"
  have ok: "cmp_order (pcmp q)" "?n \<le> length (parray q)" "0 < length (parray q)"
    "heap (pcmp q) ?n (parray q)" using assms by (simp_all add: pq_ok_def)
  obtain xs where xs: "?n < length xs" "take ?n xs = take ?n (parray q)" "xs ! ?n = x"
    "pqueue_enqueue nul x q s =
       (let r = up_loop (pcmp q) (pupdate q) x ?n xs (call_update (pupdate q) x ?n s)
        in Inr (q\<lparr>parray := fst r, psize := Suc ?n\<rparr>, snd r))"
    using enqueue_loop [OF ok(2,3)] by blast
  define r where "r = up_loop (pcmp q) (pupdate q) x ?n xs (call_update (pupdate q) x ?n s)"
  have "\<forall>j < ?n. xs ! j = parray q ! j" using xs(2) by (metis nth_take)
  then have "heap (pcmp q) ?n xs" using heap_nth [OF ok(4)] xs(1) by simp
  then have hb: "heap_but (pcmp q) (Suc ?n) ?n xs" using heap_but_end [of _ ?n xs x] xs(3) by (metis list_update_id)
  have "heap (pcmp q) (Suc ?n) (fst r)" unfolding r_def
    by (rule up_loop_heap [OF ok(1) hb]) (use xs(1) in \<open>auto dest: parent_less\<close>)
  moreover have m: "mset (fst r) = mset xs" "length (fst r) = length xs" "drop (Suc ?n) (fst r) = drop (Suc ?n) xs"
    using up_loop_mset [of ?n "Suc ?n" xs "pcmp q" "pupdate q" x "call_update (pupdate q) x ?n s"] xs(1,3)
      list_update_id [of xs ?n] by (simp_all add: r_def)
  moreover have "mset (take (Suc ?n) (fst r)) = add_mset x (mset (take ?n (parray q)))"
    using mset_take [OF m(1,3)] xs by (simp add: take_Suc_conv_app_nth)
  ultimately show ?thesis using xs(1,4) ok(1) by (auto simp: pq_ok_def nodes_def r_def Let_def)
qed

lemma heap_root:
  assumes "cmp_order cmp" "heap cmp n xs" "j < n"
  shows "cmp (xs ! 0) (xs ! j) \<le> 0"
  using assms(3)
proof (induction j rule: less_induct)
  case (less j)
  show ?case
  proof (cases "j = 0")
    case True
    then show ?thesis using cmp_refl [OF assms(1)] by simp
  next
    case False
    then have "cmp (xs ! 0) (xs ! PARENT_OF j) \<le> 0" "cmp (xs ! PARENT_OF j) (xs ! j) \<le> 0"
      using less assms(2) parent_less [of j] by (auto simp: heap_def)
    then show ?thesis using cmp_trans [OF assms(1)] by blast
  qed
qed

lemma heap_but_root: "heap cmp (Suc n) xs \<Longrightarrow> heap_but cmp n 0 (xs[0 := x])"
  by (auto simp: heap_def heap_but_def nth_list_update)

lemma dequeue_spec:
  assumes ok: "pq_ok q" and n: "psize q = Suc n"
  shows "\<exists>q' s'. pqueue_dequeue q s = Inr (parray q ! 0, q', s') \<and> pq_ok q' \<and> pcmp q' = pcmp q \<and>
    nodes q = add_mset (parray q ! 0) (nodes q') \<and> (\<forall>y \<in># nodes q. pcmp q (parray q ! 0) y \<le> 0)"
proof -
  have assms: "cmp_order (pcmp q)" "pq_ok q" "psize q = Suc n" using ok n by (simp_all add: pq_ok_def)
  let ?a = "parray q"
  define xs where "xs = ?a[0 := ?a ! n]"
  define r where "r = down_loop (pcmp q) (pupdate q) n (xs ! 0) 0 xs s"
  have len: "n < length ?a" "length xs = length ?a" "heap (pcmp q) (Suc n) ?a"
    using assms(2,3) by (auto simp: pq_ok_def xs_def)
  have h: "heap (pcmp q) n (fst r)" unfolding r_def
    by (rule down_loop_heap [OF assms(1)]) (use heap_but_root [OF len(3)] len in \<open>auto simp: xs_def\<close>)
  have m: "mset (fst r) = mset xs" "length (fst r) = length xs" "0 < n \<longrightarrow> drop n (fst r) = drop n xs"
    using down_loop_mset [of 0 xs n "pcmp q" "pupdate q" "xs ! 0" s] len by (simp_all add: r_def del: length_greater_0_conv)
  have t: "mset (take n (fst r)) = mset (take n xs)" using m mset_take [OF m(1)] by (cases n) auto
  obtain y ys where y: "take (Suc n) ?a = y # ys" using len(1) by (cases ?a) auto
  then have y0: "?a ! 0 = y" by (metis nth_Cons_0 nth_take zero_less_Suc)
  have "mset (take (Suc n) ?a) = add_mset (?a ! 0) (mset (take n xs))"
  proof (cases n)
    case 0
    then show ?thesis using len(1) by (simp add: take_Suc_conv_app_nth)
  next
    case (Suc k)
    let ?m = "tl (take n ?a)"
    have n: "take n ?a = ?a ! 0 # ?m" using Suc len(1) by (cases ?a) auto
    have "take (Suc n) ?a = take n ?a @ [?a ! n]" using len(1) by (simp add: take_Suc_conv_app_nth)
    then have "take (Suc n) ?a = ?a ! 0 # ?m @ [?a ! n]" using n by (metis append_Cons)
    moreover have "take n xs = ?a ! n # ?m"
      using n by (metis list_update_code(2) take_update_swap xs_def)
    ultimately show ?thesis by simp
  qed
  moreover have "pqueue_dequeue q s = Inr (?a ! 0, q\<lparr>parray := fst r, psize := n\<rparr>, snd r)"
    using len assms(2,3) by (simp add: pq_ok_def pqueue_dequeue_def trickle_down_def r_def xs_def Let_def split_beta)
  moreover have "\<forall>y \<in># nodes q. pcmp q (?a ! 0) y \<le> 0"
    using heap_root [OF assms(1) len(3)] len assms(3) by (auto simp: nodes_def in_set_conv_nth)
  ultimately show ?thesis using h t m(2) len assms(1,3)
    by (intro exI [of _ "q\<lparr>parray := fst r, psize := n\<rparr>"] exI [of _ "snd r"]) (auto simp: pq_ok_def nodes_def)
qed

subsection \<open>The positions that clients are told\<close>

definition told :: "('a \<Rightarrow> nat) \<Rightarrow> nat \<Rightarrow> nat \<Rightarrow> 'a \<Rightarrow> 'a list \<Rightarrow> bool" where
  "told s n i tmp xs \<longleftrightarrow> (\<forall>j < n. j \<noteq> i \<longrightarrow> s (xs ! j) = j \<and> xs ! j \<noteq> tmp) \<and>
     (\<forall>j < n. \<forall>k < n. j \<noteq> i \<and> k \<noteq> i \<and> j \<noteq> k \<longrightarrow> xs ! j \<noteq> xs ! k)"

definition track :: "('a, 'a \<Rightarrow> nat) update" where
  "track = Some (\<lambda>x i s. s(x := i))"

lemma told_move:
  "told s n i tmp xs \<Longrightarrow> i < length xs \<Longrightarrow> k < n \<Longrightarrow> k \<noteq> i \<Longrightarrow>
   told (s(xs ! k := i)) n k tmp (xs[i := xs ! k])"
  unfolding told_def by (auto simp: nth_list_update)

lemma told_fill:
  "told s n i tmp xs \<Longrightarrow> i < length xs \<Longrightarrow> \<forall>j < n. (s(tmp := i)) ((xs[i := tmp]) ! j) = j"
  unfolding told_def by (auto simp: nth_list_update)

lemma up_loop_told:
  "told s n i tmp xs \<Longrightarrow> i < n \<Longrightarrow> n \<le> length xs \<Longrightarrow> up_loop cmp track tmp i xs s = (ys, s') \<Longrightarrow>
   \<forall>j < n. s' (ys ! j) = j"
proof (induction cmp "track :: ('a, 'a \<Rightarrow> nat) update" tmp i xs s rule: up_loop.induct)
  case (1 cmp tmp i xs s)
  let ?p = "PARENT_OF i"
  show ?case
  proof (cases "0 < i \<and> cmp tmp (xs ! ?p) < 0")
    case True
    then have p: "?p < i" by simp
    have "up_loop cmp track tmp ?p (xs[i := xs ! ?p]) (s(xs ! ?p := i)) = (ys, s')"
      using "1.prems"(4) True by (subst (asm) up_loop.simps) (simp add: call_update_def track_def)
    then show ?thesis using "1.hyps" [OF True] told_move [OF "1.prems"(1), of ?p] p "1.prems"(2,3)
      by (simp add: call_update_def track_def)
  next
    case False
    then have "ys = xs[i := tmp]" "s' = s(tmp := i)"
      using "1.prems"(4) by (subst (asm) up_loop.simps, auto simp: call_update_def track_def)+
    then show ?thesis using told_fill [OF "1.prems"(1)] "1.prems"(2,3) by simp
  qed
qed

lemma down_loop_told:
  "told s n i tmp xs \<Longrightarrow> i < length xs \<Longrightarrow> n \<le> length xs \<Longrightarrow> down_loop cmp track n tmp i xs s = (ys, s') \<Longrightarrow>
   \<forall>j < n. s' (ys ! j) = j"
proof (induction cmp "track :: ('a, 'a \<Rightarrow> nat) update" n tmp i xs s rule: down_loop.induct)
  case (1 cmp n tmp i xs s)
  let ?w = "which_child cmp n i xs"
  show ?case
  proof (cases "HAVE_CHILD i n \<and> \<not> cmp (xs ! ?w) tmp > 0")
    case True
    then have w: "i < ?w" "?w < n" using which_child_bounds [of i n] by blast+
    have "down_loop cmp track n tmp ?w (xs[i := xs ! ?w]) (s(xs ! ?w := i)) = (ys, s')"
      using "1.prems"(4) True by (subst (asm) down_loop.simps) (simp add: call_update_def track_def Let_def)
    then show ?thesis using "1.hyps" [OF True refl] told_move [OF "1.prems"(1), of ?w] w "1.prems"(2,3)
      by (simp add: call_update_def track_def)
  next
    case False
    then have "ys = xs[i := tmp]" "s' = s(tmp := i)"
      using "1.prems"(4) by (subst (asm) down_loop.simps, auto simp: call_update_def track_def)+
    then show ?thesis using told_fill [OF "1.prems"(1)] "1.prems"(2,3) by simp
  qed
qed

section \<open>The interface\<close>

fun enq_all :: "('a \<Rightarrow> 'q \<Rightarrow> 'q res) \<Rightarrow> 'a list \<Rightarrow> 'q \<Rightarrow> 'q res" where
  "enq_all enq [] q = Inr q"
| "enq_all enq (x # xs) q = rbind (enq x q) (enq_all enq xs)"

fun deq_n :: "('q \<Rightarrow> ('a \<times> 'q) res) \<Rightarrow> nat \<Rightarrow> 'q \<Rightarrow> ('a list \<times> 'q) res" where
  "deq_n deq 0 q = Inr ([], q)"
| "deq_n deq (Suc n) q = rbind (deq q) (\<lambda>(x, q'). rbind (deq_n deq n q') (\<lambda>(xs, q''). Inr (x # xs, q'')))"

text \<open>What a client of a priority queue relies on; the order \<open>le q\<close> belongs to the queue.\<close>

locale priority_queue =
  fixes ok :: "'q \<Rightarrow> bool" and elems :: "'q \<Rightarrow> 'a multiset" and le :: "'q \<Rightarrow> 'a \<Rightarrow> 'a \<Rightarrow> bool"
    and enq :: "'a \<Rightarrow> 'q \<Rightarrow> 'q res" and deq :: "'q \<Rightarrow> ('a \<times> 'q) res"
  assumes enq_law: "ok q \<Longrightarrow> \<exists>q'. enq x q = Inr q' \<and> ok q' \<and> le q' = le q \<and> elems q' = add_mset x (elems q)"
    and deq_law: "ok q \<Longrightarrow> elems q \<noteq> {#} \<Longrightarrow>
      \<exists>x q'. deq q = Inr (x, q') \<and> ok q' \<and> le q' = le q \<and> elems q = add_mset x (elems q') \<and>
        (\<forall>y \<in># elems q. le q x y)"
begin

lemma enq_all_law:
  "ok q \<Longrightarrow> \<exists>q'. enq_all enq xs q = Inr q' \<and> ok q' \<and> le q' = le q \<and> elems q' = mset xs + elems q"
proof (induction xs arbitrary: q)
  case (Cons x xs)
  then obtain q1 where q1: "enq x q = Inr q1" "ok q1" "le q1 = le q" "elems q1 = add_mset x (elems q)"
    using enq_law by blast
  with Cons.IH [OF q1(2)] show ?case by auto
qed simp

lemma deq_n_law:
  "ok q \<Longrightarrow> size (elems q) = n \<Longrightarrow>
   \<exists>xs q'. deq_n deq n q = Inr (xs, q') \<and> elems q' = {#} \<and> mset xs = elems q \<and> sorted_wrt (le q) xs"
proof (induction n arbitrary: q)
  case (Suc n)
  then have "elems q \<noteq> {#}" by auto
  then obtain x q1 where x: "deq q = Inr (x, q1)" "ok q1" "le q1 = le q" "elems q = add_mset x (elems q1)"
    "\<forall>y \<in># elems q. le q x y" using deq_law Suc.prems by blast
  have "size (elems q1) = n" using Suc.prems(2) x(4) by simp
  then obtain xs q' where xs: "deq_n deq n q1 = Inr (xs, q')" "elems q' = {#}" "mset xs = elems q1"
    "sorted_wrt (le q) xs" using Suc.IH [OF x(2)] x(3) by auto
  then have "\<forall>y \<in> set xs. le q x y" using x(4,5) by (metis set_mset_mset insert_iff set_mset_add_mset_insert)
  then show ?case using x(1,4) xs by simp
qed simp

lemma enq_deq_sorts:
  assumes "ok q" "elems q = {#}"
  shows "\<exists>q1 ys q2. enq_all enq xs q = Inr q1 \<and> deq_n deq (length xs) q1 = Inr (ys, q2) \<and>
    elems q2 = {#} \<and> mset ys = mset xs \<and> sorted_wrt (le q) ys"
proof -
  obtain q1 where q1: "enq_all enq xs q = Inr q1" "ok q1" "le q1 = le q" "elems q1 = mset xs"
    using enq_all_law [OF assms(1), of xs] assms(2) by auto
  then show ?thesis using deq_n_law [OF q1(2), of "length xs"] by auto
qed

end

definition pq_enq :: "'a \<Rightarrow> 'a \<Rightarrow> ('a, 's) pqueue \<times> 's \<Rightarrow> (('a, 's) pqueue \<times> 's) res" where
  "pq_enq nul x st = pqueue_enqueue nul x (fst st) (snd st)"

definition pq_deq :: "('a, 's) pqueue \<times> 's \<Rightarrow> ('a \<times> ('a, 's) pqueue \<times> 's) res" where
  "pq_deq st = pqueue_dequeue (fst st) (snd st)"

interpretation pq: priority_queue "\<lambda>st. pq_ok (fst st)" "\<lambda>st. nodes (fst st)" "\<lambda>st x y. pcmp (fst st) x y \<le> 0"
  "pq_enq nul" pq_deq for nul
proof
  fix q :: "('a, 's) pqueue \<times> 's" and x :: 'a
  assume "pq_ok (fst q)"
  from enqueue_spec [OF this, of nul x "snd q"]
  show "\<exists>q'. pq_enq nul x q = Inr q' \<and> pq_ok (fst q') \<and> (\<lambda>x y. pcmp (fst q') x y \<le> 0) = (\<lambda>x y. pcmp (fst q) x y \<le> 0) \<and>
      nodes (fst q') = add_mset x (nodes (fst q))"
    by (auto simp: pq_enq_def)
next
  fix q :: "('a, 's) pqueue \<times> 's"
  assume q: "pq_ok (fst q)" "nodes (fst q) \<noteq> {#}"
  then obtain n where n: "psize (fst q) = Suc n" by (cases "psize (fst q)") (auto simp: nodes_def)
  from dequeue_spec [OF q(1) n, of "snd q"]
  show "\<exists>x q'. pq_deq q = Inr (x, q') \<and> pq_ok (fst q') \<and>
      (\<lambda>x y. pcmp (fst q') x y \<le> 0) = (\<lambda>x y. pcmp (fst q) x y \<le> 0) \<and>
      nodes (fst q) = add_mset x (nodes (fst q')) \<and> (\<forall>y \<in># nodes (fst q). pcmp (fst q) x y \<le> 0)"
    by (auto simp: pq_deq_def)
qed

lemma dequeue_all_empty:
  "pq_ok (fst st) \<Longrightarrow> size (nodes (fst st)) = n \<Longrightarrow> \<exists>ys st'. deq_n pq_deq n st = Inr (ys, st') \<and> psize (fst st') = 0"
proof (induction n arbitrary: st)
  case 0
  then show ?case by (auto simp: pq_ok_def nodes_def)
next
  case (Suc n)
  then have "nodes (fst st) \<noteq> {#}" by auto
  then obtain x st1 where "pq_deq st = Inr (x, st1)" "pq_ok (fst st1)" "nodes (fst st) = add_mset x (nodes (fst st1))"
    using pq.deq_law [OF Suc.prems(1)] by blast
  then show ?case using Suc.IH [of st1] Suc.prems(2) by auto
qed

section \<open>Properties\<close>

definition nat_cmp :: "nat \<Rightarrow> nat \<Rightarrow> int" where
  "nat_cmp a b = int a - int b"

lemma nat_cmp_order: "cmp_order nat_cmp"
  by (auto simp: cmp_order_def nat_cmp_def)

text \<open>C5: For every comparison that is a total preorder, putting any sequence of nodes
  into a new queue and taking as many out never leaves the array (which grows by doubling)
  and returns the same nodes, least first, whatever the \<open>update\<close> callback does.\<close>

theorem pqueue_sorts:
  assumes "cmp_order cmp"
  shows "\<exists>st ys st'. enq_all (pq_enq nul) xs ((pqueue_create nul cmp)\<lparr>pupdate := upd\<rparr>, s) = Inr st \<and>
    deq_n pq_deq (length xs) st = Inr (ys, st') \<and> mset ys = mset xs \<and>
    sorted_wrt (\<lambda>x y. cmp x y \<le> 0) ys \<and> psize (fst st') = 0"
proof -
  let ?q = "((pqueue_create nul cmp)\<lparr>pupdate := upd\<rparr>, s)"
  have ok: "pq_ok (fst ?q)" "nodes (fst ?q) = {#}"
    using pq_ok_create(1) [OF assms] by (simp_all add: pq_ok_def nodes_def pqueue_create_def)
  obtain st ys st' where st: "enq_all (pq_enq nul) xs ?q = Inr st" "deq_n pq_deq (length xs) st = Inr (ys, st')"
    "nodes (fst st') = {#}" "mset ys = mset xs" "sorted_wrt (\<lambda>x y. pcmp (fst ?q) x y \<le> 0) ys"
    using pq.enq_deq_sorts [OF ok] by blast
  obtain st1 where st1: "enq_all (pq_enq nul) xs ?q = Inr st1" "pq_ok (fst st1)" "nodes (fst st1) = mset xs"
    using pq.enq_all_law [OF ok(1)] ok(2) by fastforce
  obtain ys2 st2 where st2: "deq_n pq_deq (length xs) st = Inr (ys2, st2)" "psize (fst st2) = 0"
    using dequeue_all_empty [of st "length xs"] st1 st(1) by auto
  then have "st2 = st'" "sorted_wrt (\<lambda>x y. cmp x y \<le> 0) ys" using st(2,5) by (simp_all add: pqueue_create_def)
  then show ?thesis using st(1,2,4) st2(2) by blast
qed

theorem pqueue_sorts_witness:
  "\<exists>st ys st'. enq_all (pq_enq 0) [3, 1, 2] ((pqueue_create 0 nat_cmp)\<lparr>pupdate := None\<rparr>, ()) = Inr st \<and>
    deq_n pq_deq (length [3, 1, 2 :: nat]) st = Inr (ys, st') \<and> mset ys = mset [3, 1, 2] \<and>
    sorted_wrt (\<lambda>x y. nat_cmp x y \<le> 0) ys \<and> psize (fst st') = 0"
  by (rule pqueue_sorts [OF nat_cmp_order])

text \<open>Every node in the queue has been told its position.\<close>

definition positions :: "('a, 'a \<Rightarrow> nat) pqueue \<Rightarrow> ('a \<Rightarrow> nat) \<Rightarrow> bool" where
  "positions q s \<longleftrightarrow> distinct (take (psize q) (parray q)) \<and> (\<forall>j < psize q. s (parray q ! j) = j)"

lemma dequeue_loop:
  assumes "psize q = Suc n" "Suc n \<le> length (parray q)"
  shows "pqueue_dequeue q s =
    (let r = down_loop (pcmp q) (pupdate q) n (parray q ! n) 0 ((parray q)[0 := parray q ! n]) s
     in Inr (parray q ! 0, q\<lparr>parray := fst r, psize := n\<rparr>, snd r))"
proof -
  have "parray q \<noteq> []" using assms by auto
  then show ?thesis using assms by (simp add: pqueue_dequeue_def trickle_down_def Let_def split_beta)
qed

lemma enqueue_positions:
  assumes "pq_ok q" "pupdate q = track" "positions q s" "x \<notin># nodes q"
  shows "\<exists>q' s'. pqueue_enqueue nul x q s = Inr (q', s') \<and> psize q' = Suc (psize q) \<and> positions q' s'"
proof -
  let ?n = "psize q"
  have ok: "?n \<le> length (parray q)" "0 < length (parray q)" using assms(1) by (simp_all add: pq_ok_def)
  obtain xs where xs: "?n < length xs" "take ?n xs = take ?n (parray q)" "xs ! ?n = x"
    "pqueue_enqueue nul x q s =
       (let r = up_loop (pcmp q) (pupdate q) x ?n xs (call_update (pupdate q) x ?n s)
        in Inr (q\<lparr>parray := fst r, psize := Suc ?n\<rparr>, snd r))"
    using enqueue_loop [OF ok] by blast
  define r where "r = up_loop (pcmp q) track x ?n xs (s(x := ?n))"
  have q': "pqueue_enqueue nul x q s = Inr (q\<lparr>parray := fst r, psize := Suc ?n\<rparr>, snd r)"
    using xs(4) assms(2) by (simp add: r_def call_update_def track_def Let_def)
  have "nodes (q\<lparr>parray := fst r, psize := Suc ?n\<rparr>) = add_mset x (nodes q)"
    using enqueue_spec [OF assms(1), of nul x s] q' by auto
  then have "mset (take (Suc ?n) (fst r)) = mset (x # take ?n (parray q))" by (simp add: nodes_def)
  moreover have "distinct (x # take ?n (parray q))" using assms(3,4) by (simp add: positions_def nodes_def)
  ultimately have d: "distinct (take (Suc ?n) (fst r))" using mset_eq_imp_distinct_iff by blast
  have nth: "xs ! j = parray q ! j" if "j < ?n" for j using xs(2) that by (metis nth_take)
  have "s (parray q ! j) = j \<and> parray q ! j \<noteq> x" if "j < ?n" for j
    using assms(3,4) that ok(1) by (auto simp: positions_def nodes_def in_set_conv_nth)
  moreover have "parray q ! j \<noteq> parray q ! k" if "j < ?n" "k < ?n" "j \<noteq> k" for j k
    using assms(3) that ok(1) by (auto simp: positions_def distinct_conv_nth)
  ultimately have "told (s(x := ?n)) (Suc ?n) ?n x xs" using nth by (auto simp: told_def less_Suc_eq)
  then have "\<forall>j < Suc ?n. snd r (fst r ! j) = j"
    using up_loop_told [of _ "Suc ?n" ?n x xs "pcmp q" "fst r" "snd r"] xs(1) by (simp add: r_def)
  then show ?thesis using q' d by (simp add: positions_def)
qed

lemma dequeue_positions:
  assumes "pq_ok q" "pupdate q = track" "positions q s" "psize q = Suc n"
  shows "\<exists>q' s'. pqueue_dequeue q s = Inr (parray q ! 0, q', s') \<and> psize q' = n \<and> positions q' s'"
proof -
  let ?a = "parray q" and ?xs = "(parray q)[0 := parray q ! n]"
  have ok: "Suc n \<le> length ?a" using assms(1,4) by (simp add: pq_ok_def)
  define r where "r = down_loop (pcmp q) track n (?a ! n) 0 ?xs s"
  have q': "pqueue_dequeue q s = Inr (?a ! 0, q\<lparr>parray := fst r, psize := n\<rparr>, snd r)"
    using dequeue_loop [OF assms(4) ok] assms(2) by (simp add: r_def Let_def)
  have "mset (take (Suc n) ?a) = add_mset (?a ! 0) (mset (take n (fst r)))"
    using dequeue_spec [OF assms(1,4), of s] q' assms(4) by (auto simp: nodes_def)
  then have "mset (take (Suc n) ?a) = mset (?a ! 0 # take n (fst r))" by simp
  then have d: "distinct (take n (fst r))"
    using mset_eq_imp_distinct_iff assms(3,4) unfolding positions_def by (metis distinct.simps(2))
  have ne: "?a ! j \<noteq> ?a ! k" if "j < Suc n" "k < Suc n" "j \<noteq> k" for j k
    using assms(3,4) that ok by (auto simp: positions_def distinct_conv_nth)
  have "told s n 0 (?a ! n) ?xs"
    using ne assms(3,4) by (auto simp: told_def positions_def nth_list_update)
  then have "\<forall>j < n. snd r (fst r ! j) = j"
    using down_loop_told [of s n 0 "?a ! n" ?xs "pcmp q" "fst r" "snd r"] ok
    by (simp add: r_def del: length_greater_0_conv)
  then show ?thesis using q' d by (simp add: positions_def)
qed

text \<open>C6: When \<open>update\<close> stores the position in the node (as \<open>update_stat\<close> of \<open>ospf_spf.c\<close>
  does), every node in the queue knows its index in the array after every enqueue of a new
  node and every dequeue from a queue that is not empty.\<close>

theorem pqueue_positions_tracked:
  assumes "pq_ok q" "pupdate q = track" "positions q s"
  shows "(x \<notin># nodes q \<longrightarrow> (\<exists>q' s'. pqueue_enqueue nul x q s = Inr (q', s') \<and>
      psize q' = Suc (psize q) \<and> positions q' s')) \<and>
    (0 < psize q \<longrightarrow> (\<exists>q' s'. pqueue_dequeue q s = Inr (parray q ! 0, q', s') \<and>
      psize q' = psize q - 1 \<and> positions q' s'))"
  using enqueue_positions [OF assms] dequeue_positions [OF assms] by (cases "psize q") auto

definition pq_ex :: "(nat, nat \<Rightarrow> nat) pqueue" where
  "pq_ex = \<lparr>parray = [4, 6, 0, 0], psize = 2, pcmp = nat_cmp, pupdate = track\<rparr>"

theorem pqueue_positions_tracked_witness:
  "pq_ok pq_ex \<and> positions pq_ex ((\<lambda>x. 0)(6 := 1)) \<and>
   (\<exists>q' s'. pqueue_enqueue 0 2 pq_ex ((\<lambda>x. 0)(6 := 1)) = Inr (q', s') \<and> psize q' = 3 \<and> positions q' s')"
proof -
  have ok: "pq_ok pq_ex"
    by (auto simp: pq_ok_def pq_ex_def nat_cmp_order heap_def PARENT_OF_def nat_cmp_def less_Suc_eq numeral_eq_Suc)
  have pos: "positions pq_ex ((\<lambda>x. 0)(6 := 1))" by (auto simp: positions_def pq_ex_def less_Suc_eq numeral_eq_Suc)
  have "2 \<notin># nodes pq_ex" "pupdate pq_ex = track" "psize pq_ex = 2" by (simp_all add: nodes_def pq_ex_def)
  then show ?thesis using pqueue_positions_tracked [OF ok _ pos, of 2 0] ok pos by auto
qed

end
