(* ===== verification/As_Path.thy ===== *)
theory As_Path
  imports Stream_Buffer
begin

text \<open>
  AS paths, \<open>bgpd/bgp_aspath.c\<close>. A chain of segments that is linked by \<open>next\<close> and owned by
  one path is the list of its segments; where the code touches a segment it has freed, or
  a null pointer, the model stops. The table of interned paths is not modelled. A segment
  has fewer than 65536 AS numbers (\<open>length\<close> is a \<open>u_short\<close>; a path from the wire has at
  most 2048).
\<close>

section \<open>Segments\<close>

record assegment =
  sg_type :: u8
  asns :: "u32 list"

abbreviation sg_len :: "assegment \<Rightarrow> nat" where
  "sg_len seg \<equiv> length (asns seg)"

definition AS_SET :: u8 where "AS_SET = 1"
definition AS_SEQUENCE :: u8 where "AS_SEQUENCE = 2"
definition AS_CONFED_SEQUENCE :: u8 where "AS_CONFED_SEQUENCE = 3"
definition AS_CONFED_SET :: u8 where "AS_CONFED_SET = 4"

definition BGP_PRIVATE_AS_MIN :: u32 where "BGP_PRIVATE_AS_MIN = 64512"
definition BGP_PRIVATE_AS_MAX :: u32 where "BGP_PRIVATE_AS_MAX = 65535"
definition BGP_AS_MAX :: u32 where "BGP_AS_MAX = 65535"
definition BGP_AS_TRANS :: u16 where "BGP_AS_TRANS = 23456"
definition AS_HEADER_SIZE :: nat where "AS_HEADER_SIZE = 2"
definition AS_SEGMENT_MAX :: nat where "AS_SEGMENT_MAX = 255"
definition AS16_VALUE_SIZE :: nat where "AS16_VALUE_SIZE = 2"

lemmas seg_types = AS_SET_def AS_SEQUENCE_def AS_CONFED_SEQUENCE_def AS_CONFED_SET_def

definition ASSEGMENT_DATA_SIZE :: "nat \<Rightarrow> bool \<Rightarrow> nat" where
  "ASSEGMENT_DATA_SIZE n use32bit = n * (if use32bit then 4 else AS16_VALUE_SIZE)"

definition ASSEGMENT_SIZE :: "nat \<Rightarrow> bool \<Rightarrow> nat" where
  "ASSEGMENT_SIZE n use32bit = AS_HEADER_SIZE + ASSEGMENT_DATA_SIZE n use32bit"

definition ASSEGMENT_LEN :: "assegment \<Rightarrow> bool \<Rightarrow> nat" where
  "ASSEGMENT_LEN seg use32bit = ASSEGMENT_SIZE (sg_len seg) use32bit"

definition ASSEGMENT_TYPES_PACKABLE :: "assegment \<Rightarrow> assegment \<Rightarrow> bool" where
  "ASSEGMENT_TYPES_PACKABLE x y \<longleftrightarrow> sg_type x = sg_type y \<and> sg_type x = AS_SEQUENCE"

definition ASSEGMENTS_PACKABLE :: "assegment \<Rightarrow> assegment \<Rightarrow> bool" where
  "ASSEGMENTS_PACKABLE x y \<longleftrightarrow> ASSEGMENT_TYPES_PACKABLE x y \<and> sg_len x + sg_len y \<le> AS_SEGMENT_MAX"

definition assegment_new :: "u8 \<Rightarrow> nat \<Rightarrow> assegment" where
  "assegment_new ty n = \<lparr>sg_type = ty, asns = replicate n 0\<rparr>"

definition assegment_dup :: "assegment \<Rightarrow> assegment" where
  "assegment_dup seg = (assegment_new (sg_type seg) (sg_len seg))\<lparr>asns := asns seg\<rparr>"

definition assegment_dup_all :: "assegment list \<Rightarrow> assegment list" where
  "assegment_dup_all segs = map assegment_dup segs"

definition assegment_prepend_asns :: "assegment \<Rightarrow> u32 \<Rightarrow> nat \<Rightarrow> assegment" where
  "assegment_prepend_asns seg asnum num =
     (if num = 0 then seg
      else if num \<ge> AS_SEGMENT_MAX then seg
      else seg\<lparr>asns := replicate num asnum @ asns seg\<rparr>)"

definition assegment_append_asns :: "assegment \<Rightarrow> u32 list \<Rightarrow> assegment" where
  "assegment_append_asns seg asnos = seg\<lparr>asns := asns seg @ asnos\<rparr>"

subsection \<open>Normal form\<close>

definition int_cmp :: "u32 \<Rightarrow> u32 \<Rightarrow> int" where
  "int_cmp a b = (if a = b then 0 else if a > b then 1 else - 1)"

text \<open>The loop that weeds out duplicates of a sorted array in place.\<close>

function weed :: "u32 list \<Rightarrow> nat \<Rightarrow> nat \<Rightarrow> u32 list \<times> nat" where
  "weed a i tail =
     (if i < length a then
        if a ! tail = a ! i then weed a (Suc i) tail
        else weed (if Suc tail < i then a[Suc tail := a ! i] else a) (Suc i) (Suc tail)
      else (a, tail))"
  by pat_completeness auto
termination
  by (relation "measure (\<lambda>(a, i, tail). length a - i)") auto

declare weed.simps [simp del]

text \<open>\<open>qsort\<close> with \<open>int_cmp\<close> sorts in ascending order.\<close>

definition normalise_set :: "assegment \<Rightarrow> assegment" where
  "normalise_set seg =
     (if sg_type seg = AS_SET \<or> sg_type seg = AS_CONFED_SET then
        let (a, tail) = weed (sort (asns seg)) 1 0
        in seg\<lparr>asns := if asns seg = [] then [] else take (tail + 1) a\<rparr>
      else seg)"

fun absorb :: "assegment \<Rightarrow> assegment list \<Rightarrow> assegment \<times> assegment list" where
  "absorb pin [] = (pin, [])"
| "absorb pin (seg # rest) =
     (if ASSEGMENT_TYPES_PACKABLE pin seg then absorb (assegment_append_asns pin (asns seg)) rest
      else (pin, seg # rest))"

lemma length_absorb: "length (snd (absorb pin rest)) \<le> length rest"
  by (induction pin rest rule: absorb.induct) auto

function assegment_normalise :: "assegment list \<Rightarrow> assegment list" where
  "assegment_normalise [] = []"
| "assegment_normalise (seg # rest) =
     (let (pin, rest') = absorb (normalise_set seg) rest in pin # assegment_normalise rest')"
  by pat_completeness auto
termination
proof (relation "measure length", goal_cases)
  case (2 seg rest x pin rest')
  then have "snd (absorb (normalise_set seg) rest) = rest'" by (metis snd_conv)
  then show ?case using length_absorb [of "normalise_set seg" rest] by simp
qed simp

section \<open>Paths\<close>

text \<open>\<open>str\<close> is the printed form that \<open>show\<close> commands and regular expressions use.\<close>

record aspath =
  segments :: "assegment list"
  astr :: "string option"

definition aspath_new :: aspath where
  "aspath_new = \<lparr>segments = [], astr = None\<rparr>"

subsection \<open>Counting and scanning\<close>

definition aspath_count_confeds :: "aspath \<Rightarrow> nat" where
  "aspath_count_confeds p = (\<Sum>seg \<leftarrow> segments p.
     if sg_type seg = AS_CONFED_SEQUENCE then sg_len seg
     else if sg_type seg = AS_CONFED_SET then 1 else 0)"

definition aspath_count_hops :: "aspath \<Rightarrow> nat" where
  "aspath_count_hops p = (\<Sum>seg \<leftarrow> segments p.
     if sg_type seg = AS_SEQUENCE then sg_len seg
     else if sg_type seg = AS_SET then 1 else 0)"

definition aspath_size :: "aspath \<Rightarrow> nat" where
  "aspath_size p = (\<Sum>seg \<leftarrow> segments p. ASSEGMENT_SIZE (sg_len seg) True)"

fun assegment_count_asns :: "assegment list \<Rightarrow> int \<Rightarrow> int" where
  "assegment_count_asns [] from_ix = 0"
| "assegment_count_asns (seg # segs) from_ix =
     (if from_ix = 0 then int (sg_len seg) else int (sg_len seg) - from_ix) + assegment_count_asns segs 0"

definition is_private :: "u32 \<Rightarrow> bool" where
  "is_private a \<longleftrightarrow> \<not> (a < BGP_PRIVATE_AS_MIN \<or> a > BGP_PRIVATE_AS_MAX)"

definition aspath_highest :: "aspath \<Rightarrow> u32" where
  "aspath_highest p =
     fold (\<lambda>seg highest. fold (\<lambda>a h. if a > h \<and> \<not> is_private a then a else h) (asns seg) highest)
       (segments p) 0"

definition aspath_has_as4 :: "aspath \<Rightarrow> bool" where
  "aspath_has_as4 p \<longleftrightarrow> list_ex (\<lambda>seg. list_ex (\<lambda>a. a > BGP_AS_MAX) (asns seg)) (segments p)"

text \<open>A null path is \<open>None\<close>. A segment of length 0 has no data: reading \<open>as[0]\<close> stops.\<close>

definition first_as :: "assegment \<Rightarrow> u32 res" where
  "first_as seg = (case asns seg of [] \<Rightarrow> Inl Null_Deref | a # _ \<Rightarrow> Inr a)"

definition aspath_firstas_check :: "aspath option \<Rightarrow> u32 \<Rightarrow> bool res" where
  "aspath_firstas_check path asno =
     (case path of
        None \<Rightarrow> Inr False
      | Some p \<Rightarrow> (case segments p of
            [] \<Rightarrow> Inr False
          | seg # _ \<Rightarrow>
              if sg_type seg = AS_SEQUENCE then rbind (first_as seg) (\<lambda>a. Inr (a = asno)) else Inr False))"

definition aspath_loop_check :: "aspath option \<Rightarrow> u32 \<Rightarrow> nat" where
  "aspath_loop_check path asno =
     (case path of
        None \<Rightarrow> 0
      | Some p \<Rightarrow> (\<Sum>seg \<leftarrow> segments p. count_list (asns seg) asno))"

definition aspath_private_as_check :: "aspath option \<Rightarrow> bool" where
  "aspath_private_as_check path =
     (case path of
        None \<Rightarrow> False
      | Some p \<Rightarrow> segments p \<noteq> [] \<and> list_all (\<lambda>seg. list_all is_private (asns seg)) (segments p))"

definition is_confed :: "assegment \<Rightarrow> bool" where
  "is_confed seg \<longleftrightarrow> sg_type seg = AS_CONFED_SEQUENCE \<or> sg_type seg = AS_CONFED_SET"

definition aspath_confed_check :: "aspath option \<Rightarrow> bool" where
  "aspath_confed_check path =
     (case path of None \<Rightarrow> False | Some p \<Rightarrow> list_ex is_confed (segments p))"

definition aspath_left_confed_check :: "aspath option \<Rightarrow> bool" where
  "aspath_left_confed_check path =
     (case path of
        None \<Rightarrow> False
      | Some p \<Rightarrow> (case segments p of [] \<Rightarrow> False | seg # _ \<Rightarrow> is_confed seg))"

subsection \<open>Printing\<close>

text \<open>\<open>AS_SEG_START\<close> is 0 and \<open>AS_SEG_END\<close> is 1.\<close>

definition aspath_delimiter_char :: "u8 \<Rightarrow> nat \<Rightarrow> char" where
  "aspath_delimiter_char ty which =
     (let pick = (\<lambda>start end_c. if which = 0 then start else if which = 1 then end_c else CHR '' '') in
      if ty = AS_SET then pick (CHR ''{'') (CHR ''}'')
      else if ty = AS_CONFED_SET then pick (CHR ''['') (CHR '']'')
      else if ty = AS_CONFED_SEQUENCE then pick (CHR ''('') (CHR '')'')
      else CHR '' '')"

definition ASN_STR_LEN :: int where "ASN_STR_LEN = 11"
definition ASPATH_STR_DEFAULT_LEN :: int where "ASPATH_STR_DEFAULT_LEN = 32"

definition SEGMENT_STR_LEN :: "assegment \<Rightarrow> int" where
  "SEGMENT_STR_LEN seg = int (sg_len seg) * ASN_STR_LEN + 2 + 1 + 1"

text \<open>
  \<open>snprintf (str_buf + len, str_size - len, ...)\<close>: the text and its final zero fit, or
  the model stops (\<open>snprintf\<close> would cut the text and \<open>len\<close> would leave the buffer).
\<close>

definition sn_append :: "int \<Rightarrow> string \<Rightarrow> string \<Rightarrow> string res" where
  "sn_append str_size buf txt =
     (if int (length buf + length txt) < str_size then Inr (buf @ txt) else Inl Out_Of_Bounds)"

text \<open>The AS numbers of a segment with the separator between them.\<close>

fun put_asns :: "int \<Rightarrow> char \<Rightarrow> u32 list \<Rightarrow> string \<Rightarrow> string res" where
  "put_asns sz sep [] buf = Inr buf"
| "put_asns sz sep (a # as) buf =
     rbind (sn_append sz buf (show_u (unat a))) (\<lambda>buf1.
     rbind (if as \<noteq> [] then sn_append sz buf1 [sep] else Inr buf1) (put_asns sz sep as))"

definition valid_type :: "u8 \<Rightarrow> bool" where
  "valid_type ty \<longleftrightarrow> ty = AS_SET \<or> ty = AS_CONFED_SET \<or> ty = AS_SEQUENCE \<or> ty = AS_CONFED_SEQUENCE"

definition separator :: "u8 \<Rightarrow> char" where
  "separator ty = (if ty = AS_SET \<or> ty = AS_CONFED_SET then CHR '','' else CHR '' '')"

text \<open>The loop over the segments: \<open>None\<close> is the null pointer for an unknown type.\<close>

fun put_segments :: "int \<Rightarrow> assegment list \<Rightarrow> string \<Rightarrow> (int \<times> string) option res" where
  "put_segments sz [] buf = Inr (Some (sz, buf))"
| "put_segments sz (seg # segs) buf =
     (if \<not> valid_type (sg_type seg) then Inr None
      else
        let sz' = (if int (length buf) + SEGMENT_STR_LEN seg > sz
                   then int (length buf) + SEGMENT_STR_LEN seg else sz) in
        rbind (if sg_type seg \<noteq> AS_SEQUENCE
               then sn_append sz' buf [aspath_delimiter_char (sg_type seg) 0] else Inr buf) (\<lambda>b1.
        rbind (put_asns sz' (separator (sg_type seg)) (asns seg) b1) (\<lambda>b2.
        rbind (if sg_type seg \<noteq> AS_SEQUENCE
               then sn_append sz' b2 [aspath_delimiter_char (sg_type seg) 1] else Inr b2) (\<lambda>b3.
        rbind (if segs \<noteq> [] then sn_append sz' b3 '' '' else Inr b3) (put_segments sz' segs)))))"

definition aspath_make_str_count :: "aspath \<Rightarrow> string option res" where
  "aspath_make_str_count p =
     (if segments p = [] then Inr (Some [])
      else
        rbind (put_segments (max (assegment_count_asns (segments p) 0 * ASN_STR_LEN + 2 + 1)
                  ASPATH_STR_DEFAULT_LEN) (segments p) [])
          (\<lambda>r. case r of
              None \<Rightarrow> Inr None
            | Some (sz, buf) \<Rightarrow> c_assert (int (length buf) < sz) (Inr (Some buf))))"

definition aspath_str_update :: "aspath \<Rightarrow> aspath res" where
  "aspath_str_update p = rbind (aspath_make_str_count p) (\<lambda>s. Inr (p\<lparr>astr := s\<rparr>))"

definition aspath_dup :: "aspath \<Rightarrow> aspath res" where
  "aspath_dup p =
     rbind (aspath_make_str_count p) (\<lambda>s. Inr \<lparr>segments = assegment_dup_all (segments p), astr = s\<rparr>)"

subsection \<open>The wire format\<close>

definition get_as :: "bool \<Rightarrow> stream \<Rightarrow> (u32 \<times> stream) res" where
  "get_as use32bit s =
     (if use32bit then stream_getl s else rbind (stream_getw s) (\<lambda>(w, s'). Inr (ucast w, s')))"

text \<open>
  The loop of \<open>assegments_parse\<close>; \<open>acc\<close> is the chain read so far. The result \<open>None\<close> is
  the return value -1.
\<close>

function parse_loop ::
    "bool \<Rightarrow> nat \<Rightarrow> nat \<Rightarrow> assegment list \<Rightarrow> stream \<Rightarrow> (assegment list option \<times> stream) res" where
  "parse_loop use32bit len bytes acc s =
     (if bytes < len then
        if len - bytes \<le> AS_HEADER_SIZE then Inr (None, s)
        else
          rbind (stream_getc s) (\<lambda>(ty, s1).
          rbind (stream_getc s1) (\<lambda>(n, s2).
          let seg_size = ASSEGMENT_SIZE (unat n) use32bit in
          if bytes + seg_size > len \<or> n = 0 then Inr (None, s2)
          else if \<not> valid_type ty then Inr (None, s2)
          else
            rbind (get_all (get_as use32bit) (unat n) s2) (\<lambda>(as, s3).
            parse_loop use32bit len (bytes + seg_size) (acc @ [\<lparr>sg_type = ty, asns = as\<rparr>]) s3)))
      else Inr (Some acc, s))"
  by pat_completeness auto
termination
  by (relation "measure (\<lambda>(u, len, bytes, acc, s). len - bytes)")
    (auto simp: ASSEGMENT_SIZE_def AS_HEADER_SIZE_def)

declare parse_loop.simps [simp del]

definition assegments_parse :: "stream \<Rightarrow> nat \<Rightarrow> bool \<Rightarrow> (assegment list option \<times> stream) res" where
  "assegments_parse s len use32bit =
     (if len = 0 then Inr (Some [], s)
      else if STREAM_READABLE s < len \<or> STREAM_READABLE s < AS_HEADER_SIZE \<or> len mod AS16_VALUE_SIZE \<noteq> 0
      then Inr (None, s)
      else rbind (parse_loop use32bit len 0 [] s)
             (\<lambda>(r, s'). Inr (map_option assegment_normalise r, s')))"

text \<open>
  \<open>hash_get\<close> returns an interned path with the same segments, or a duplicate with its
  string; both have the value below.
\<close>

definition aspath_parse :: "stream \<Rightarrow> nat \<Rightarrow> bool \<Rightarrow> (aspath option \<times> stream) res" where
  "aspath_parse s len use32bit =
     (if len mod AS16_VALUE_SIZE \<noteq> 0 then Inr (None, s)
      else rbind (assegments_parse s len use32bit) (\<lambda>(r, s').
        case r of
          None \<Rightarrow> Inr (None, s')
        | Some segs \<Rightarrow> rbind (aspath_dup \<lparr>segments = segs, astr = None\<rparr>) (\<lambda>p.
            Inr (if astr p = None then None else Some p, s'))))"

definition put_as :: "bool \<Rightarrow> u32 \<Rightarrow> stream \<Rightarrow> (nat \<times> stream) res" where
  "put_as use32bit a s =
     (if use32bit then stream_putl a s
      else if a \<le> BGP_AS_MAX then stream_putw (ucast a) s else stream_putw BGP_AS_TRANS s)"

definition assegment_data_put :: "stream \<Rightarrow> u32 list \<Rightarrow> nat \<Rightarrow> bool \<Rightarrow> stream res" where
  "assegment_data_put s as num use32bit =
     c_assert (num \<le> AS_SEGMENT_MAX)
       (rbind (mem_get as 0 num) (\<lambda>xs. put_all (put_as use32bit) xs s))"

definition assegment_header_put :: "stream \<Rightarrow> u8 \<Rightarrow> nat \<Rightarrow> (nat \<times> stream) res" where
  "assegment_header_put s ty len =
     c_assert (len \<le> AS_SEGMENT_MAX)
       (rbind (stream_putc ty s) (\<lambda>(_, s1).
        rbind (stream_get_endp s1) (\<lambda>lenp.
        rbind (stream_putc (of_nat len) s1) (\<lambda>(_, s2). Inr (lenp, s2)))))"

text \<open>The loop that splits an overlength segment: it writes the first 255 numbers each time.\<close>

function put_split :: "assegment \<Rightarrow> bool \<Rightarrow> nat \<Rightarrow> nat \<Rightarrow> stream \<Rightarrow> (nat \<times> nat \<times> stream) res" where
  "put_split seg use32bit written bytes s =
     (if sg_len seg - written > AS_SEGMENT_MAX then
        rbind (assegment_header_put s (sg_type seg) AS_SEGMENT_MAX) (\<lambda>(_, s1).
        rbind (assegment_data_put s1 (asns seg) AS_SEGMENT_MAX use32bit) (\<lambda>s2.
        let written' = written + AS_SEGMENT_MAX in
        put_split seg use32bit written' (bytes + ASSEGMENT_SIZE written' use32bit) s2))
      else Inr (written, bytes, s))"
  by pat_completeness auto
termination
  by (relation "measure (\<lambda>(seg, u, written, b, s). sg_len seg - written)")
    (auto simp: AS_SEGMENT_MAX_def)

declare put_split.simps [simp del]

fun put_packed ::
    "assegment \<Rightarrow> nat \<Rightarrow> bool \<Rightarrow> nat \<Rightarrow> assegment list \<Rightarrow> nat \<Rightarrow> stream \<Rightarrow> (nat \<times> assegment list \<times> stream) res" where
  "put_packed seg written use32bit lenp [] packed s = Inr (packed, [], s)"
| "put_packed seg written use32bit lenp (nxt # rest) packed s =
     (if ASSEGMENTS_PACKABLE seg nxt then
        rbind (assegment_data_put s (asns nxt) (sg_len nxt) use32bit) (\<lambda>s1.
        rbind (stream_putc_at s1 lenp (of_nat (sg_len seg - written + sg_len nxt))) (\<lambda>(_, s2).
        put_packed seg written use32bit lenp rest (packed + sg_len nxt) s2))
      else Inr (packed, nxt # rest, s))"

lemma put_packed_length:
  "put_packed seg w u lenp nxts packed s = Inr (p, rest, s') \<Longrightarrow> length rest \<le> length nxts"
  by (induction seg w u lenp nxts packed s rule: put_packed.induct) (fastforce split: if_splits)+

function put_path :: "bool \<Rightarrow> assegment list \<Rightarrow> nat \<Rightarrow> stream \<Rightarrow> (nat \<times> stream) res" where
  "put_path use32bit [] bytes s = Inr (bytes, s)"
| "put_path use32bit (seg # next_segs) bytes s =
     (if ASSEGMENT_LEN seg use32bit \<le> STREAM_WRITEABLE s then
        rbind (put_split seg use32bit 0 bytes s) (\<lambda>(written, bytes1, s1).
        rbind (assegment_header_put s1 (sg_type seg) (sg_len seg - written)) (\<lambda>(lenp, s2).
        rbind (assegment_data_put s2 (drop written (asns seg)) (sg_len seg - written) use32bit) (\<lambda>s3.
        rbind (put_packed seg written use32bit lenp next_segs 0 s3) (\<lambda>(packed, rest, s4).
        put_path use32bit rest (bytes1 + ASSEGMENT_SIZE (sg_len seg - written + packed) use32bit) s4))))
      else Inr (bytes, s))"
  by pat_completeness auto
termination
proof (relation "measure (\<lambda>(u, segs, b, s). length segs)", goal_cases)
  case 2
  then show ?case by (auto dest!: put_packed_length)
qed simp

definition aspath_put :: "stream \<Rightarrow> aspath \<Rightarrow> bool \<Rightarrow> (nat \<times> stream) res" where
  "aspath_put s p use32bit =
     (case segments p of
        [] \<Rightarrow> Inr (0, s)
      | seg # _ \<Rightarrow> if sg_len seg = 0 then Inr (0, s) else put_path use32bit (segments p) 0 s)"

section \<open>Operations on paths\<close>

subsection \<open>Aggregation\<close>

text \<open>
  The set that collects the remaining AS numbers is the last segment of the new path once
  it exists: \<open>asset\<close> is its contents, \<open>segs\<close> the segments before it.
\<close>

definition aspath_aggregate_as_set_add :: "u32 list option \<Rightarrow> u32 \<Rightarrow> u32 list option" where
  "aspath_aggregate_as_set_add asset a =
     (case asset of
        None \<Rightarrow> Some [a]
      | Some xs \<Rightarrow> if a \<in> set xs then Some xs else Some (xs @ [a]))"

fun match_prefix :: "u32 list \<Rightarrow> u32 list \<Rightarrow> nat" where
  "match_prefix (a # as) (b # bs) = (if a = b then Suc (match_prefix as bs) else 0)"
| "match_prefix as bs = 0"

text \<open>
  The common leading segments. \<open>match\<close> keeps its value from the last comparison when the
  loop ends because a chain ends or the types differ.
\<close>

fun aggregate_common ::
    "assegment list \<Rightarrow> assegment list \<Rightarrow> nat \<Rightarrow> assegment list \<Rightarrow>
     assegment list \<times> nat \<times> assegment list \<times> assegment list" where
  "aggregate_common (seg1 # rest1) (seg2 # rest2) match acc =
     (if sg_type seg1 \<noteq> sg_type seg2 then (acc, match, seg1 # rest1, seg2 # rest2)
      else
        let minlen = min (sg_len seg1) (sg_len seg2);
            match' = match_prefix (asns seg1) (asns seg2);
            acc' = (if match' \<noteq> 0
                    then acc @ [assegment_append_asns (assegment_new (sg_type seg1) 0) (take match' (asns seg1))]
                    else acc)
        in if match' \<noteq> minlen \<or> match' \<noteq> sg_len seg1 \<or> sg_len seg1 \<noteq> sg_len seg2
           then (acc', match', seg1 # rest1, seg2 # rest2)
           else aggregate_common rest1 rest2 match' acc')"
| "aggregate_common segs1 segs2 match acc = (acc, match, segs1, segs2)"

fun aggregate_rest :: "nat \<Rightarrow> assegment list \<Rightarrow> u32 list option \<Rightarrow> u32 list option" where
  "aggregate_rest from_ix [] asset = asset"
| "aggregate_rest from_ix (seg # segs) asset =
     aggregate_rest 0 segs (fold (\<lambda>a s. aspath_aggregate_as_set_add s a) (drop from_ix (asns seg)) asset)"

definition aspath_aggregate :: "aspath \<Rightarrow> aspath \<Rightarrow> aspath res" where
  "aspath_aggregate as1 as2 =
     (let (acc, match, rest1, rest2) = aggregate_common (segments as1) (segments as2) 0 [];
          asset = aggregate_rest match rest2 (aggregate_rest match rest1 None);
          segs = acc @ (case asset of None \<Rightarrow> [] | Some xs \<Rightarrow> [\<lparr>sg_type = AS_SET, asns = xs\<rparr>])
      in aspath_str_update \<lparr>segments = assegment_normalise segs, astr = None\<rparr>)"

subsection \<open>Prepending\<close>

definition aspath_delete_confed_seq :: "aspath \<Rightarrow> aspath res" where
  "aspath_delete_confed_seq p =
     (case segments p of
        [] \<Rightarrow> Inr p
      | seg # _ \<Rightarrow>
          if sg_type seg \<noteq> AS_CONFED_SEQUENCE then Inr p
          else aspath_str_update (p\<lparr>segments := dropWhile is_confed (segments p)\<rparr>))"

text \<open>With no segment in \<open>as1\<close>, \<open>last\<close> is null and \<open>last->next\<close> stops.\<close>

definition aspath_merge :: "aspath \<Rightarrow> aspath \<Rightarrow> aspath res" where
  "aspath_merge as1 as2 =
     (if segments as1 = [] then Inl Null_Deref
      else aspath_str_update (as2\<lparr>segments := assegment_dup_all (segments as1) @ segments as2\<rparr>))"

text \<open>
  When the last segment of \<open>as1\<close> is a sequence and the first of \<open>as2\<close> is a confederation
  sequence, \<open>aspath_delete_confed_seq\<close> frees \<open>seg2\<close>, which the next test reads.
\<close>

definition aspath_prepend :: "aspath option \<Rightarrow> aspath option \<Rightarrow> aspath option res" where
  "aspath_prepend a1 a2 =
     (case (a1, a2) of
        (Some as1, Some as2) \<Rightarrow>
          (case segments as2 of
             [] \<Rightarrow> rbind (aspath_str_update (as2\<lparr>segments := assegment_dup_all (segments as1)\<rparr>)) (\<lambda>p. Inr (Some p))
           | seg2 # rest2 \<Rightarrow>
               if segments as1 = [] then Inr (Some as2)
               else
                 let seg1 = last (segments as1) in
                 if sg_type seg1 = AS_SEQUENCE \<and> sg_type seg2 = AS_CONFED_SEQUENCE then
                   rbind (aspath_delete_confed_seq as2) (\<lambda>_. Inl Dangling)
                 else if sg_type seg1 \<noteq> sg_type seg2 then
                   rbind (aspath_merge as1 as2) (\<lambda>p. Inr (Some p))
                 else if sg_type seg1 = AS_SEQUENCE then
                   rbind (aspath_str_update (as2\<lparr>segments :=
                       butlast (assegment_dup_all (segments as1)) @
                       assegment_append_asns (last (assegment_dup_all (segments as1))) (asns seg2) # rest2\<rparr>))
                     (\<lambda>p. Inr (Some p))
                 else rbind (aspath_merge as1 as2) (\<lambda>p. Inr (Some p)))
      | _ \<Rightarrow> Inr None)"

definition excluded :: "assegment list \<Rightarrow> u32 \<Rightarrow> bool" where
  "excluded excl a \<longleftrightarrow> list_ex (\<lambda>seg. list_ex (\<lambda>b. a = b) (asns seg)) excl"

text \<open>A segment that loses all its numbers is dropped. The source path is freed.\<close>

definition aspath_filter_exclude :: "aspath \<Rightarrow> aspath \<Rightarrow> aspath res" where
  "aspath_filter_exclude source exclude_list =
     aspath_str_update \<lparr>segments =
       filter (\<lambda>seg. sg_len seg \<noteq> 0)
         (map (\<lambda>seg. seg\<lparr>asns := filter (\<lambda>a. \<not> excluded (segments exclude_list) a) (asns seg)\<rparr>)
            (segments source)), astr = None\<rparr>"

text \<open>\<open>str\<close> is not updated. A first segment of length 0 is replaced; its \<open>next\<close> is lost.\<close>

definition aspath_add_one_as :: "aspath \<Rightarrow> u32 \<Rightarrow> u8 \<Rightarrow> aspath" where
  "aspath_add_one_as p asno ty =
     (case segments p of
        [] \<Rightarrow> p\<lparr>segments := [(assegment_new ty 1)\<lparr>asns := [asno]\<rparr>]\<rparr>
      | seg # rest \<Rightarrow>
          if sg_len seg = 0 then p\<lparr>segments := [(assegment_new ty 1)\<lparr>asns := [asno]\<rparr>]\<rparr>
          else if sg_type seg = ty then p\<lparr>segments := assegment_prepend_asns seg asno 1 # rest\<rparr>
          else p\<lparr>segments := (assegment_new ty 1)\<lparr>asns := [asno]\<rparr> # seg # rest\<rparr>)"

definition aspath_add_seq :: "aspath \<Rightarrow> u32 \<Rightarrow> aspath" where
  "aspath_add_seq p asno = aspath_add_one_as p asno AS_SEQUENCE"

definition aspath_add_confed_seq :: "aspath \<Rightarrow> u32 \<Rightarrow> aspath" where
  "aspath_add_confed_seq p asno = aspath_add_one_as p asno AS_CONFED_SEQUENCE"

subsection \<open>Comparison\<close>

definition aspath_cmp_left :: "aspath option \<Rightarrow> aspath option \<Rightarrow> bool res" where
  "aspath_cmp_left a1 a2 =
     (case (a1, a2) of
        (Some p1, Some p2) \<Rightarrow>
          (case (dropWhile is_confed (segments p1), dropWhile is_confed (segments p2)) of
             (seg1 # _, seg2 # _) \<Rightarrow>
               if sg_type seg1 = AS_SEQUENCE \<and> sg_type seg2 = AS_SEQUENCE then
                 rbind (first_as seg1) (\<lambda>x. rbind (first_as seg2) (\<lambda>y. Inr (x = y)))
               else Inr False
           | _ \<Rightarrow> Inr False)
      | _ \<Rightarrow> Inr False)"

definition aspath_cmp_left_confed :: "aspath option \<Rightarrow> aspath option \<Rightarrow> bool res" where
  "aspath_cmp_left_confed a1 a2 =
     (case (a1, a2) of
        (Some p1, Some p2) \<Rightarrow>
          (case (segments p1, segments p2) of
             (seg1 # _, seg2 # _) \<Rightarrow>
               if sg_type seg1 = AS_CONFED_SEQUENCE \<and> sg_type seg2 = AS_CONFED_SEQUENCE then
                 rbind (first_as seg1) (\<lambda>x. rbind (first_as seg2) (\<lambda>y. Inr (x = y)))
               else Inr False
           | _ \<Rightarrow> Inr False)
      | _ \<Rightarrow> Inr False)"

fun aspath_cmp_segs :: "assegment list \<Rightarrow> assegment list \<Rightarrow> bool" where
  "aspath_cmp_segs [] [] = True"
| "aspath_cmp_segs (seg1 # r1) (seg2 # r2) =
     (if sg_type seg1 \<noteq> sg_type seg2 then False
      else if sg_len seg1 \<noteq> sg_len seg2 then False
      else if list_ex (\<lambda>i. asns seg1 ! i \<noteq> asns seg2 ! i) [0..<sg_len seg1] then False
      else aspath_cmp_segs r1 r2)"
| "aspath_cmp_segs _ _ = False"

definition aspath_cmp :: "aspath \<Rightarrow> aspath \<Rightarrow> bool" where
  "aspath_cmp p1 p2 = aspath_cmp_segs (segments p1) (segments p2)"

subsection \<open>Four-byte AS numbers\<close>

text \<open>
  The loop of \<open>aspath_reconcile_as4\<close>: copies segments while \<open>hops > 0\<close>. Types are valid
  after parsing; for another type \<open>cpasns\<close> keeps its last value and \<open>hops\<close> stays.
\<close>

fun reconcile_loop :: "assegment list \<Rightarrow> int \<Rightarrow> nat \<Rightarrow> assegment list res" where
  "reconcile_loop [] hops cpasns = Inr []"
| "reconcile_loop (seg # segs) hops cpasns =
     (if hops > 0 then
        let (hops', cp) =
          (if sg_type seg = AS_SET \<or> sg_type seg = AS_CONFED_SET then (hops - 1, sg_len seg)
           else if sg_type seg = AS_CONFED_SEQUENCE then
             let h = (if hops < int (sg_len seg) then int (sg_len seg) else hops)
             in (h - int (sg_len seg), min (sg_len seg) (nat h))
           else if sg_type seg = AS_SEQUENCE then (hops - int (sg_len seg), min (sg_len seg) (nat hops))
           else (hops, cpasns)) in
        c_assert (cp \<le> sg_len seg)
          (rbind (reconcile_loop segs hops' cp) (\<lambda>rest.
            Inr (assegment_append_asns (assegment_new (sg_type seg) 0) (take cp (asns seg)) # rest)))
      else Inr [])"

definition aspath_reconcile_as4 :: "aspath option \<Rightarrow> aspath \<Rightarrow> aspath option res" where
  "aspath_reconcile_as4 path as4path =
     (case path of
        None \<Rightarrow> Inr None
      | Some p \<Rightarrow>
          let h = int (aspath_count_hops p + aspath_count_confeds p) - int (aspath_count_hops as4path);
              hops = (if h < 0 then int (aspath_count_hops p) else h) in
          if hops = 0 then rbind (aspath_dup as4path) (\<lambda>q. Inr (Some q))
          else
            rbind (reconcile_loop (segments p) hops 0) (\<lambda>segs.
            rbind (aspath_dup as4path) (\<lambda>dup4.
            if segs = [] then Inl Null_Deref
            else rbind (aspath_merge \<lparr>segments = segs, astr = None\<rparr> dup4) (\<lambda>merged.
              rbind (aspath_str_update (merged\<lparr>segments := assegment_normalise (segments merged)\<rparr>))
                (\<lambda>q. Inr (Some q))))))"

subsection \<open>Reading the printed form\<close>

datatype as_token =
    as_token_asval | as_token_set_start | as_token_set_end
  | as_token_confed_seq_start | as_token_confed_seq_end
  | as_token_confed_set_start | as_token_confed_set_end | as_token_unknown

definition is_sep :: "char \<Rightarrow> bool" where
  "is_sep c \<longleftrightarrow> is_space c \<or> c = CHR '',''"

text \<open>The value of the digits in \<open>as_t\<close>, which wraps around.\<close>

definition asval :: "string \<Rightarrow> u32" where
  "asval ds = foldl (\<lambda>v c. v * 10 + (of_nat (of_char c) - 48)) 0 ds"

text \<open>
  \<open>None\<close> at the end of the string; otherwise the token, \<open>*asno\<close> (which keeps its old value
  for a token without a number) and the rest of the string.
\<close>

definition aspath_gettoken :: "string \<Rightarrow> u32 \<Rightarrow> (as_token \<times> u32 \<times> string) option" where
  "aspath_gettoken buf asno =
     (case dropWhile is_sep buf of
        [] \<Rightarrow> None
      | c # p \<Rightarrow>
          if c = CHR ''{'' then Some (as_token_set_start, asno, p)
          else if c = CHR ''}'' then Some (as_token_set_end, asno, p)
          else if c = CHR ''('' then Some (as_token_confed_seq_start, asno, p)
          else if c = CHR '')'' then Some (as_token_confed_seq_end, asno, p)
          else if c = CHR ''['' then Some (as_token_confed_set_start, asno, p)
          else if c = CHR '']'' then Some (as_token_confed_set_end, asno, p)
          else if is_digit c then
            Some (as_token_asval, asval (takeWhile is_digit (c # p)), dropWhile is_digit (c # p))
          else Some (as_token_unknown, asno, c # p))"

definition aspath_segment_add :: "assegment list \<Rightarrow> u8 \<Rightarrow> assegment list" where
  "aspath_segment_add segs ty = segs @ [assegment_new ty 0]"

definition aspath_as_add :: "assegment list \<Rightarrow> u32 \<Rightarrow> assegment list" where
  "aspath_as_add segs asno =
     (if segs = [] then [] else butlast segs @ [assegment_append_asns (last segs) [asno]])"

lemma length_gettoken:
  "aspath_gettoken buf asno = Some (tok, n, rest) \<Longrightarrow> tok \<noteq> as_token_unknown \<Longrightarrow> length rest < length buf"
proof -
  assume a: "aspath_gettoken buf asno = Some (tok, n, rest)" "tok \<noteq> as_token_unknown"
  have l: "length (dropWhile is_sep buf) \<le> length buf" by (rule length_dropWhile_le)
  show ?thesis
  proof (cases "dropWhile is_sep buf")
    case Nil
    then show ?thesis using a by (simp add: aspath_gettoken_def del: dropWhile_eq_Nil_conv)
  next
    case (Cons c p)
    then have "rest = p \<or> is_digit c \<and> rest = dropWhile is_digit p"
      using a by (auto simp: aspath_gettoken_def split: if_splits)
    then show ?thesis using l Cons length_dropWhile_le [of is_digit p] by auto
  qed
qed

text \<open>The loop of \<open>aspath_str2aspath\<close>: \<open>None\<close> is the null pointer.\<close>

function str2_loop :: "string \<Rightarrow> u32 \<Rightarrow> u8 \<Rightarrow> bool \<Rightarrow> assegment list \<Rightarrow> assegment list option" where
  "str2_loop str asno as_type needtype segs =
     (case aspath_gettoken str asno of
        None \<Rightarrow> Some segs
      | Some (token, asno', rest) \<Rightarrow>
          (case token of
             as_token_asval \<Rightarrow>
               str2_loop rest asno' as_type False
                 (aspath_as_add (if needtype then aspath_segment_add segs as_type else segs) asno')
           | as_token_set_start \<Rightarrow> str2_loop rest asno' AS_SET False (aspath_segment_add segs AS_SET)
           | as_token_set_end \<Rightarrow> str2_loop rest asno' AS_SEQUENCE True segs
           | as_token_confed_seq_start \<Rightarrow>
               str2_loop rest asno' AS_CONFED_SEQUENCE False (aspath_segment_add segs AS_CONFED_SEQUENCE)
           | as_token_confed_seq_end \<Rightarrow> str2_loop rest asno' AS_SEQUENCE True segs
           | as_token_confed_set_start \<Rightarrow>
               str2_loop rest asno' AS_CONFED_SET False (aspath_segment_add segs AS_CONFED_SET)
           | as_token_confed_set_end \<Rightarrow> str2_loop rest asno' AS_SEQUENCE True segs
           | as_token_unknown \<Rightarrow> None))"
  by pat_completeness auto
termination
  by (relation "measure (\<lambda>(str, asno, ty, need, segs). length str)") (auto dest: length_gettoken)

declare str2_loop.simps [simp del]

definition aspath_str2aspath :: "string \<Rightarrow> aspath option res" where
  "aspath_str2aspath str =
     (case str2_loop str 0 AS_SEQUENCE True [] of
        None \<Rightarrow> Inr None
      | Some segs \<Rightarrow> rbind (aspath_str_update \<lparr>segments = segs, astr = None\<rparr>) (\<lambda>p. Inr (Some p)))"

definition aspath_empty_get :: "aspath res" where
  "aspath_empty_get = aspath_str_update aspath_new"

end
