(* ===== verification/As_Path_Facts.thy ===== *)
theory As_Path_Facts
  imports As_Path
begin

text \<open>
  Facts and properties of AS paths: the normal form, the wire format, the printed form and
  the operations that build paths.
\<close>

section \<open>The normal form\<close>

lemma weed_spec:
  "0 < i \<Longrightarrow> tail < i \<Longrightarrow> i \<le> length a \<Longrightarrow> weed a i tail = (a', k) \<Longrightarrow>
   take (Suc k) a' = take tail a @ remdups_adj (a ! tail # drop i a)"
proof (induction a i tail rule: weed.induct)
  case (1 a i tail)
  show ?case
  proof (cases "i < length a")
    case False
    then show ?thesis using "1.prems" by (simp add: weed.simps take_Suc_conv_app_nth)
  next
    case True
    then have d: "drop i a = a ! i # drop (Suc i) a" by (simp add: Cons_nth_drop_Suc)
    show ?thesis
    proof (cases "a ! tail = a ! i")
      case same: True
      have "weed a (Suc i) tail = (a', k)" using "1.prems"(4) True same by (subst (asm) weed.simps) simp
      then show ?thesis using "1.IH"(1) [OF True same] "1.prems" True same d by simp
    next
      case False
      let ?b = "if Suc tail < i then a[Suc tail := a ! i] else a"
      have b: "?b ! Suc tail = a ! i" "drop (Suc i) ?b = drop (Suc i) a" "take (Suc tail) ?b = take (Suc tail) a"
        using "1.prems"(2) True Suc_lessI [of tail i] by (cases "Suc tail = i"; force)+
      have "weed ?b (Suc i) (Suc tail) = (a', k)"
        using "1.prems"(4) True False by (subst (asm) weed.simps) simp
      then have "take (Suc k) a' = take (Suc tail) ?b @ remdups_adj (?b ! Suc tail # drop (Suc i) ?b)"
        using "1.IH"(2) [OF True False] "1.prems" True by simp
      then show ?thesis using b d False "1.prems"(2) True by (simp add: take_Suc_conv_app_nth)
    qed
  qed
qed

definition is_set :: "assegment \<Rightarrow> bool" where
  "is_set seg \<longleftrightarrow> sg_type seg = AS_SET \<or> sg_type seg = AS_CONFED_SET"

lemma normalise_set_spec:
  "normalise_set seg = (if is_set seg then seg\<lparr>asns := remdups_adj (sort (asns seg))\<rparr> else seg)"
proof (cases "is_set seg \<and> asns seg \<noteq> []")
  case True
  obtain a k where w: "weed (sort (asns seg)) 1 0 = (a, k)" by (cases "weed (sort (asns seg)) 1 0") auto
  have len: "1 \<le> length (sort (asns seg))" using True by (cases "asns seg") auto
  have "take (Suc k) a = remdups_adj (sort (asns seg) ! 0 # drop 1 (sort (asns seg)))"
    using weed_spec [OF _ _ _ w] len by simp
  also have "sort (asns seg) ! 0 # drop 1 (sort (asns seg)) = sort (asns seg)"
    using len by (metis Cons_nth_drop_Suc One_nat_def Suc_le_lessD drop0)
  finally show ?thesis using True w by (simp add: normalise_set_def is_set_def)
qed (auto simp: normalise_set_def is_set_def weed.simps [of "[]"])

lemma normalise_set_simps [simp]:
  "sg_type (normalise_set seg) = sg_type seg" "set (asns (normalise_set seg)) = set (asns seg)"
  by (simp_all add: normalise_set_spec)

lemma remdups_adj_sorted: "sorted xs \<Longrightarrow> sorted (remdups_adj xs) \<and> distinct (remdups_adj xs)"
  by (induction xs rule: remdups_adj.induct) auto

text \<open>Sets are sorted without duplicates and no two sequences follow each other.\<close>

fun normal :: "assegment list \<Rightarrow> bool" where
  "normal [] = True"
| "normal [seg] = (is_set seg \<longrightarrow> sorted (asns seg) \<and> distinct (asns seg))"
| "normal (seg # nxt # rest) = ((is_set seg \<longrightarrow> sorted (asns seg) \<and> distinct (asns seg)) \<and>
     \<not> ASSEGMENT_TYPES_PACKABLE seg nxt \<and> normal (nxt # rest))"

lemma absorb_type [simp]: "sg_type (fst (absorb pin rest)) = sg_type pin"
  by (induction pin rest rule: absorb.induct) (auto simp: assegment_append_asns_def)

lemma absorb_set: "is_set pin \<Longrightarrow> absorb pin rest = (pin, rest)"
  by (cases rest) (auto simp: ASSEGMENT_TYPES_PACKABLE_def is_set_def seg_types)

lemma absorb_stops:
  "snd (absorb pin rest) = nxt # rest' \<Longrightarrow> \<not> ASSEGMENT_TYPES_PACKABLE (fst (absorb pin rest)) nxt"
  by (induction pin rest rule: absorb.induct) (auto split: if_splits)

lemma absorb_sums:
  "(\<Sum>seg \<leftarrow> rest. f (sg_type seg) (sg_len seg)) + f (sg_type pin) (sg_len pin) =
     (\<Sum>seg \<leftarrow> snd (absorb pin rest). f (sg_type seg) (sg_len seg)) +
       f (sg_type (fst (absorb pin rest))) (sg_len (fst (absorb pin rest)))"
  if "\<And>m n. f AS_SEQUENCE (m + n) = f AS_SEQUENCE m + f AS_SEQUENCE n" for f :: "u8 \<Rightarrow> nat \<Rightarrow> nat"
proof (induction pin rest rule: absorb.induct)
  case (2 pin seg rest)
  then show ?case using that
    by (auto simp: assegment_append_asns_def ASSEGMENT_TYPES_PACKABLE_def)
qed simp

lemma absorb_asns:
  "set (asns (fst (absorb pin rest))) \<union> (\<Union>seg \<in> set (snd (absorb pin rest)). set (asns seg)) =
     set (asns pin) \<union> (\<Union>seg \<in> set rest. set (asns seg))"
  by (induction pin rest rule: absorb.induct) (auto simp: assegment_append_asns_def)

lemma normalise_Cons:
  "assegment_normalise (seg # rest) =
     fst (absorb (normalise_set seg) rest) # assegment_normalise (snd (absorb (normalise_set seg) rest))"
  by (simp add: split_beta)

declare assegment_normalise.simps(2) [simp del]

lemma normalise_sums:
  assumes "\<And>m n. f AS_SEQUENCE (m + n) = f AS_SEQUENCE m + f AS_SEQUENCE n"
    and "\<And>m n. f AS_SET m = f AS_SET n" and "\<And>m n. f AS_CONFED_SET m = f AS_CONFED_SET n"
  shows "(\<Sum>seg \<leftarrow> assegment_normalise segs. f (sg_type seg) (sg_len seg)) =
    (\<Sum>seg \<leftarrow> segs. f (sg_type seg) (sg_len seg) :: nat)"
proof (induction segs rule: assegment_normalise.induct)
  case (2 seg rest)
  let ?a = "absorb (normalise_set seg) rest"
  have IH: "(\<Sum>seg \<leftarrow> assegment_normalise (snd ?a). f (sg_type seg) (sg_len seg)) =
      (\<Sum>seg \<leftarrow> snd ?a. f (sg_type seg) (sg_len seg))"
    using "2.IH" [of ?a "fst ?a" "snd ?a"] by simp
  have "f (sg_type (normalise_set seg)) (sg_len (normalise_set seg)) = f (sg_type seg) (sg_len seg)"
    using assms(2,3) by (auto simp: normalise_set_spec is_set_def)
  then show ?case using IH absorb_sums [where f = f and rest = rest and pin = "normalise_set seg"] assms(1)
    by (simp add: normalise_Cons)
qed simp

lemma normalise_asns:
  "(\<Union>seg \<in> set (assegment_normalise segs). set (asns seg)) = (\<Union>seg \<in> set segs. set (asns seg))"
proof (induction segs rule: assegment_normalise.induct)
  case (2 seg rest)
  let ?a = "absorb (normalise_set seg) rest"
  show ?case using "2.IH" [of ?a "fst ?a" "snd ?a"] absorb_asns [of "normalise_set seg" rest]
    by (simp add: normalise_Cons)
qed simp

lemma normalise_normal: "normal (assegment_normalise segs)"
proof (induction segs rule: assegment_normalise.induct)
  case (2 seg rest)
  let ?a = "absorb (normalise_set seg) rest"
  have IH: "normal (assegment_normalise (snd ?a))" using "2.IH" [of ?a "fst ?a" "snd ?a"] by simp
  have s: "is_set (fst ?a) \<longrightarrow> sorted (asns (fst ?a)) \<and> distinct (asns (fst ?a))"
    using remdups_adj_sorted [of "sort (asns seg)"] absorb_set [of "normalise_set seg" rest]
    by (cases "is_set seg") (auto simp: is_set_def normalise_set_spec)
  show ?case
  proof (cases "snd ?a")
    case Nil
    then show ?thesis using s by (simp add: normalise_Cons)
  next
    case (Cons nxt rest')
    let ?b = "absorb (normalise_set nxt) rest'"
    have "\<not> ASSEGMENT_TYPES_PACKABLE (fst ?a) (fst ?b)"
      using absorb_stops [OF Cons] by (simp add: ASSEGMENT_TYPES_PACKABLE_def)
    then show ?thesis using IH s Cons by (simp add: normalise_Cons)
  qed
qed simp

lemma normalise_id: "normal segs \<Longrightarrow> assegment_normalise segs = segs"
proof (induction segs rule: normal.induct)
  case (2 seg)
  then show ?case by (auto simp: normalise_Cons normalise_set_spec sorted_sort_id remdups_adj_distinct)
next
  case (3 seg nxt rest)
  then have "normalise_set seg = seg"
    by (auto simp: normalise_set_spec sorted_sort_id remdups_adj_distinct)
  then show ?case using 3 by (simp add: normalise_Cons)
qed simp

section \<open>The printed form\<close>

fun join_asns :: "char \<Rightarrow> u32 list \<Rightarrow> string" where
  "join_asns sep [] = []"
| "join_asns sep (a # as) = show_u (unat a) @ (if as \<noteq> [] then [sep] else []) @ join_asns sep as"

definition seg_text :: "assegment \<Rightarrow> string" where
  "seg_text seg = (if sg_type seg \<noteq> AS_SEQUENCE then [aspath_delimiter_char (sg_type seg) 0] else []) @
     join_asns (separator (sg_type seg)) (asns seg) @
     (if sg_type seg \<noteq> AS_SEQUENCE then [aspath_delimiter_char (sg_type seg) 1] else [])"

fun path_text :: "assegment list \<Rightarrow> string" where
  "path_text [] = []"
| "path_text (seg # segs) = seg_text seg @ (if segs \<noteq> [] then '' '' else []) @ path_text segs"

lemma show_u_length: "n < 10 ^ k \<Longrightarrow> 0 < k \<Longrightarrow> length (show_u n) \<le> k"
proof (induction k arbitrary: n)
  case (Suc k)
  show ?case
  proof (cases "n < 10")
    case True
    then show ?thesis by (subst show_u.simps) simp
  next
    case False
    then have "0 < k" "n div 10 < 10 ^ k" using Suc.prems(1) by (cases k; auto)+
    then show ?thesis using Suc.IH False by (subst show_u.simps) simp
  qed
qed simp

lemma length_join: "length (join_asns sep as) \<le> 11 * length as"
proof (induction as)
  case (Cons a as)
  have "unat a < 2 ^ 32" using unsigned_less [of a, where ?'a = nat] by simp
  then have "unat a < 10 ^ 10" by simp
  then have "length (show_u (unat a)) \<le> 10" by (rule show_u_length) simp
  then show ?case using Cons by simp
qed simp

lemma put_asns_text:
  "int (length buf + length (join_asns sep as)) < sz \<Longrightarrow> put_asns sz sep as buf = Inr (buf @ join_asns sep as)"
  by (induction as arbitrary: buf) (auto simp: sn_append_def split: if_splits)

lemma put_segments_step:
  fixes segs buf
  assumes "valid_type (sg_type seg)"
  defines "b \<equiv> buf @ seg_text seg @ (if segs \<noteq> [] then '' '' else [])"
  obtains sz1 where "put_segments sz (seg # segs) buf = put_segments sz1 segs b" "int (length b) < sz1"
proof -
  define sz1 where "sz1 = (if int (length buf) + SEGMENT_STR_LEN seg > sz
    then int (length buf) + SEGMENT_STR_LEN seg else sz)"
  have "int (length buf) + SEGMENT_STR_LEN seg \<le> sz1" by (simp add: sz1_def)
  then have fits: "int (length buf + length (join_asns (separator (sg_type seg)) (asns seg)) + 3) < sz1"
    using length_join [of "separator (sg_type seg)" "asns seg"] by (simp add: SEGMENT_STR_LEN_def ASN_STR_LEN_def)
  then have "put_segments sz (seg # segs) buf = put_segments sz1 segs b"
    using assms(1) unfolding b_def
    by (cases "sg_type seg = AS_SEQUENCE"; simp add: sz1_def [symmetric] put_asns_text sn_append_def seg_text_def)
  moreover have "int (length b) < sz1"
    using fits by (cases "sg_type seg = AS_SEQUENCE"; simp add: b_def seg_text_def)
  ultimately show ?thesis using that by blast
qed

lemma put_segments_text:
  "list_all (\<lambda>seg. valid_type (sg_type seg)) segs \<Longrightarrow>
   \<exists>sz'. put_segments sz segs buf = Inr (Some (sz', buf @ path_text segs)) \<and>
     (segs \<noteq> [] \<longrightarrow> int (length (buf @ path_text segs)) < sz')"
proof (induction segs arbitrary: sz buf)
  case (Cons seg segs)
  define b where "b = buf @ seg_text seg @ (if segs \<noteq> [] then '' '' else [])"
  obtain sz1 where "put_segments sz (seg # segs) buf = put_segments sz1 segs b" "int (length b) < sz1"
    using put_segments_step [where seg = seg and segs = segs and buf = buf and sz = sz] Cons.prems by (auto simp: b_def)
  moreover obtain sz2 where "put_segments sz1 segs b = Inr (Some (sz2, b @ path_text segs))"
    "segs \<noteq> [] \<longrightarrow> int (length (b @ path_text segs)) < sz2" using Cons by fastforce
  ultimately show ?case by (cases segs) (auto simp: b_def)
qed simp

lemma put_segments_unknown:
  "\<not> list_all (\<lambda>seg. valid_type (sg_type seg)) segs \<Longrightarrow> put_segments sz segs buf = Inr None"
proof (induction segs arbitrary: sz buf)
  case (Cons seg segs)
  show ?case
  proof (cases "valid_type (sg_type seg)")
    case True
    then obtain sz1 b where "put_segments sz (seg # segs) buf = put_segments sz1 segs b"
      using put_segments_step by blast
    then show ?thesis using Cons True by simp
  qed simp
qed simp

lemma make_str_count_text:
  "aspath_make_str_count p =
     Inr (if list_all (\<lambda>seg. valid_type (sg_type seg)) (segments p) then Some (path_text (segments p)) else None)"
proof -
  let ?sz = "max (assegment_count_asns (segments p) 0 * ASN_STR_LEN + 2 + 1) ASPATH_STR_DEFAULT_LEN"
  show ?thesis
  proof (cases "list_all (\<lambda>seg. valid_type (sg_type seg)) (segments p)")
    case True
    then show ?thesis using put_segments_text [of "segments p" ?sz "[]"]
      by (cases "segments p = []") (auto simp: aspath_make_str_count_def)
  next
    case False
    then show ?thesis using put_segments_unknown [of "segments p" ?sz "[]"]
      by (cases "segments p = []") (auto simp: aspath_make_str_count_def)
  qed
qed

lemma str_update_text:
  "aspath_str_update p = Inr (p\<lparr>astr := if list_all (\<lambda>seg. valid_type (sg_type seg)) (segments p)
     then Some (path_text (segments p)) else None\<rparr>)"
  by (simp add: aspath_str_update_def make_str_count_text)

lemma dup_id [simp]: "assegment_dup seg = seg" "assegment_dup_all segs = segs"
  by (simp_all add: assegment_dup_def assegment_new_def assegment_dup_all_def map_idI)

subsection \<open>Reading it back\<close>

lemma digit_char_value: "d < 10 \<Longrightarrow> is_digit (digit_char d) \<and> (of_char (digit_char d) :: nat) = 48 + d"
  by (simp add: digit_char_def is_digit_def)

lemma show_u_digits: "list_all is_digit (show_u n)"
proof (induction n rule: show_u.induct)
  case (1 n)
  then show ?case using digit_char_value [of n] digit_char_value [of "n mod 10"]
    by (subst show_u.simps) (cases "n < 10"; simp)
qed

lemma show_u_nonempty: "show_u n \<noteq> []"
  by (subst show_u.simps) simp

lemma asval_show_u: "asval (show_u n) = of_nat n"
proof (induction n rule: show_u.induct)
  case (1 n)
  show ?case
  proof (cases "n < 10")
    case True
    then show ?thesis using digit_char_value [of n] by (subst show_u.simps) (simp add: asval_def)
  next
    case False
    then have "asval (show_u n) = of_nat (n div 10) * 10 + (of_nat (48 + n mod 10) - 48)"
      using 1 digit_char_value [of "n mod 10"] by (subst show_u.simps) (simp add: asval_def)
    also have "\<dots> = of_nat (n div 10 * 10 + n mod 10)" by (simp only: of_nat_add of_nat_mult) simp
    finally show ?thesis by simp
  qed
qed

lemma digit_neq:
  "is_digit c \<Longrightarrow> \<not> is_sep c \<and> c \<noteq> CHR ''{'' \<and> c \<noteq> CHR ''}'' \<and> c \<noteq> CHR ''('' \<and> c \<noteq> CHR '')'' \<and>
     c \<noteq> CHR ''['' \<and> c \<noteq> CHR '']''"
  by (auto simp: is_digit_def is_sep_def is_space_def)

definition no_digit :: "string \<Rightarrow> bool" where
  "no_digit s \<longleftrightarrow> (case s of [] \<Rightarrow> True | c # _ \<Rightarrow> \<not> is_digit c)"

lemma takeWhile_digits:
  "list_all is_digit ds \<Longrightarrow> no_digit s \<Longrightarrow> takeWhile is_digit (ds @ s) = ds \<and> dropWhile is_digit (ds @ s) = s"
  by (induction ds) (auto simp: no_digit_def split: list.splits)

lemma gettoken_number:
  assumes "no_digit s"
  shows "aspath_gettoken (show_u (unat a) @ s) asno = Some (as_token_asval, a, s)"
proof -
  obtain c cs where c: "show_u (unat a) = c # cs" using show_u_nonempty by (metis neq_Nil_conv)
  then have d: "is_digit c" using show_u_digits [of "unat a"] by simp
  have t: "takeWhile is_digit (c # cs @ s) = c # cs" "dropWhile is_digit (c # cs @ s) = s"
    using takeWhile_digits [OF show_u_digits assms, of "unat a"] c by simp_all
  have "asval (c # cs) = a" using asval_show_u [of "unat a"] c by simp
  then show ?thesis using digit_neq [OF d] d t by (simp add: aspath_gettoken_def c)
qed

lemma gettoken_sep: "is_sep c \<Longrightarrow> aspath_gettoken (c # s) asno = aspath_gettoken s asno"
  by (simp add: aspath_gettoken_def)

lemma str2_loop_sep: "is_sep c \<Longrightarrow> str2_loop (c # s) asno ty need segs = str2_loop s asno ty need segs"
  by (subst (1 2) str2_loop.simps) (simp add: gettoken_sep)

lemma str2_loop_number:
  "no_digit s \<Longrightarrow> str2_loop (show_u (unat a) @ s) asno ty need segs =
     str2_loop s a ty False (aspath_as_add (if need then aspath_segment_add segs ty else segs) a)"
  by (subst str2_loop.simps) (simp add: gettoken_number)

lemma str2_loop_join:
  "no_digit s \<Longrightarrow> is_sep sep \<Longrightarrow> \<not> is_digit sep \<Longrightarrow> as \<noteq> [] \<Longrightarrow>
   str2_loop (join_asns sep as @ s) asno ty False (segs @ [seg]) =
     str2_loop s (last as) ty False (segs @ [assegment_append_asns seg as])"
proof (induction as arbitrary: asno seg)
  case (Cons a as)
  have add: "aspath_as_add (segs @ [seg]) a = segs @ [assegment_append_asns seg [a]]"
    by (simp add: aspath_as_add_def)
  show ?case
  proof (cases "as = []")
    case True
    then show ?thesis using Cons.prems str2_loop_number [of s a] by (simp add: add)
  next
    case False
    have "no_digit (sep # join_asns sep as @ s)" using Cons.prems by (simp add: no_digit_def)
    then show ?thesis
      using Cons.prems Cons.IH [of a "assegment_append_asns seg [a]"] False
        str2_loop_number [of "sep # join_asns sep as @ s" a] str2_loop_sep [OF Cons.prems(2)]
      by (simp add: add assegment_append_asns_def)
  qed
qed simp

definition bracketed :: "u8 \<Rightarrow> bool" where
  "bracketed ty \<longleftrightarrow> ty = AS_SET \<or> ty = AS_CONFED_SET \<or> ty = AS_CONFED_SEQUENCE"

lemma delimiter_start:
  "bracketed ty \<Longrightarrow> str2_loop (aspath_delimiter_char ty 0 # s) asno ty0 need segs =
     str2_loop s asno ty False (segs @ [assegment_new ty 0])"
  unfolding bracketed_def
  by (subst str2_loop.simps) (elim disjE; simp add: aspath_gettoken_def is_sep_def is_space_def
      aspath_delimiter_char_def seg_types aspath_segment_add_def)

lemma delimiter_end:
  "bracketed ty \<Longrightarrow> str2_loop (aspath_delimiter_char ty 1 # s) asno ty0 need segs =
     str2_loop s asno AS_SEQUENCE True segs"
  unfolding bracketed_def
  by (subst str2_loop.simps) (elim disjE; simp add: aspath_gettoken_def is_sep_def is_space_def
      aspath_delimiter_char_def seg_types)

lemma delimiter_no_digit: "bracketed ty \<Longrightarrow> which \<le> 1 \<Longrightarrow> no_digit (aspath_delimiter_char ty which # s)"
  unfolding bracketed_def
  by (elim disjE; cases which) (simp_all add: no_digit_def is_digit_def aspath_delimiter_char_def seg_types)

lemma separator_sep: "is_sep (separator ty)" "\<not> is_digit (separator ty)"
  by (simp_all add: separator_def is_sep_def is_space_def is_digit_def)

text \<open>Paths that the printed form determines.\<close>

fun printable :: "assegment list \<Rightarrow> bool" where
  "printable [] = True"
| "printable (seg # segs) = (valid_type (sg_type seg) \<and> (sg_type seg = AS_SEQUENCE \<longrightarrow> asns seg \<noteq> []) \<and>
     (segs \<noteq> [] \<longrightarrow> \<not> ASSEGMENT_TYPES_PACKABLE seg (hd segs)) \<and> printable segs)"

lemma no_digit_tail: "no_digit ((if segs \<noteq> [] then '' '' else []) @ path_text segs)"
  by (cases segs) (simp_all add: no_digit_def is_digit_def)

lemma str2_loop_tail:
  "str2_loop ((if segs \<noteq> [] then '' '' else []) @ path_text segs) asno ty need acc =
     str2_loop (path_text segs) asno ty need acc"
  using str2_loop_sep [of "CHR '' ''"] by (cases segs) (simp_all add: is_sep_def is_space_def)

lemma str2_loop_bracketed:
  assumes "bracketed (sg_type seg)"
  shows "\<exists>asno'. str2_loop (seg_text seg @ s) asno ty need acc = str2_loop s asno' AS_SEQUENCE True (acc @ [seg])"
proof -
  let ?ty = "sg_type seg"
  have seg_eq: "seg_text seg @ s = aspath_delimiter_char ?ty 0 #
      join_asns (separator ?ty) (asns seg) @ aspath_delimiter_char ?ty 1 # s"
    using assms by (auto simp: seg_text_def bracketed_def seg_types)
  have new: "assegment_append_asns (assegment_new ?ty 0) (asns seg) = seg"
    by (simp add: assegment_append_asns_def assegment_new_def)
  show ?thesis
  proof (cases "asns seg = []")
    case True
    then have "assegment_new ?ty 0 = seg" using new by (simp add: assegment_append_asns_def)
    then show ?thesis using delimiter_start [OF assms] delimiter_end [OF assms] True by (auto simp: seg_eq)
  next
    case False
    then show ?thesis
      using delimiter_start [OF assms] delimiter_end [OF assms] new separator_sep
        str2_loop_join [OF delimiter_no_digit [OF assms, of 1] _ _ False]
      by (auto simp: seg_eq)
  qed
qed

lemma str2_loop_sequence:
  assumes "sg_type seg = AS_SEQUENCE" "asns seg \<noteq> []" "no_digit s"
  shows "\<exists>asno'. str2_loop (seg_text seg @ s) asno AS_SEQUENCE True acc = str2_loop s asno' AS_SEQUENCE False (acc @ [seg])"
proof -
  obtain a as where as: "asns seg = a # as" using assms(2) by (cases "asns seg") auto
  have seg_eq: "seg_text seg = join_asns (separator AS_SEQUENCE) (asns seg)" using assms(1) by (simp add: seg_text_def)
  have one: "aspath_as_add (aspath_segment_add acc AS_SEQUENCE) a = acc @ [\<lparr>sg_type = AS_SEQUENCE, asns = [a]\<rparr>]"
    by (simp add: aspath_as_add_def aspath_segment_add_def assegment_append_asns_def assegment_new_def)
  show ?thesis
  proof (cases "as = []")
    case True
    then have "seg = \<lparr>sg_type = AS_SEQUENCE, asns = [a]\<rparr>" using assms(1) as by (cases seg) simp
    moreover have "seg_text seg @ s = show_u (unat a) @ s" using seg_eq True as by simp
    ultimately show ?thesis using str2_loop_number [OF assms(3), of a asno AS_SEQUENCE True acc] one by auto
  next
    case False
    let ?sep = "separator AS_SEQUENCE"
    have "no_digit (?sep # join_asns ?sep as @ s)" using separator_sep by (simp add: no_digit_def)
    then have "str2_loop (seg_text seg @ s) asno AS_SEQUENCE True acc =
        str2_loop (join_asns ?sep as @ s) a AS_SEQUENCE False (acc @ [\<lparr>sg_type = AS_SEQUENCE, asns = [a]\<rparr>])"
      using str2_loop_number one str2_loop_sep separator_sep False by (simp add: seg_eq as)
    also have "\<dots> = str2_loop s (last as) AS_SEQUENCE False
        (acc @ [assegment_append_asns \<lparr>sg_type = AS_SEQUENCE, asns = [a]\<rparr> as])"
      by (rule str2_loop_join [OF assms(3)]) (use separator_sep False in auto)
    also have "assegment_append_asns \<lparr>sg_type = AS_SEQUENCE, asns = [a]\<rparr> as = seg"
      using assms(1) as by (cases seg) (simp add: assegment_append_asns_def)
    finally show ?thesis by blast
  qed
qed

lemma str2_loop_path:
  "printable segs \<Longrightarrow> (if need then ty = AS_SEQUENCE else segs = [] \<or> sg_type (hd segs) \<noteq> AS_SEQUENCE) \<Longrightarrow>
   str2_loop (path_text segs) asno ty need acc = Some (acc @ segs)"
proof (induction segs arbitrary: asno ty need acc)
  case Nil
  then show ?case by (subst str2_loop.simps) (simp add: aspath_gettoken_def)
next
  case (Cons seg segs)
  let ?s = "(if segs \<noteq> [] then '' '' else []) @ path_text segs"
  show ?case
  proof (cases "sg_type seg = AS_SEQUENCE")
    case True
    then have n: "need" "ty = AS_SEQUENCE" "asns seg \<noteq> []" using Cons.prems by (auto split: if_splits)
    then obtain asno' where "str2_loop (path_text (seg # segs)) asno ty need acc =
        str2_loop ?s asno' AS_SEQUENCE False (acc @ [seg])"
      using str2_loop_sequence [OF True n(3) no_digit_tail [of segs], of asno acc] by auto
    moreover have "segs = [] \<or> sg_type (hd segs) \<noteq> AS_SEQUENCE"
      using Cons.prems(1) True by (auto simp: ASSEGMENT_TYPES_PACKABLE_def)
    ultimately show ?thesis using Cons.IH [of False] Cons.prems(1) str2_loop_tail by simp
  next
    case False
    then have "bracketed (sg_type seg)" using Cons.prems(1) by (auto simp: bracketed_def valid_type_def)
    then obtain asno' where "str2_loop (path_text (seg # segs)) asno ty need acc =
        str2_loop ?s asno' AS_SEQUENCE True (acc @ [seg])" using str2_loop_bracketed by fastforce
    then show ?thesis using Cons.IH [of True AS_SEQUENCE] Cons.prems(1) str2_loop_tail by simp
  qed
qed

section \<open>The wire format\<close>

definition to16 :: "u32 \<Rightarrow> u16" where
  "to16 a = (if a \<le> BGP_AS_MAX then ucast a else BGP_AS_TRANS)"

definition as_width :: "bool \<Rightarrow> nat" where
  "as_width u = (if u then 4 else 2)"

definition enc_as :: "bool \<Rightarrow> u32 \<Rightarrow> u8 list" where
  "enc_as u a = (if u then be_bytes 4 a else be_bytes 2 (to16 a))"

text \<open>What a number is after a trip through the format: with two bytes, large ones become AS_TRANS.\<close>

definition via :: "bool \<Rightarrow> u32 \<Rightarrow> u32" where
  "via u a = (if u then a else ucast (to16 a))"

definition wire_seg :: "bool \<Rightarrow> assegment \<Rightarrow> u8 list" where
  "wire_seg u seg = sg_type seg # of_nat (sg_len seg) # concat (map (enc_as u) (asns seg))"

definition wire :: "bool \<Rightarrow> assegment list \<Rightarrow> u8 list" where
  "wire u segs = concat (map (wire_seg u) segs)"

lemma length_enc_as [simp]: "length (enc_as u a) = as_width u"
  by (simp add: enc_as_def as_width_def del: be_bytes.simps)

lemma length_enc_all [simp]: "length (concat (map (enc_as u) as)) = as_width u * length as"
  by (induction as) simp_all

lemma ASSEGMENT_SIZE_width: "ASSEGMENT_SIZE n u = 2 + as_width u * n"
  by (simp add: ASSEGMENT_SIZE_def ASSEGMENT_DATA_SIZE_def AS_HEADER_SIZE_def AS16_VALUE_SIZE_def as_width_def)

lemma length_wire_seg: "length (wire_seg u seg) = ASSEGMENT_LEN seg u"
  by (simp add: wire_seg_def ASSEGMENT_LEN_def ASSEGMENT_SIZE_width)

lemma enc_as_cases: "enc_as True = be_bytes 4" "enc_as False = (\<lambda>a. be_bytes 2 (to16 a))"
  by (simp_all add: enc_as_def fun_eq_iff del: be_bytes.simps)

lemma put_as_cases: "put_as True a = stream_putl a" "put_as False a = stream_putw (to16 a)"
  by (auto simp: put_as_def to16_def fun_eq_iff)

lemma put_all_16: "put_all (put_as False) as = put_all stream_putw (map to16 as)"
  by (induction as; rule ext; simp add: put_as_cases)

lemma put_all_32: "put_all (put_as True) as = put_all stream_putl as"
  by (induction as; rule ext; simp add: put_as_cases)

lemma put_all_as:
  "stream_ok s \<Longrightarrow> as_width u * length as \<le> space s \<Longrightarrow>
   put_all (put_as u) as s = Inr (appended (concat (map (enc_as u) as)) s)"
  by (cases u) (simp_all add: put_all_32 put_all_16 sl.put_all_spec sw.put_all_spec as_width_def enc_as_cases
      comp_def del: be_bytes.simps)

lemma get_all_16:
  "get_all (get_as False) n s = rbind (get_all stream_getw n s) (\<lambda>(ws, s'). Inr (map ucast ws, s'))"
proof (induction n arbitrary: s)
  case (Suc n)
  show ?case
  proof (cases "stream_getw s")
    case (Inr r)
    then obtain w s' where "stream_getw s = Inr (w, s')" by (cases r) auto
    then show ?thesis using Suc [of s'] by (cases "get_all stream_getw n s'") (auto simp: get_as_def)
  qed (simp add: get_as_def)
qed simp

lemma get_all_32: "get_all (get_as True) n s = get_all stream_getl n s"
  by (induction n arbitrary: s) (simp_all add: get_as_def)

lemma get_all_as:
  assumes "stream_ok s" "readable s = concat (map (enc_as u) as) @ rest"
  shows "get_all (get_as u) (length as) s = Inr (map (via u) as, advanced (as_width u * length as) s)"
proof (cases u)
  case True
  then have "get_all stream_getl (length as) s = Inr (as, advanced (4 * length as) s)"
    using sl.get_all_spec [OF assms(1)] assms(2) by (simp add: enc_as_cases del: be_bytes.simps)
  moreover have "via u = id" using True by (simp add: via_def fun_eq_iff)
  ultimately show ?thesis using True by (simp add: get_all_32 as_width_def)
next
  case False
  then have "readable s = concat (map (be_bytes 2) (map to16 as)) @ rest"
    using assms(2) by (simp add: enc_as_cases comp_def del: be_bytes.simps)
  from sw.get_all_spec [OF assms(1) this]
  have "get_all stream_getw (length as) s = Inr (map to16 as, advanced (2 * length as) s)" by simp
  then show ?thesis using False by (simp add: get_all_16 as_width_def via_def comp_def)
qed

subsection \<open>Writing\<close>

lemma header_put_spec:
  assumes "stream_ok s" "n \<le> AS_SEGMENT_MAX" "2 \<le> space s"
  shows "assegment_header_put s ty n = Inr (endp s + 1, appended [ty, of_nat n] s)"
proof -
  have one: "be_bytes (Suc 0) c = [c]" for c :: u8 by simp
  have "stream_putc ty s = Inr (1, appended [ty] s)" using assms by (simp add: sc.put_spec one del: be_bytes.simps)
  moreover have "stream_ok (appended [ty] s)" "endp (appended [ty] s) = endp s + 1" "space (appended [ty] s) = space s - 1"
    using assms by simp_all
  moreover have "stream_get_endp (appended [ty] s) = Inr (endp (appended [ty] s))"
    using calculation by (simp add: stream_get_endp_def)
  moreover have "stream_putc (of_nat n) (appended [ty] s) = Inr (1, appended [of_nat n] (appended [ty] s))"
    using calculation assms by (simp add: sc.put_spec one del: be_bytes.simps)
  moreover have "appended [of_nat n] (appended [ty] s) = appended [ty, of_nat n] s"
    using assms by (simp add: appended_append)
  ultimately show ?thesis using assms(2) by (simp add: assegment_header_put_def)
qed

lemma data_put_spec:
  assumes "stream_ok s" "length as \<le> AS_SEGMENT_MAX" "as_width u * length as \<le> space s"
  shows "assegment_data_put s as (length as) u = Inr (appended (concat (map (enc_as u) as)) s)"
  using assms by (simp add: assegment_data_put_def mem_get_def put_all_as)

lemma put_split_short: "sg_len seg \<le> AS_SEGMENT_MAX \<Longrightarrow> put_split seg u 0 bytes s = Inr (0, bytes, s)"
  by (subst put_split.simps) simp

lemma put_packed_none:
  "segs = [] \<or> \<not> ASSEGMENTS_PACKABLE seg (hd segs) \<Longrightarrow> put_packed seg w u lenp segs p s = Inr (p, segs, s)"
  by (cases segs) simp_all

text \<open>Paths that the format can carry as they are.\<close>

fun sendable :: "assegment list \<Rightarrow> bool" where
  "sendable [] = True"
| "sendable (seg # segs) = (sg_len seg \<le> AS_SEGMENT_MAX \<and>
     (segs \<noteq> [] \<longrightarrow> \<not> ASSEGMENTS_PACKABLE seg (hd segs)) \<and> sendable segs)"

lemma put_path_wire:
  "stream_ok s \<Longrightarrow> sendable segs \<Longrightarrow> length (wire u segs) \<le> space s \<Longrightarrow>
   put_path u segs bytes s = Inr (bytes + length (wire u segs), appended (wire u segs) s)"
proof (induction segs arbitrary: bytes s)
  case Nil
  then show ?case by (simp add: wire_def appended_def)
next
  case (Cons seg segs)
  let ?d = "concat (map (enc_as u) (asns seg))" and ?h = "[sg_type seg, of_nat (sg_len seg)] :: u8 list"
  have w: "wire u (seg # segs) = ?h @ ?d @ wire u segs" by (simp add: wire_def wire_seg_def)
  have len: "sg_len seg \<le> AS_SEGMENT_MAX" "2 + as_width u * sg_len seg + length (wire u segs) \<le> space s"
    using Cons.prems w by simp_all
  define s1 where "s1 = appended ?h s"
  define s2 where "s2 = appended ?d s1"
  have ok1: "stream_ok s1" "space s1 = space s - 2" using Cons.prems(1) len by (simp_all add: s1_def)
  have ok2: "stream_ok s2" "space s2 = space s1 - as_width u * sg_len seg" using ok1 len by (simp_all add: s2_def)
  have pk: "put_packed seg 0 u lenp segs 0 x = Inr (0, segs, x)" for lenp x
    by (rule put_packed_none) (use Cons.prems(2) in auto)
  have "put_path u (seg # segs) bytes s = put_path u segs (bytes + ASSEGMENT_SIZE (sg_len seg) u) s2"
    using Cons.prems(1,2) len ok1 header_put_spec [OF Cons.prems(1) len(1)] data_put_spec [OF ok1(1) len(1), of u] pk
    by (simp add: put_split_short ASSEGMENT_LEN_def ASSEGMENT_SIZE_width s1_def s2_def)
  also have "\<dots> = Inr (bytes + ASSEGMENT_SIZE (sg_len seg) u + length (wire u segs), appended (wire u segs) s2)"
    using Cons.IH [OF ok2(1)] Cons.prems(2) ok1(2) ok2(2) len(2) by simp
  also have "appended (wire u segs) s2 = appended (wire u (seg # segs)) s"
    using Cons.prems(1) len ok1 ok2 unfolding s2_def s1_def w
    by (simp add: appended_append)
  finally show ?case by (simp add: w ASSEGMENT_SIZE_width)
qed

subsection \<open>Reading\<close>

definition via_seg :: "bool \<Rightarrow> assegment \<Rightarrow> assegment" where
  "via_seg u seg = seg\<lparr>asns := map (via u) (asns seg)\<rparr>"

definition readable_seg :: "assegment \<Rightarrow> bool" where
  "readable_seg seg \<longleftrightarrow> valid_type (sg_type seg) \<and> 0 < sg_len seg \<and> sg_len seg \<le> AS_SEGMENT_MAX"

lemma getc_spec:
  "stream_ok s \<Longrightarrow> readable s = c # rest \<Longrightarrow> stream_getc s = Inr (c, advanced 1 s)"
  by (simp add: sc.get_spec)

lemma advanced_advanced: "advanced m (advanced n s) = advanced (n + m) s"
  by (simp add: advanced_def add.commute)

lemma parse_loop_wire:
  "stream_ok s \<Longrightarrow> readable s = wire u segs @ rest \<Longrightarrow> list_all readable_seg segs \<Longrightarrow>
   len = bytes + length (wire u segs) \<Longrightarrow>
   parse_loop u len bytes acc s = Inr (Some (acc @ map (via_seg u) segs), advanced (length (wire u segs)) s)"
proof (induction segs arbitrary: bytes acc s)
  case Nil
  then show ?case by (subst parse_loop.simps) (simp add: wire_def advanced_def)
next
  case (Cons seg segs)
  let ?n = "sg_len seg" and ?d = "concat (map (enc_as u) (asns seg))"
  have seg: "valid_type (sg_type seg)" "0 < ?n" "?n \<le> 255"
    using Cons.prems(3) by (simp_all add: readable_seg_def AS_SEGMENT_MAX_def)
  have w: "wire u (seg # segs) = sg_type seg # of_nat ?n # ?d @ wire u segs" by (simp add: wire_def wire_seg_def)
  then have lw: "length (wire u (seg # segs)) = ASSEGMENT_SIZE ?n u + length (wire u segs)"
    by (simp add: ASSEGMENT_SIZE_width)
  have r: "readable s = sg_type seg # of_nat ?n # ?d @ wire u segs @ rest" using Cons.prems(2) w by simp
  have g1: "stream_getc s = Inr (sg_type seg, advanced 1 s)" by (rule getc_spec [OF Cons.prems(1) r])
  have ok1: "stream_ok (advanced 1 s)" "readable (advanced 1 s) = of_nat ?n # ?d @ wire u segs @ rest"
    using Cons.prems(1) r by simp_all
  have g2: "stream_getc (advanced 1 s) = Inr (of_nat ?n, advanced 2 s)"
    using getc_spec [OF ok1] by (simp add: advanced_advanced numeral_2_eq_2)
  have ok2: "stream_ok (advanced 2 s)" "readable (advanced 2 s) = ?d @ wire u segs @ rest"
    using Cons.prems(1) r by simp_all
  define s3 where "s3 = advanced (ASSEGMENT_SIZE ?n u) s"
  have g3: "get_all (get_as u) ?n (advanced 2 s) = Inr (map (via u) (asns seg), s3)"
    using get_all_as [OF ok2] by (simp add: s3_def ASSEGMENT_SIZE_width advanced_advanced)
  have ok3: "stream_ok s3" "readable s3 = wire u segs @ rest"
    using Cons.prems(1) r by (simp_all add: s3_def ASSEGMENT_SIZE_width)
  have u: "unat (of_nat ?n :: u8) = ?n" using seg(3) by (simp add: unat_of_nat take_bit_nat_eq_self)
  have nz: "(of_nat ?n :: u8) \<noteq> 0" using u seg(2) by (metis less_irrefl unat_0)
  have big: "2 < ASSEGMENT_SIZE ?n u" using seg(2) by (simp add: ASSEGMENT_SIZE_width as_width_def)
  have "parse_loop u len bytes acc s =
      parse_loop u len (bytes + ASSEGMENT_SIZE ?n u) (acc @ [\<lparr>sg_type = sg_type seg, asns = map (via u) (asns seg)\<rparr>]) s3"
    using Cons.prems(4) lw big g1 g2 g3 u nz seg(1)
    by (subst parse_loop.simps) (simp add: AS_HEADER_SIZE_def Let_def)
  also have "\<lparr>sg_type = sg_type seg, asns = map (via u) (asns seg)\<rparr> = via_seg u seg"
    by (cases seg) (simp add: via_seg_def)
  also have "parse_loop u len (bytes + ASSEGMENT_SIZE ?n u) (acc @ [via_seg u seg]) s3 =
      Inr (Some ((acc @ [via_seg u seg]) @ map (via_seg u) segs), advanced (length (wire u segs)) s3)"
    by (rule Cons.IH [OF ok3]) (use Cons.prems(3,4) lw in simp_all)
  finally show ?case by (simp add: s3_def advanced_advanced lw)
qed

lemma wire_even: "even (length (wire u segs))"
  by (induction segs) (auto simp: wire_def wire_seg_def as_width_def)

lemma wire_bounds: "segs \<noteq> [] \<Longrightarrow> 2 \<le> length (wire u segs)"
  by (cases segs) (simp_all add: wire_def wire_seg_def)

lemma segments_parse_wire:
  assumes "stream_ok s" "readable s = wire u segs @ rest" "list_all readable_seg segs"
  shows "assegments_parse s (length (wire u segs)) u =
    Inr (Some (assegment_normalise (map (via_seg u) segs)), advanced (length (wire u segs)) s)"
proof (cases "segs = []")
  case True
  then show ?thesis by (simp add: assegments_parse_def wire_def advanced_def)
next
  case False
  then have "wire u segs \<noteq> []" using wire_bounds [OF False, of u] by force
  then show ?thesis using assms wire_bounds [OF False, of u] wire_even [of u segs]
      parse_loop_wire [OF assms, of "length (wire u segs)" 0 "[]"]
    by (simp add: assegments_parse_def AS_HEADER_SIZE_def AS16_VALUE_SIZE_def even_iff_mod_2_eq_zero)
qed

section \<open>Operations\<close>

definition path_asns :: "assegment list \<Rightarrow> u32 list" where
  "path_asns segs = concat (map asns segs)"

definition seg_hops :: "assegment \<Rightarrow> nat" where
  "seg_hops seg = (if sg_type seg = AS_SEQUENCE then sg_len seg else if sg_type seg = AS_SET then 1 else 0)"

lemma count_hops_sum: "aspath_count_hops p = (\<Sum>seg \<leftarrow> segments p. seg_hops seg)"
  by (simp add: aspath_count_hops_def seg_hops_def)

lemma path_asns_simps [simp]:
  "path_asns [] = []" "path_asns (seg # segs) = asns seg @ path_asns segs"
  "path_asns (segs @ segs') = path_asns segs @ path_asns segs'"
  by (simp_all add: path_asns_def)

lemma normalise_hops: "(\<Sum>seg \<leftarrow> assegment_normalise segs. seg_hops seg) = (\<Sum>seg \<leftarrow> segs. seg_hops seg)"
  using normalise_sums [where f = "\<lambda>ty n. if ty = AS_SEQUENCE then n else if ty = AS_SET then 1 else 0"]
  by (simp add: seg_hops_def seg_types)

lemma normalise_path_asns: "set (path_asns (assegment_normalise segs)) = set (path_asns segs)"
  using normalise_asns [of segs] by (simp add: path_asns_def)

lemma normal_sendable: "normal segs \<Longrightarrow> list_all readable_seg segs \<Longrightarrow> sendable segs"
  by (induction segs rule: normal.induct) (auto simp: readable_seg_def ASSEGMENTS_PACKABLE_def)

lemma normal_printable: "normal segs \<Longrightarrow> list_all readable_seg segs \<Longrightarrow> printable segs"
  by (induction segs rule: normal.induct) (auto simp: readable_seg_def)

lemma via_small: "u \<or> a \<le> BGP_AS_MAX \<Longrightarrow> via u a = a"
proof (cases u)
  case False
  assume "u \<or> a \<le> BGP_AS_MAX"
  then have a: "a \<le> BGP_AS_MAX" using False by simp
  then have "unat a \<le> 65535" by (simp add: BGP_AS_MAX_def word_le_nat_alt)
  then have "unat (ucast (ucast a :: u16) :: u32) = unat a"
    by (simp add: unsigned_ucast_eq unsigned_take_bit_eq take_bit_nat_eq_self)
  then have "(ucast (ucast a :: u16) :: u32) = a" by (simp add: word_unat_eq_iff)
  then show ?thesis using False a by (simp add: via_def to16_def)
qed (simp add: via_def)

lemma via_segs: "\<forall>a \<in> set (path_asns segs). u \<or> a \<le> BGP_AS_MAX \<Longrightarrow> map (via_seg u) segs = segs"
proof (induction segs)
  case (Cons seg segs)
  then have "map (via u) (asns seg) = asns seg" by (intro map_idI via_small) auto
  then show ?case using Cons by (simp add: via_seg_def)
qed simp

subsection \<open>Reconciliation\<close>

lemma reconcile_hops:
  "list_all (\<lambda>seg. sg_type seg = AS_SET \<or> sg_type seg = AS_SEQUENCE) segs \<Longrightarrow>
   h \<le> int (\<Sum>seg \<leftarrow> segs. seg_hops seg) \<Longrightarrow>
   \<exists>out. reconcile_loop segs h cp = Inr out \<and> (\<Sum>seg \<leftarrow> out. seg_hops seg) = nat h \<and>
     list_all (\<lambda>seg. valid_type (sg_type seg)) out \<and> (0 < h \<longrightarrow> out \<noteq> [])"
proof (induction segs arbitrary: h cp)
  case (Cons seg segs)
  show ?case
  proof (cases "h > 0")
    case False
    then show ?thesis by simp
  next
    case True
    show ?thesis
    proof (cases "sg_type seg = AS_SET")
      case set: True
      have "h - 1 \<le> int (\<Sum>seg \<leftarrow> segs. seg_hops seg)" using Cons.prems(2) set by (simp add: seg_hops_def seg_types)
      then obtain out where "reconcile_loop segs (h - 1) (sg_len seg) = Inr out"
        "(\<Sum>seg \<leftarrow> out. seg_hops seg) = nat (h - 1)" "list_all (\<lambda>seg. valid_type (sg_type seg)) out"
        using Cons.IH Cons.prems(1) by fastforce
      then show ?thesis using True set
        by (simp add: seg_hops_def seg_types assegment_append_asns_def assegment_new_def valid_type_def)
    next
      case False
      then have ty: "sg_type seg = AS_SEQUENCE" using Cons.prems(1) by simp
      have "h - int (sg_len seg) \<le> int (\<Sum>seg \<leftarrow> segs. seg_hops seg)"
        using Cons.prems(2) ty by (simp add: seg_hops_def)
      then obtain out where "reconcile_loop segs (h - int (sg_len seg)) (min (sg_len seg) (nat h)) = Inr out"
        "(\<Sum>seg \<leftarrow> out. seg_hops seg) = nat (h - int (sg_len seg))" "list_all (\<lambda>seg. valid_type (sg_type seg)) out"
        using Cons.IH Cons.prems(1) by fastforce
      moreover have "min (sg_len seg) (nat h) + nat (h - int (sg_len seg)) = nat h" by arith
      ultimately show ?thesis using True ty
        by (simp add: seg_hops_def assegment_append_asns_def assegment_new_def valid_type_def seg_types)
    qed
  qed
qed simp

subsection \<open>Aggregation\<close>

definition set_of :: "u32 list option \<Rightarrow> u32 set" where
  "set_of asset = (case asset of None \<Rightarrow> {} | Some xs \<Rightarrow> set xs)"

lemma set_of_None [simp]: "set_of None = {}"
  by (simp add: set_of_def)

lemma set_of_add [simp]: "set_of (aspath_aggregate_as_set_add asset a) = insert a (set_of asset)"
  by (auto simp: set_of_def aspath_aggregate_as_set_add_def split: option.splits)

lemma set_of_adds [simp]: "set_of (fold (\<lambda>a s. aspath_aggregate_as_set_add s a) as asset) = set as \<union> set_of asset"
  by (induction as arbitrary: asset) auto

lemma aggregate_rest_set:
  "set_of (aggregate_rest k segs asset) =
     set_of asset \<union> (case segs of [] \<Rightarrow> {} | seg # rest \<Rightarrow> set (drop k (asns seg)) \<union> set (path_asns rest))"
proof (induction k segs asset rule: aggregate_rest.induct)
  case (2 k seg segs asset)
  then show ?case by (cases segs) auto
qed simp

declare aggregate_rest.simps [simp del]

lemma aggregate_rest_Cons:
  "set_of (aggregate_rest k (seg # rest) asset) = set_of asset \<union> set (drop k (asns seg)) \<union> set (path_asns rest)"
  by (auto simp: aggregate_rest_set)

lemma aggregate_rest_0: "set_of (aggregate_rest 0 segs asset) = set_of asset \<union> set (path_asns segs)"
  by (cases segs) (auto simp: aggregate_rest_set)

lemma match_prefix_take: "take (match_prefix as bs) as = take (match_prefix as bs) bs"
  by (induction as bs rule: match_prefix.induct) auto

lemma match_prefix_full:
  "match_prefix as bs = min (length as) (length bs) \<Longrightarrow> length as = length bs \<Longrightarrow> as = bs"
  by (metis match_prefix_take min.idem order_refl take_all)

text \<open>Nothing is made up: what is collected comes from one of the two paths.\<close>

lemma aggregate_common_sound:
  "aggregate_common segs1 segs2 m acc = (acc', m', rest1, rest2) \<Longrightarrow>
   set (path_asns acc') \<subseteq> set (path_asns acc) \<union> set (path_asns segs1) \<and>
   set (path_asns rest1) \<subseteq> set (path_asns segs1) \<and> set (path_asns rest2) \<subseteq> set (path_asns segs2)"
proof (induction segs1 segs2 m acc rule: aggregate_common.induct)
  case (1 seg1 rest1' seg2 rest2' m acc)
  let ?m = "match_prefix (asns seg1) (asns seg2)"
  have new: "set (asns (assegment_append_asns (assegment_new (sg_type seg1) 0) (take ?m (asns seg1)))) \<subseteq> set (asns seg1)"
    by (auto simp: assegment_append_asns_def assegment_new_def dest: in_set_takeD)
  show ?case using 1 new by (fastforce simp: Let_def split: if_splits)
qed auto

lemma aggregate_asns:
  assumes "aspath_aggregate p1 p2 = Inr r" "aggregate_common (segments p1) (segments p2) 0 [] = (acc, m, rest1, rest2)"
  shows "set (path_asns (segments r)) =
    set (path_asns acc) \<union> set_of (aggregate_rest m rest2 (aggregate_rest m rest1 None))"
proof -
  let ?asset = "aggregate_rest m rest2 (aggregate_rest m rest1 None)"
  have "segments r = assegment_normalise (acc @ (case ?asset of None \<Rightarrow> [] | Some xs \<Rightarrow> [\<lparr>sg_type = AS_SET, asns = xs\<rparr>]))"
    using assms by (auto simp: aspath_aggregate_def str_update_text Let_def)
  then show ?thesis by (simp add: normalise_path_asns set_of_def split: option.split)
qed

lemma aggregate_total: "\<exists>r. aspath_aggregate p1 p2 = Inr r"
  by (simp add: aspath_aggregate_def str_update_text split_beta Let_def)

lemma aggregate_sound:
  assumes "aspath_aggregate p1 p2 = Inr r"
  shows "set (path_asns (segments r)) \<subseteq> set (path_asns (segments p1)) \<union> set (path_asns (segments p2))"
proof -
  obtain acc m rest1 rest2 where c: "aggregate_common (segments p1) (segments p2) 0 [] = (acc, m, rest1, rest2)"
    by (cases "aggregate_common (segments p1) (segments p2) 0 []") auto
  have "set_of (aggregate_rest m rest2 (aggregate_rest m rest1 None)) \<subseteq> set (path_asns rest1) \<union> set (path_asns rest2)"
    by (auto simp: aggregate_rest_set split: list.splits dest: in_set_dropD)
  then show ?thesis using aggregate_asns [OF assms c] aggregate_common_sound [OF c] by auto
qed

text \<open>Nothing is lost when the comparison ends in the first segments.\<close>

lemma aggregate_complete:
  assumes "aspath_aggregate p1 p2 = Inr r"
    and "segments p1 = [] \<or> segments p2 = [] \<or> hd (segments p1) \<noteq> hd (segments p2)"
  shows "set (path_asns (segments r)) = set (path_asns (segments p1)) \<union> set (path_asns (segments p2))"
proof (cases "segments p1 = [] \<or> segments p2 = []")
  case True
  then have "aggregate_common (segments p1) (segments p2) 0 [] = ([], 0, segments p1, segments p2)"
    by (cases "segments p1"; cases "segments p2") auto
  from aggregate_asns [OF assms(1) this] show ?thesis by (simp add: aggregate_rest_0)
next
  case False
  then obtain seg1 t1 seg2 t2 where s: "segments p1 = seg1 # t1" "segments p2 = seg2 # t2" "seg1 \<noteq> seg2"
    using assms(2) by (auto simp: neq_Nil_conv)
  let ?m = "match_prefix (asns seg1) (asns seg2)"
  show ?thesis
  proof (cases "sg_type seg1 = sg_type seg2")
    case False
    then have "aggregate_common (segments p1) (segments p2) 0 [] = ([], 0, segments p1, segments p2)" using s by simp
    from aggregate_asns [OF assms(1) this] show ?thesis by (simp add: aggregate_rest_0)
  next
    case True
    have "asns seg1 \<noteq> asns seg2" using s(3) True by (cases seg1; cases seg2) simp
    then have stop: "?m \<noteq> min (sg_len seg1) (sg_len seg2) \<or> ?m \<noteq> sg_len seg1 \<or> sg_len seg1 \<noteq> sg_len seg2"
      using match_prefix_full by blast
    define acc where "acc = (if ?m \<noteq> 0 then [assegment_append_asns (assegment_new (sg_type seg1) 0) (take ?m (asns seg1))] else [])"
    have c: "aggregate_common (segments p1) (segments p2) 0 [] = (acc, ?m, segments p1, segments p2)"
      using s True stop by (simp add: acc_def Let_def)
    have acc: "set (path_asns acc) = set (take ?m (asns seg1))"
      by (simp add: acc_def assegment_append_asns_def assegment_new_def)
    have "set (asns seg1) = set (take ?m (asns seg1)) \<union> set (drop ?m (asns seg1))"
      by (metis append_take_drop_id set_append)
    moreover have "set (asns seg2) = set (take ?m (asns seg1)) \<union> set (drop ?m (asns seg2))"
      by (metis append_take_drop_id match_prefix_take set_append)
    ultimately show ?thesis using aggregate_asns [OF assms(1) c] acc
      by (simp add: s aggregate_rest_Cons Un_ac del: path_asns_simps(2)) (auto simp: path_asns_simps(2))
  qed
qed

section \<open>Properties\<close>

abbreviation path_of :: "assegment list \<Rightarrow> aspath" where
  "path_of segs \<equiv> \<lparr>segments = segs, astr = None\<rparr>"

abbreviation seq :: "u32 list \<Rightarrow> assegment" where
  "seq as \<equiv> \<lparr>sg_type = AS_SEQUENCE, asns = as\<rparr>"

abbreviation asset :: "u32 list \<Rightarrow> assegment" where
  "asset as \<equiv> \<lparr>sg_type = AS_SET, asns = as\<rparr>"



definition path_ex :: "assegment list" where
  "path_ex = [seq [64512, 7], asset [3, 9]]"

definition stream_ex64 :: stream where
  "stream_ex64 = \<lparr>getp = 0, endp = 0, ssize = 64, sdata = replicate 64 0\<rparr>"

lemma stream_ex64_ok: "stream_ok stream_ex64" "readable stream_ex64 = []" "space stream_ex64 = 64"
  by (simp_all add: stream_ok_def stream_ex64_def SIZE_T_def readable_def space_def)

lemma path_ex_ok: "normal path_ex" "path_ex \<noteq> []" "list_all readable_seg path_ex"
  by (simp_all add: path_ex_def is_set_def seg_types ASSEGMENT_TYPES_PACKABLE_def readable_seg_def
      valid_type_def AS_SEGMENT_MAX_def)


text \<open>C16: The printed form of a path determines it: for a path of valid segment types
  whose sequences are not empty and do not follow each other (as after normalisation),
  \<open>aspath_str2aspath\<close> applied to the string of \<open>aspath_make_str_count\<close> gives the path back.\<close>

theorem aspath_string_roundtrip:
  assumes "printable segs"
  shows "\<exists>str. aspath_make_str_count (path_of segs) = Inr (Some str) \<and>
    aspath_str2aspath str = Inr (Some \<lparr>segments = segs, astr = Some str\<rparr>)"
proof -
  have v: "list_all (\<lambda>seg. valid_type (sg_type seg)) segs" using assms by (induction segs) auto
  have "str2_loop (path_text segs) 0 AS_SEQUENCE True [] = Some segs" using str2_loop_path [OF assms] by simp
  then show ?thesis using v by (simp add: make_str_count_text aspath_str2aspath_def str_update_text)
qed

theorem aspath_string_roundtrip_witness:
  "printable path_ex \<and> (\<exists>str. aspath_make_str_count (path_of path_ex) = Inr (Some str) \<and>
    aspath_str2aspath str = Inr (Some \<lparr>segments = path_ex, astr = Some str\<rparr>))"
  using aspath_string_roundtrip [OF normal_printable [OF path_ex_ok(1,3)]] normal_printable [OF path_ex_ok(1,3)]
  by blast

text \<open>C18: \<open>aspath_make_str_count\<close> never writes past its buffer and never fails its final
  assertion: for every path the buffer it computes, and enlarges segment by segment, holds
  the text and its terminator. It returns no string exactly when a segment type is unknown.\<close>

theorem aspath_make_str_fits:
  "aspath_make_str_count p =
     Inr (if list_all (\<lambda>seg. valid_type (sg_type seg)) (segments p) then Some (path_text (segments p)) else None)"
  by (rule make_str_count_text)





text \<open>C40: \<open>aspath_aggregate\<close> loses AS numbers when one path continues the other: \<open>match\<close>
  keeps the length of the last common segment, and that many numbers of the next segment
  are skipped. Aggregating the sequence \<open>xs\<close> with \<open>xs\<close> followed by a set of no more numbers
  gives \<open>xs\<close> alone, so a loop through the set is no longer detected.\<close>

theorem aspath_aggregate_loses_asns:
  assumes "xs \<noteq> []" "length ys \<le> length xs"
  shows "\<exists>r. aspath_aggregate (path_of [seq xs]) (path_of [seq xs, asset ys]) = Inr r \<and> segments r = [seq xs]"
proof -
  have m: "match_prefix xs xs = length xs" by (induction xs) auto
  have "aggregate_common [seq xs] [seq xs, asset ys] 0 [] = ([seq xs], length xs, [], [asset ys])"
    using assms(1) m by (simp add: assegment_append_asns_def assegment_new_def)
  moreover have "normal [seq xs]" by (simp add: is_set_def seg_types)
  ultimately show ?thesis using assms(2)
    by (simp add: aspath_aggregate_def aggregate_rest.simps normalise_id str_update_text Let_def)
qed

theorem aspath_aggregate_loses_asns_witness:
  "\<exists>r. aspath_aggregate (path_of [seq [1, 2]]) (path_of [seq [1, 2], asset [7, 8]]) = Inr r \<and>
    aspath_loop_check (Some r) 7 = 0 \<and> aspath_loop_check (Some (path_of [seq [1, 2], asset [7, 8]])) 7 = 1"
  using aspath_aggregate_loses_asns [of "[1, 2]" "[7, 8]"] by (auto simp: aspath_loop_check_def)





lemma data_put_take:
  assumes "stream_ok s" "n \<le> AS_SEGMENT_MAX" "n \<le> length as" "as_width u * n \<le> space s"
  shows "assegment_data_put s as n u = Inr (appended (concat (map (enc_as u) (take n as))) s)"
  using assms by (simp add: assegment_data_put_def mem_get_def put_all_as)

lemma put_segment_wire:
  assumes "stream_ok s" "n \<le> AS_SEGMENT_MAX" "n \<le> length as" "ASSEGMENT_SIZE n u \<le> space s"
  shows "rbind (assegment_header_put s ty n) (\<lambda>(lenp, s1). rbind (assegment_data_put s1 as n u) (f lenp)) =
    f (endp s + 1) (appended (wire_seg u \<lparr>sg_type = ty, asns = take n as\<rparr>) s)"
proof -
  let ?s = "appended [ty, of_nat n] s"
  have sz: "2 \<le> space s" "as_width u * n \<le> space s - 2" using assms(4) by (simp_all add: ASSEGMENT_SIZE_width)
  then have "stream_ok ?s" "space ?s = space s - 2" using assms(1) by simp_all
  then have "assegment_data_put ?s as n u = Inr (appended (concat (map (enc_as u) (take n as))) ?s)"
    using data_put_take [OF _ assms(2,3)] sz by simp
  also have "appended (concat (map (enc_as u) (take n as))) ?s = appended (wire_seg u \<lparr>sg_type = ty, asns = take n as\<rparr>) s"
    using assms(1,3) sz by (simp add: appended_append wire_seg_def)
  finally show ?thesis using header_put_spec [OF assms(1,2) sz(1)] by simp
qed

lemma length_wire_take [simp]: "n \<le> length as \<Longrightarrow>
    length (wire_seg u \<lparr>sg_type = ty, asns = take n as\<rparr>) = ASSEGMENT_SIZE n u"
  by (simp add: wire_seg_def ASSEGMENT_SIZE_width)

lemma put_split_step:
  assumes "stream_ok s" "255 < sg_len seg - w" "ASSEGMENT_SIZE 255 u \<le> space s"
  shows "put_split seg u w b s = put_split seg u (w + 255) (b + ASSEGMENT_SIZE (w + 255) u)
    (appended (wire_seg u \<lparr>sg_type = sg_type seg, asns = take 255 (asns seg)\<rparr>) s)"
  using assms by (subst put_split.simps) (simp add: AS_SEGMENT_MAX_def put_segment_wire Let_def)

lemma put_split_done: "sg_len seg - w \<le> 255 \<Longrightarrow> put_split seg u w b s = Inr (w, b, s)"
  by (subst put_split.simps) (simp add: AS_SEGMENT_MAX_def)

text \<open>C39: A segment of more than 510 and at most 765 AS numbers is written as three segments,
  and the first two of them carry the same 255 numbers: the second block of the path is
  never sent. The value returned also differs from the number of bytes written.\<close>

theorem aspath_put_overlength:
  assumes "stream_ok s" "510 < sg_len seg" "sg_len seg \<le> 765"
    and "2 * ASSEGMENT_SIZE 255 u + ASSEGMENT_SIZE (sg_len seg - 510) u \<le> space s"
  shows "\<exists>n s'. aspath_put s (path_of [seg]) u = Inr (n, s') \<and>
    s' = appended (wire u [seg\<lparr>asns := take 255 (asns seg)\<rparr>, seg\<lparr>asns := take 255 (asns seg)\<rparr>,
                           seg\<lparr>asns := drop 510 (asns seg)\<rparr>]) s \<and>
    n = endp s' - endp s + as_width u * 255"
proof -
  let ?t = "sg_type seg" and ?as = "asns seg"
  let ?w = "wire_seg u \<lparr>sg_type = ?t, asns = take 255 ?as\<rparr>"
  let ?v = "wire_seg u \<lparr>sg_type = ?t, asns = take (sg_len seg - 510) (drop 510 ?as)\<rparr>"
  define s1 where "s1 = appended ?w s"
  define s2 where "s2 = appended ?w s1"
  have one: "stream_ok s1" "space s1 = space s - ASSEGMENT_SIZE 255 u" "endp s1 = endp s + ASSEGMENT_SIZE 255 u"
    using assms by (simp_all add: s1_def)
  have two: "stream_ok s2" "space s2 = space s1 - ASSEGMENT_SIZE 255 u" "endp s2 = endp s1 + ASSEGMENT_SIZE 255 u"
    using assms one by (simp_all add: s2_def)
  have lv: "length ?v = ASSEGMENT_SIZE (sg_len seg - 510) u" by (rule length_wire_take) simp
  have split: "put_split seg u 0 0 s = Inr (510, ASSEGMENT_SIZE 255 u + ASSEGMENT_SIZE 510 u, s2)"
    using assms one(1,2) put_split_step [of s seg 0 u 0] put_split_step [of s1 seg 255 u "ASSEGMENT_SIZE 255 u"]
    by (simp add: put_split_done s1_def s2_def)
  have fits: "ASSEGMENT_LEN seg u \<le> STREAM_WRITEABLE s"
    using assms(1,4) by (simp add: ASSEGMENT_LEN_def ASSEGMENT_SIZE_width add_mult_distrib2 [symmetric] algebra_simps)
  have ne: "asns seg \<noteq> []" using assms(2) by auto
  have "aspath_put s (path_of [seg]) u =
      Inr (ASSEGMENT_SIZE 255 u + ASSEGMENT_SIZE 510 u + ASSEGMENT_SIZE (sg_len seg - 510) u, appended ?v s2)"
    using assms one two fits split ne
    by (simp add: aspath_put_def put_segment_wire AS_SEGMENT_MAX_def)
  moreover have "appended ?v s2 = appended (?w @ ?w @ ?v) s"
    using assms one two lv unfolding s2_def s1_def by (simp add: appended_append)
  moreover have "endp (appended ?v s2) = endp s2 + ASSEGMENT_SIZE (sg_len seg - 510) u"
    using assms one two lv by simp
  moreover have "wire_seg u (seg\<lparr>asns := x\<rparr>) = wire_seg u \<lparr>sg_type = ?t, asns = x\<rparr>" for x
    by (simp add: wire_seg_def)
  ultimately show ?thesis using one(3) two(3)
    by (simp add: wire_def ASSEGMENT_SIZE_width)
qed

definition stream_ex4096 :: stream where
  "stream_ex4096 = \<lparr>getp = 0, endp = 0, ssize = 4096, sdata = replicate 4096 0\<rparr>"

lemma stream_ex4096_ok: "stream_ok stream_ex4096" "space stream_ex4096 = 4096" "endp stream_ex4096 = 0"
  by (simp_all add: stream_ok_def stream_ex4096_def SIZE_T_def readable_def space_def)

theorem aspath_put_overlength_witness:
  "\<exists>n s'. aspath_put stream_ex4096 (path_of [seq (replicate 255 1 @ replicate 255 2 @ replicate 90 3)]) False
     = Inr (n, s') \<and> endp s' + 510 = n"
  using aspath_put_overlength [of stream_ex4096 "seq (replicate 255 1 @ replicate 255 2 @ replicate 90 3)" False]
  by (auto simp: stream_ex4096_ok ASSEGMENT_SIZE_width as_width_def)

end
