(* ===== verification/Prefix_List.thy ===== *)
theory Prefix_List
  imports Stream_Buffer
begin

text \<open>
  Prefix lists (\<open>lib/plist.c\<close>): ordered lists of permit and deny rules on prefixes, kept
  in a master per address family, and the lists that peers send as outbound route filters
  (ORF). The doubly linked lists are lists here, since no two of them share a node; a
  pointer to a prefix list is its name, which is unique in its master. A rule list refines
  a finite map from sequence numbers to rules, and the rule that decides is the matching
  one with the lowest number.
\<close>

section \<open>Data\<close>

datatype prefix_list_type = PREFIX_DENY | PREFIX_PERMIT

datatype prefix_name_type = PREFIX_TYPE_STRING | PREFIX_TYPE_NUMBER

record prefix_list_entry =
  pe_seq :: int
  pe_le :: int
  pe_ge :: int
  pe_type :: prefix_list_type
  pe_any :: bool
  pe_prefix :: prefix
  pe_refcnt :: u64
  pe_hitcnt :: u64

record prefix_list =
  pl_name :: string
  pl_desc :: "string option"
  pl_type :: prefix_name_type
  pl_count :: int
  pl_entries :: "prefix_list_entry list"

text \<open>The hooks are functions of the client; the master records the calls in order.\<close>

datatype plist_hook = Add_Hook string | Delete_Hook "string option"

record prefix_master =
  pm_num :: "prefix_list list"
  pm_str :: "prefix_list list"
  pm_seqnum :: int
  pm_recent :: "string option"
  pm_add_hook :: bool
  pm_delete_hook :: bool
  pm_called :: "plist_hook list"

datatype cmd_result = CMD_SUCCESS | CMD_WARNING

text \<open>Values of type \<open>int\<close>: 32 bits, two's complement.\<close>

definition c_int :: "int \<Rightarrow> int" where
  "c_int n = sint (of_int n :: u32)"

section \<open>The lists of a master\<close>

fun strcmp :: "string \<Rightarrow> string \<Rightarrow> int" where
  "strcmp [] [] = 0"
| "strcmp [] (d # ds) = - of_char d"
| "strcmp (c # cs) [] = of_char c"
| "strcmp (c # cs) (d # ds) = (if c = d then strcmp cs ds else of_char c - of_char d)"

definition prefix_list_lookup :: "prefix_master \<Rightarrow> string \<Rightarrow> prefix_list option" where
  "prefix_list_lookup m name =
     (case find (\<lambda>l. pl_name l = name) (pm_num m) of
        Some l \<Rightarrow> Some l
      | None \<Rightarrow> find (\<lambda>l. pl_name l = name) (pm_str m))"

text \<open>All four cases of the insertion link the new element in front of \<open>point\<close>.\<close>

definition link_before :: "('a \<Rightarrow> bool) \<Rightarrow> 'a \<Rightarrow> 'a list \<Rightarrow> 'a list" where
  "link_before point x xs = takeWhile (\<lambda>y. \<not> point y) xs @ x # dropWhile (\<lambda>y. \<not> point y) xs"

definition prefix_list_insert :: "prefix_master \<Rightarrow> string \<Rightarrow> prefix_list \<times> prefix_master" where
  "prefix_list_insert m name =
     (if list_all is_digit name then
        let l = \<lparr>pl_name = name, pl_desc = None, pl_type = PREFIX_TYPE_NUMBER, pl_count = 0, pl_entries = []\<rparr>
        in (l, m\<lparr>pm_num := link_before (\<lambda>point. atoi (pl_name point) \<ge> digits_value name) l (pm_num m)\<rparr>)
      else
        let l = \<lparr>pl_name = name, pl_desc = None, pl_type = PREFIX_TYPE_STRING, pl_count = 0, pl_entries = []\<rparr>
        in (l, m\<lparr>pm_str := link_before (\<lambda>point. strcmp (pl_name point) name \<ge> 0) l (pm_str m)\<rparr>))"

definition prefix_list_get :: "prefix_master \<Rightarrow> string \<Rightarrow> prefix_list \<times> prefix_master" where
  "prefix_list_get m name =
     (case prefix_list_lookup m name of
        Some l \<Rightarrow> (l, m)
      | None \<Rightarrow> prefix_list_insert m name)"

definition prefix_list_delete :: "prefix_master \<Rightarrow> prefix_list \<Rightarrow> prefix_master" where
  "prefix_list_delete m l =
     (let m1 = (if pl_type l = PREFIX_TYPE_NUMBER
                then m\<lparr>pm_num := filter (\<lambda>x. pl_name x \<noteq> pl_name l) (pm_num m)\<rparr>
                else m\<lparr>pm_str := filter (\<lambda>x. pl_name x \<noteq> pl_name l) (pm_str m)\<rparr>);
          m2 = m1\<lparr>pm_recent := None\<rparr>
      in if pm_delete_hook m2 then m2\<lparr>pm_called := pm_called m2 @ [Delete_Hook None]\<rparr> else m2)"

text \<open>A change of the list that \<open>l\<close> points to.\<close>

definition plist_store :: "prefix_master \<Rightarrow> prefix_list \<Rightarrow> prefix_master" where
  "plist_store m l =
     (let put = map (\<lambda>x. if pl_name x = pl_name l then l else x)
      in m\<lparr>pm_num := put (pm_num m), pm_str := put (pm_str m)\<rparr>)"

section \<open>The entries of a list\<close>

definition prefix_list_entry_make ::
    "prefix \<Rightarrow> prefix_list_type \<Rightarrow> int \<Rightarrow> int \<Rightarrow> int \<Rightarrow> bool \<Rightarrow> prefix_list_entry res" where
  "prefix_list_entry_make p ty seq le ge any =
     rbind (prefix_copy \<lparr>family = 0, prefixlen = 0, u_bytes = replicate 16 0\<rparr> p) (\<lambda>q.
       Inr \<lparr>pe_seq = seq, pe_le = le, pe_ge = ge, pe_type = ty, pe_any = any, pe_prefix = q,
            pe_refcnt = 0, pe_hitcnt = 0\<rparr>)"

definition prefix_new_seq_get :: "prefix_list \<Rightarrow> int" where
  "prefix_new_seq_get l =
     c_int (foldl (\<lambda>maxseq e. if maxseq < pe_seq e then pe_seq e else maxseq) 0 (pl_entries l) div 5 * 5 + 5)"

text \<open>The searches return a pointer to an entry: its position in the list.\<close>

fun position :: "('a \<Rightarrow> bool) \<Rightarrow> 'a list \<Rightarrow> nat option" where
  "position P [] = None"
| "position P (x # xs) = (if P x then Some 0 else map_option Suc (position P xs))"

definition prefix_seq_check :: "prefix_list \<Rightarrow> int \<Rightarrow> nat option" where
  "prefix_seq_check l seq = position (\<lambda>e. pe_seq e = seq) (pl_entries l)"

definition prefix_list_entry_lookup ::
    "prefix_list \<Rightarrow> prefix \<Rightarrow> prefix_list_type \<Rightarrow> int \<Rightarrow> int \<Rightarrow> int \<Rightarrow> nat option" where
  "prefix_list_entry_lookup l p ty seq le ge =
     position (\<lambda>e. prefix_same (pe_prefix e) p \<and> pe_type e = ty \<and> \<not> (seq \<ge> 0 \<and> pe_seq e \<noteq> seq) \<and>
       pe_le e = le \<and> pe_ge e = ge) (pl_entries l)"

definition unlink_entry :: "prefix_list \<Rightarrow> nat \<Rightarrow> prefix_list" where
  "unlink_entry l i =
     l\<lparr>pl_entries := take i (pl_entries l) @ drop (Suc i) (pl_entries l), pl_count := pl_count l - 1\<rparr>"

definition prefix_list_entry_delete ::
    "prefix_master \<Rightarrow> prefix_list \<Rightarrow> nat option \<Rightarrow> bool \<Rightarrow> prefix_master" where
  "prefix_list_entry_delete m l pentry update_list =
     (case pentry of
        None \<Rightarrow> m
      | Some i \<Rightarrow>
          let l1 = unlink_entry l i; m1 = plist_store m l1 in
          if update_list then
            let m2 = (if pm_delete_hook m1 then m1\<lparr>pm_called := pm_called m1 @ [Delete_Hook (Some (pl_name l))]\<rparr>
                      else m1)
            in if pl_entries l1 = [] \<and> pl_desc l1 = None then prefix_list_delete m2 l1
               else m2\<lparr>pm_recent := Some (pl_name l)\<rparr>
          else m1)"

text \<open>The part of \<open>prefix_list_entry_add\<close> that changes the list: replace an entry of the
  same number and link the new one in front of the first larger number.\<close>

definition entry_add :: "prefix_list \<Rightarrow> prefix_list_entry \<Rightarrow> prefix_list" where
  "entry_add l pentry =
     (let e = (if pe_seq pentry = - 1 then pentry\<lparr>pe_seq := prefix_new_seq_get l\<rparr> else pentry);
          l1 = (case prefix_seq_check l (pe_seq e) of None \<Rightarrow> l | Some i \<Rightarrow> unlink_entry l i)
      in l1\<lparr>pl_entries := link_before (\<lambda>point. pe_seq point \<ge> pe_seq e) e (pl_entries l1),
            pl_count := pl_count l1 + 1\<rparr>)"

definition prefix_list_entry_add :: "prefix_master \<Rightarrow> prefix_list \<Rightarrow> prefix_list_entry \<Rightarrow> prefix_master" where
  "prefix_list_entry_add m l pentry =
     (let m1 = plist_store m (entry_add l pentry);
          m2 = (if pm_add_hook m1 then m1\<lparr>pm_called := pm_called m1 @ [Add_Hook (pl_name l)]\<rparr> else m1)
      in m2\<lparr>pm_recent := Some (pl_name l)\<rparr>)"

definition prefix_list_entry_match :: "prefix_list_entry \<Rightarrow> prefix \<Rightarrow> bool" where
  "prefix_list_entry_match e p =
     (if \<not> prefix_match (pe_prefix e) p then False
      else if pe_le e = 0 \<and> pe_ge e = 0 then \<not> (prefixlen (pe_prefix e) \<noteq> prefixlen p)
      else if pe_le e \<noteq> 0 \<and> uint (prefixlen p) > pe_le e then False
      else if pe_ge e \<noteq> 0 \<and> uint (prefixlen p) < pe_ge e then False
      else True)"

fun apply_loop :: "prefix_list_entry list \<Rightarrow> prefix \<Rightarrow> prefix_list_type \<times> prefix_list_entry list" where
  "apply_loop [] p = (PREFIX_DENY, [])"
| "apply_loop (e # es) p =
     (let e1 = e\<lparr>pe_refcnt := pe_refcnt e + 1\<rparr> in
      if prefix_list_entry_match e1 p then (pe_type e, e1\<lparr>pe_hitcnt := pe_hitcnt e1 + 1\<rparr> # es)
      else let (ty, es') = apply_loop es p in (ty, e1 # es'))"

definition prefix_list_apply :: "prefix_list option \<Rightarrow> prefix \<Rightarrow> prefix_list_type \<times> prefix_list option" where
  "prefix_list_apply plist p =
     (case plist of
        None \<Rightarrow> (PREFIX_DENY, None)
      | Some l \<Rightarrow>
          if pl_count l = 0 then (PREFIX_PERMIT, Some l)
          else let (ty, es) = apply_loop (pl_entries l) p in (ty, Some (l\<lparr>pl_entries := es\<rparr>)))"

definition prefix_entry_dup_check :: "prefix_list \<Rightarrow> prefix_list_entry \<Rightarrow> nat option" where
  "prefix_entry_dup_check l new =
     (let seq = (if pe_seq new = - 1 then prefix_new_seq_get l else pe_seq new)
      in position (\<lambda>e. prefix_same (pe_prefix e) (pe_prefix new) \<and> pe_type e = pe_type new \<and>
           pe_le e = pe_le new \<and> pe_ge e = pe_ge new \<and> pe_seq e \<noteq> seq) (pl_entries l))"

section \<open>Commands\<close>

definition filter_type :: "string \<Rightarrow> prefix_list_type option" where
  "filter_type typestr =
     (case typestr of
        [] \<Rightarrow> None
      | c # _ \<Rightarrow> if c = CHR ''p'' then Some PREFIX_PERMIT else if c = CHR ''d'' then Some PREFIX_DENY else None)"

text \<open>
  The prefix of a rule, with the bounds that the token \<open>any\<close> sets. \<open>strncmp\<close> up to the
  length of the argument accepts every beginning of \<open>any\<close>. The conversions of the C library
  are arguments.
\<close>

definition rule_prefix ::
    "(string \<Rightarrow> u8 list option) \<Rightarrow> (string \<Rightarrow> u8 list option) \<Rightarrow> nat \<Rightarrow> string \<Rightarrow> int \<Rightarrow> int \<Rightarrow>
     (prefix \<times> int \<times> int \<times> bool) option" where
  "rule_prefix inet_aton inet_pton afi str genum lenum =
     (let p = \<lparr>family = 0, prefixlen = 0, u_bytes = replicate 16 0\<rparr>; any = Sublist.prefix str ''any'' in
      if afi = AFI_IP then
        let (ret, q) = str2prefix_ipv4 inet_aton (if any then ''0.0.0.0/0'' else str) p
        in if ret then Some (q, if any then 0 else genum, if any then 32 else lenum, any) else None
      else if afi = AFI_IP6 then
        let (ret, q) = str2prefix_ipv6 inet_pton (if any then ''::/0'' else str) p
        in if ret then Some (q, if any then 0 else genum, if any then 128 else lenum, any) else None
      else Some (p, genum, lenum, False))"

definition opt_number :: "string option \<Rightarrow> int \<Rightarrow> int" where
  "opt_number s default_value = (case s of None \<Rightarrow> default_value | Some t \<Rightarrow> c_int (atoi t))"

definition vty_prefix_list_install ::
    "(string \<Rightarrow> u8 list option) \<Rightarrow> (string \<Rightarrow> u8 list option) \<Rightarrow> prefix_master \<Rightarrow> nat \<Rightarrow> string \<Rightarrow>
     string option \<Rightarrow> string \<Rightarrow> string \<Rightarrow> string option \<Rightarrow> string option \<Rightarrow> (cmd_result \<times> prefix_master) res" where
  "vty_prefix_list_install inet_aton inet_pton m afi name seq typestr str ge le =
     (case filter_type typestr of
        None \<Rightarrow> Inr (CMD_WARNING, m)
      | Some ty \<Rightarrow>
          (case rule_prefix inet_aton inet_pton afi str (opt_number ge 0) (opt_number le 0) of
             None \<Rightarrow> Inr (CMD_WARNING, m)
           | Some (p, genum, lenum, any) \<Rightarrow>
               if genum \<noteq> 0 \<and> genum \<le> uint (prefixlen p) then Inr (CMD_WARNING, m)
               else if lenum \<noteq> 0 \<and> lenum \<le> uint (prefixlen p) then Inr (CMD_WARNING, m)
               else if lenum \<noteq> 0 \<and> genum > lenum then Inr (CMD_WARNING, m)
               else
                 let lenum1 = (if genum \<noteq> 0 \<and> lenum = (if afi = AFI_IP then 32 else 128) then 0 else lenum);
                     (l, m1) = prefix_list_get m name in
                 rbind (prefix_list_entry_make p ty (opt_number seq (- 1)) lenum1 genum any) (\<lambda>pentry.
                 if prefix_entry_dup_check l pentry \<noteq> None then Inr (CMD_WARNING, m1)
                 else Inr (CMD_SUCCESS, prefix_list_entry_add m1 l pentry))))"

text \<open>The case in which only the name is given, and the case with a rule.\<close>

definition vty_prefix_list_uninstall ::
    "(string \<Rightarrow> u8 list option) \<Rightarrow> (string \<Rightarrow> u8 list option) \<Rightarrow> prefix_master \<Rightarrow> nat \<Rightarrow> string \<Rightarrow>
     string option \<Rightarrow> string option \<Rightarrow> string option \<Rightarrow> string option \<Rightarrow> string option \<Rightarrow>
     cmd_result \<times> prefix_master" where
  "vty_prefix_list_uninstall inet_aton inet_pton m afi name seq typestr str ge le =
     (case prefix_list_lookup m name of
        None \<Rightarrow> (CMD_WARNING, m)
      | Some l \<Rightarrow>
          if seq = None \<and> typestr = None \<and> str = None \<and> ge = None \<and> le = None
          then (CMD_SUCCESS, prefix_list_delete m l)
          else
            (case (typestr, str) of
               (Some tstr, Some pstr) \<Rightarrow>
                 (case filter_type tstr of
                    None \<Rightarrow> (CMD_WARNING, m)
                  | Some ty \<Rightarrow>
                      (case rule_prefix inet_aton inet_pton afi pstr (opt_number ge 0) (opt_number le 0) of
                         None \<Rightarrow> (CMD_WARNING, m)
                       | Some (p, genum, lenum, _) \<Rightarrow>
                           (case prefix_list_entry_lookup l p ty (opt_number seq (- 1)) lenum genum of
                              None \<Rightarrow> (CMD_WARNING, m)
                            | Some i \<Rightarrow> (CMD_SUCCESS, prefix_list_entry_delete m l (Some i) True))))
             | _ \<Rightarrow> (CMD_WARNING, m)))"

definition vty_prefix_list_desc_unset :: "prefix_master \<Rightarrow> string \<Rightarrow> cmd_result \<times> prefix_master" where
  "vty_prefix_list_desc_unset m name =
     (case prefix_list_lookup m name of
        None \<Rightarrow> (CMD_WARNING, m)
      | Some l \<Rightarrow>
          let l1 = l\<lparr>pl_desc := None\<rparr>; m1 = plist_store m l1 in
          (CMD_SUCCESS, if pl_entries l1 = [] then prefix_list_delete m1 l1 else m1))"

section \<open>Outbound route filters\<close>

fun prefix_bgp_orf_entry :: "stream \<Rightarrow> prefix_list_entry list \<Rightarrow> u8 \<Rightarrow> u8 \<Rightarrow> u8 \<Rightarrow> stream res" where
  "prefix_bgp_orf_entry s [] init_flag permit_flag deny_flag = Inr s"
| "prefix_bgp_orf_entry s (e # es) init_flag permit_flag deny_flag =
     rbind (stream_putc (init_flag OR (if pe_type e = PREFIX_PERMIT then permit_flag else deny_flag)) s) (\<lambda>(_, s1).
     rbind (stream_putl (of_int (pe_seq e)) s1) (\<lambda>(_, s2).
     rbind (stream_putc (of_int (pe_ge e)) s2) (\<lambda>(_, s3).
     rbind (stream_putc (of_int (pe_le e)) s3) (\<lambda>(_, s4).
     rbind (stream_put_prefix s4 (pe_prefix e)) (\<lambda>(_, s5).
     prefix_bgp_orf_entry s5 es init_flag permit_flag deny_flag)))))"

record orf_prefix =
  orf_seq :: u32
  orf_ge :: u8
  orf_le :: u8
  orf_p :: prefix

definition prefix_bgp_orf_set ::
    "prefix_master \<Rightarrow> string \<Rightarrow> nat \<Rightarrow> orf_prefix \<Rightarrow> bool \<Rightarrow> bool \<Rightarrow> (cmd_result \<times> prefix_master) res" where
  "prefix_bgp_orf_set m name afi orfp permit set_entry =
     (if orf_ge orfp \<noteq> 0 \<and> orf_ge orfp \<le> prefixlen (orf_p orfp) then Inr (CMD_WARNING, m)
      else if orf_le orfp \<noteq> 0 \<and> orf_le orfp \<le> prefixlen (orf_p orfp) then Inr (CMD_WARNING, m)
      else if orf_le orfp \<noteq> 0 \<and> orf_ge orfp > orf_le orfp then Inr (CMD_WARNING, m)
      else
        let le = (if orf_ge orfp \<noteq> 0 \<and> orf_le orfp = (if afi = AFI_IP then 32 else 128) then 0 else orf_le orfp);
            ty = (if permit then PREFIX_PERMIT else PREFIX_DENY);
            seq = sint (orf_seq orfp);
            (l, m1) = prefix_list_get m name in
        if set_entry then
          rbind (prefix_list_entry_make (orf_p orfp) ty seq (uint le) (uint (orf_ge orfp)) False) (\<lambda>pentry.
          if prefix_entry_dup_check l pentry \<noteq> None then Inr (CMD_WARNING, m1)
          else Inr (CMD_SUCCESS, prefix_list_entry_add m1 l pentry))
        else
          (case prefix_list_entry_lookup l (orf_p orfp) ty seq (uint le) (uint (orf_ge orfp)) of
             None \<Rightarrow> Inr (CMD_WARNING, m1)
           | Some i \<Rightarrow> Inr (CMD_SUCCESS, prefix_list_entry_delete m1 l (Some i) True)))"

definition prefix_bgp_orf_remove_all :: "prefix_master \<Rightarrow> string \<Rightarrow> prefix_master" where
  "prefix_bgp_orf_remove_all m name =
     (case prefix_list_lookup m name of None \<Rightarrow> m | Some l \<Rightarrow> prefix_list_delete m l)"

definition prefix_list_reset_orf :: "prefix_master \<Rightarrow> prefix_master res" where
  "prefix_list_reset_orf m =
     (let m1 = foldl prefix_list_delete m (pm_num m); m2 = foldl prefix_list_delete m1 (pm_str m1) in
      c_assert (pm_num m2 = [] \<and> pm_str m2 = []) (Inr (m2\<lparr>pm_seqnum := 1, pm_recent := None\<rparr>)))"

section \<open>A rule list is a map from numbers to rules\<close>

definition plist_ok :: "prefix_list \<Rightarrow> bool" where
  "plist_ok l \<longleftrightarrow> sorted_wrt (<) (map pe_seq (pl_entries l)) \<and> pl_count l = int (length (pl_entries l))"

definition by_seq :: "prefix_list_entry list \<Rightarrow> int \<Rightarrow> prefix_list_entry option" where
  "by_seq es = map_of (map (\<lambda>e. (pe_seq e, e)) es)"

lemma by_seq_simps [simp]:
  "by_seq [] = Map.empty"
  "by_seq (e # es) = (by_seq es)(pe_seq e \<mapsto> e)"
  by (simp_all add: by_seq_def)

lemma by_seq_append: "by_seq (xs @ ys) = by_seq ys ++ by_seq xs"
  by (simp add: by_seq_def)

lemma by_seq_None: "by_seq es s = None \<longleftrightarrow> s \<notin> pe_seq ` set es"
  by (induction es) auto

lemma by_seq_Some: "by_seq es s = Some e \<Longrightarrow> e \<in> set es \<and> pe_seq e = s"
  by (induction es) (auto split: if_splits)

lemma by_seq_member: "sorted_wrt (<) (map pe_seq es) \<Longrightarrow> e \<in> set es \<Longrightarrow> by_seq es (pe_seq e) = Some e"
  by (induction es) auto

lemma position_None: "position P xs = None \<longleftrightarrow> (\<forall>x \<in> set xs. \<not> P x)"
  by (induction xs) auto

lemma position_Some: "position P xs = Some i \<Longrightarrow> i < length xs \<and> P (xs ! i)"
  by (induction xs arbitrary: i) (auto split: if_splits)

lemma sorted_map_remove:
  "sorted_wrt (<) (map f xs) \<Longrightarrow> sorted_wrt (<) (map f (take i xs @ drop (Suc i) xs))"
  for f :: "'a \<Rightarrow> 'b::order"
proof (induction xs arbitrary: i)
  case (Cons x xs)
  then show ?case by (cases i) (auto dest: in_set_takeD in_set_dropD)
qed simp

lemma by_seq_remove:
  "sorted_wrt (<) (map pe_seq es) \<Longrightarrow> i < length es \<Longrightarrow>
   by_seq (take i es @ drop (Suc i) es) = (by_seq es)(pe_seq (es ! i) := None)"
proof (induction es arbitrary: i)
  case (Cons e es)
  show ?case
  proof (cases i)
    case 0
    have "by_seq es (pe_seq e) = None" using Cons.prems(1) by (auto simp: by_seq_None)
    then show ?thesis using 0 by (auto simp: fun_eq_iff)
  next
    case (Suc j)
    then have "pe_seq e \<noteq> pe_seq (es ! j)" using Cons.prems by auto
    then show ?thesis using Cons Suc by (auto simp: fun_eq_iff)
  qed
qed simp

lemma link_before_simps [simp]:
  "link_before P x [] = [x]"
  "link_before P x (y # ys) = (if P y then x # y # ys else y # link_before P x ys)"
  by (simp_all add: link_before_def)

lemma set_link_before [simp]: "set (link_before P x ys) = insert x (set ys)"
  by (induction ys) auto

lemma length_link_before [simp]: "length (link_before P x ys) = Suc (length ys)"
  by (induction ys) auto

lemma link_before_sorted:
  "sorted_wrt (<) (map pe_seq es) \<Longrightarrow> pe_seq e \<notin> pe_seq ` set es \<Longrightarrow>
   sorted_wrt (<) (map pe_seq (link_before (\<lambda>x. pe_seq x \<ge> pe_seq e) e es)) \<and>
   by_seq (link_before (\<lambda>x. pe_seq x \<ge> pe_seq e) e es) = (by_seq es)(pe_seq e \<mapsto> e)"
proof (induction es)
  case (Cons x es)
  show ?case
  proof (cases "pe_seq x \<ge> pe_seq e")
    case True
    then have "pe_seq e < pe_seq x" using Cons.prems(2) by force
    then show ?thesis using Cons.prems by fastforce
  next
    case False
    then show ?thesis using Cons by (auto simp: fun_eq_iff)
  qed
qed simp

lemma unlink_ok:
  assumes "plist_ok l" "i < length (pl_entries l)"
  shows "plist_ok (unlink_entry l i) \<and>
    by_seq (pl_entries (unlink_entry l i)) = (by_seq (pl_entries l))(pe_seq (pl_entries l ! i) := None)"
  using assms sorted_map_remove [of pe_seq "pl_entries l" i] by_seq_remove [of "pl_entries l" i]
  by (auto simp: plist_ok_def unlink_entry_def)

lemma unlink_numbered:
  fixes s :: int
  assumes "plist_ok l"
  defines "l1 \<equiv> (case prefix_seq_check l s of None \<Rightarrow> l | Some i \<Rightarrow> unlink_entry l i)"
  shows "plist_ok l1 \<and> by_seq (pl_entries l1) = (by_seq (pl_entries l))(s := None)"
proof (cases "prefix_seq_check l s")
  case None
  then have "by_seq (pl_entries l) s = None" by (auto simp: prefix_seq_check_def position_None by_seq_None)
  then show ?thesis using None assms(1) by (auto simp: l1_def fun_upd_idem)
next
  case (Some i)
  then show ?thesis using assms(1) unlink_ok [of l i] position_Some [of _ "pl_entries l" i]
    by (auto simp: l1_def prefix_seq_check_def)
qed

lemma entry_add_ok:
  assumes "plist_ok l" "pe_seq e \<noteq> - 1"
  shows "plist_ok (entry_add l e) \<and> by_seq (pl_entries (entry_add l e)) = (by_seq (pl_entries l))(pe_seq e \<mapsto> e)"
proof -
  define l1 where "l1 = (case prefix_seq_check l (pe_seq e) of None \<Rightarrow> l | Some i \<Rightarrow> unlink_entry l i)"
  have l1: "plist_ok l1" "by_seq (pl_entries l1) = (by_seq (pl_entries l))(pe_seq e := None)"
    using unlink_numbered [OF assms(1), of "pe_seq e"] by (simp_all add: l1_def)
  have "pe_seq e \<notin> pe_seq ` set (pl_entries l1)" using l1(2) by (metis by_seq_None fun_upd_same)
  from link_before_sorted [OF _ this] l1 show ?thesis using assms(2)
    by (auto simp: entry_add_def l1_def [symmetric] plist_ok_def Let_def)
qed

section \<open>The rule that decides\<close>

text \<open>What a rule means: the prefix lies in that of the rule, and its length is the same or
  within the bounds that are given.\<close>

definition rule_covers :: "prefix_list_entry \<Rightarrow> prefix \<Rightarrow> bool" where
  "rule_covers e p \<longleftrightarrow> Sublist.prefix (prefix_bits (pe_prefix e)) (prefix_bits p) \<and>
     (let n = int (length (prefix_bits p)) in
      if pe_le e = 0 \<and> pe_ge e = 0 then n = int (length (prefix_bits (pe_prefix e)))
      else (pe_le e \<noteq> 0 \<longrightarrow> n \<le> pe_le e) \<and> (pe_ge e \<noteq> 0 \<longrightarrow> pe_ge e \<le> n))"

definition decide :: "(int \<rightharpoonup> prefix_list_entry) \<Rightarrow> prefix \<Rightarrow> prefix_list_type" where
  "decide m p =
     (let hits = {s \<in> dom m. rule_covers (the (m s)) p} in
      if dom m = {} then PREFIX_PERMIT
      else if hits = {} then PREFIX_DENY
      else pe_type (the (m (Min hits))))"

lemma entry_match_covers:
  "prefix_ok (pe_prefix e) \<Longrightarrow> prefix_ok p \<Longrightarrow> prefix_list_entry_match e p = rule_covers e p"
  by (auto simp: prefix_list_entry_match_def rule_covers_def pm.contains_iff Let_def
      word_uint_eq_iff)

lemma match_counters [simp]: "prefix_list_entry_match (e\<lparr>pe_refcnt := n\<rparr>) p = prefix_list_entry_match e p"
  by (simp add: prefix_list_entry_match_def)

text \<open>The numbers of the rules that cover the prefix.\<close>

definition hits :: "prefix_list_entry list \<Rightarrow> prefix \<Rightarrow> int set" where
  "hits es p = pe_seq ` {e \<in> set es. prefix_list_entry_match e p}"

lemma hits_simps:
  "hits [] p = {}"
  "hits (e # es) p = (if prefix_list_entry_match e p then insert (pe_seq e) (hits es p) else hits es p)"
  by (auto simp: hits_def)

lemma hits_finite [simp]: "finite (hits es p)"
  by (simp add: hits_def)

lemma apply_loop_min:
  "sorted_wrt (<) (map pe_seq es) \<Longrightarrow> fst (apply_loop es p) =
     (if hits es p = {} then PREFIX_DENY else pe_type (the (by_seq es (Min (hits es p)))))"
proof (induction es)
  case Nil
  then show ?case by (simp add: hits_simps)
next
  case (Cons e es)
  have gt: "\<forall>s \<in> hits es p. pe_seq e < s" using Cons.prems by (auto simp: hits_def)
  show ?case
  proof (cases "prefix_list_entry_match e p")
    case True
    have "Min (insert (pe_seq e) (hits es p)) = pe_seq e"
      using gt by (intro Min_eqI) (auto intro: less_imp_le)
    then show ?thesis using True by (simp add: hits_simps Let_def)
  next
    case False
    have "hits es p \<noteq> {} \<Longrightarrow> Min (hits es p) \<noteq> pe_seq e" using gt by (metis Min_in hits_finite less_irrefl)
    then show ?thesis using Cons False by (simp add: hits_simps Let_def split_beta)
  qed
qed

lemma apply_decides:
  assumes "plist_ok l" "\<forall>e \<in> set (pl_entries l). prefix_ok (pe_prefix e)" "prefix_ok p"
  shows "fst (prefix_list_apply (Some l) p) = decide (by_seq (pl_entries l)) p"
proof -
  let ?es = "pl_entries l" and ?m = "by_seq (pl_entries l)"
  have sorted: "sorted_wrt (<) (map pe_seq ?es)" using assms(1) by (simp add: plist_ok_def)
  have "{s \<in> dom ?m. rule_covers (the (?m s)) p} = hits ?es p"
  proof (intro set_eqI iffI)
    fix s assume "s \<in> {s \<in> dom ?m. rule_covers (the (?m s)) p}"
    then obtain e where "?m s = Some e" "rule_covers e p" by auto
    then show "s \<in> hits ?es p" using by_seq_Some [of ?es s e] assms(2,3)
      by (auto simp: hits_def entry_match_covers)
  next
    fix s assume "s \<in> hits ?es p"
    then obtain e where e: "e \<in> set ?es" "prefix_list_entry_match e p" "s = pe_seq e" by (auto simp: hits_def)
    then have "?m s = Some e" using by_seq_member [OF sorted] by simp
    then show "s \<in> {s \<in> dom ?m. rule_covers (the (?m s)) p}" using e assms(2,3)
      by (auto simp: entry_match_covers)
  qed
  moreover have "dom ?m = {} \<longleftrightarrow> pl_count l = 0" using assms(1) by (cases ?es) (auto simp: plist_ok_def)
  ultimately show ?thesis
    using apply_loop_min [OF sorted, of p] by (simp add: prefix_list_apply_def decide_def Let_def split_beta)
qed

section \<open>Properties\<close>

datatype plist_op = Op_Add prefix_list_entry | Op_Remove int

text \<open>An operation on a list, and on the map that specifies it.\<close>

fun plist_step :: "prefix_list \<Rightarrow> plist_op \<Rightarrow> prefix_list" where
  "plist_step l (Op_Add e) = entry_add l e"
| "plist_step l (Op_Remove s) = (case prefix_seq_check l s of None \<Rightarrow> l | Some i \<Rightarrow> unlink_entry l i)"

fun plist_spec :: "(int \<rightharpoonup> prefix_list_entry) \<Rightarrow> plist_op \<Rightarrow> (int \<rightharpoonup> prefix_list_entry)" where
  "plist_spec m (Op_Add e) = m(pe_seq e \<mapsto> e)"
| "plist_spec m (Op_Remove s) = m(s := None)"

definition plist_empty :: prefix_list where
  "plist_empty = \<lparr>pl_name = ''x'', pl_desc = None, pl_type = PREFIX_TYPE_STRING, pl_count = 0, pl_entries = []\<rparr>"

lemma plist_step_ok:
  assumes "plist_ok l" "\<forall>e. op = Op_Add e \<longrightarrow> pe_seq e \<ge> 0"
  shows "plist_ok (plist_step l op) \<and> by_seq (pl_entries (plist_step l op)) = plist_spec (by_seq (pl_entries l)) op"
  using assms entry_add_ok unlink_numbered by (cases op) auto

lemma plist_run_ok:
  assumes "plist_ok l" "\<forall>e. Op_Add e \<in> set ops \<longrightarrow> pe_seq e \<ge> 0"
  shows "plist_ok (foldl plist_step l ops) \<and>
    by_seq (pl_entries (foldl plist_step l ops)) = foldl plist_spec (by_seq (pl_entries l)) ops"
  using assms
proof (induction ops arbitrary: l)
  case (Cons op ops)
  then show ?case using plist_step_ok [of l op] by auto
qed simp

lemma plist_spec_range:
  "\<forall>e. Op_Add e \<in> set ops \<longrightarrow> P e \<Longrightarrow> \<forall>e \<in> ran m. P e \<Longrightarrow> \<forall>e \<in> ran (foldl plist_spec m ops). P e"
proof (induction ops arbitrary: m)
  case (Cons op ops)
  have "\<forall>e \<in> ran (plist_spec m op). P e" using Cons.prems by (cases op) (auto simp: ran_def split: if_splits)
  with Cons.IH [of "plist_spec m op"] Cons.prems(1) show ?case by simp
qed simp


definition rule_ex :: "int \<Rightarrow> prefix_list_type \<Rightarrow> prefix \<Rightarrow> prefix_list_entry" where
  "rule_ex seq ty p = \<lparr>pe_seq = seq, pe_le = 32, pe_ge = 0, pe_type = ty, pe_any = False, pe_prefix = p,
     pe_refcnt = 0, pe_hitcnt = 0\<rparr>"


lemma lookup_store:
  assumes "prefix_list_lookup m (pl_name l) = Some l0"
  shows "prefix_list_lookup (plist_store m l) (pl_name l) = Some l"
proof -
  let ?put = "map (\<lambda>x. if pl_name x = pl_name l then l else x)"
  have "find (\<lambda>x. pl_name x = pl_name l) (?put xs) =
      (if find (\<lambda>x. pl_name x = pl_name l) xs = None then None else Some l)" for xs
    by (induction xs) auto
  then show ?thesis using assms by (auto simp: prefix_list_lookup_def plist_store_def Let_def split: option.splits)
qed

lemma find_link_before:
  "pl_name x = name \<Longrightarrow> find (\<lambda>l. pl_name l = name) ys = None \<Longrightarrow>
   find (\<lambda>l. pl_name l = name) (link_before P x ys) = Some x"
  by (induction ys) (auto split: if_splits)

lemma lookup_insert:
  "prefix_list_lookup m name = None \<Longrightarrow> prefix_list_insert m name = (l, m1) \<Longrightarrow>
   prefix_list_lookup m1 name = Some l \<and> pl_name l = name \<and> pl_entries l = []"
  by (auto simp: prefix_list_lookup_def prefix_list_insert_def Let_def find_link_before split: if_splits option.splits)

lemma lookup_frame [simp]:
  "prefix_list_lookup (m\<lparr>pm_recent := r\<rparr>) name = prefix_list_lookup m name"
  "prefix_list_lookup (m\<lparr>pm_called := c\<rparr>) name = prefix_list_lookup m name"
  by (simp_all add: prefix_list_lookup_def split: option.split)

lemma lookup_add:
  assumes "prefix_list_lookup m (pl_name l) = Some l"
  shows "prefix_list_lookup (prefix_list_entry_add m l e) (pl_name l) = Some (entry_add l e)"
proof -
  have "pl_name (entry_add l e) = pl_name l"
    by (simp add: entry_add_def Let_def unlink_entry_def split: option.splits)
  then show ?thesis using lookup_store [of m "entry_add l e" l] assms
    by (simp add: prefix_list_entry_add_def Let_def)
qed

lemma entry_add_first:
  "pl_entries l = [] \<Longrightarrow> pl_entries (entry_add l e) = [if pe_seq e = - 1 then e\<lparr>pe_seq := prefix_new_seq_get l\<rparr> else e]"
  by (simp add: entry_add_def prefix_seq_check_def Let_def)

lemma rule_prefix_family:
  "afi \<in> {AFI_IP, AFI_IP6} \<Longrightarrow> rule_prefix aton pton afi str ge le = Some (p, g, l, any) \<Longrightarrow>
   (family p = AF_INET \<or> family p = AF_INET6) \<and> 16 \<le> length (u_bytes p)"
  by (auto simp: store_addr_def rule_prefix_def str2prefix_ipv4_def str2prefix_ipv6_def Let_def split: if_splits option.splits)

lemma entry_make_fields:
  "prefix_list_entry_make p ty seq le ge any = Inr e \<Longrightarrow>
   (family p = AF_INET \<or> family p = AF_INET6) \<and> 16 \<le> length (u_bytes p) \<Longrightarrow>
   prefix_same (pe_prefix e) p \<and> pe_type e = ty \<and> pe_seq e = seq \<and> pe_le e = le \<and> pe_ge e = ge"
  by (auto simp: prefix_list_entry_make_def prefix_copy_def prefix_same_def prefix_consts Let_def split: if_splits)


definition master_ex :: prefix_master where
  "master_ex = \<lparr>pm_num = [], pm_str = [], pm_seqnum = 1, pm_recent = None, pm_add_hook = False,
     pm_delete_hook = False, pm_called = []\<rparr>"

definition aton_ex :: "string \<Rightarrow> u8 list option" where
  "aton_ex s = (if s = ''10.0.0.0'' then Some [10, 0, 0, 0] else None)"

definition install_ex :: "(cmd_result \<times> prefix_master) res" where
  "install_ex = vty_prefix_list_install aton_ex aton_ex master_ex AFI_IP ''A'' None ''permit'' ''10.0.0.0/8''
     (Some ''16'') (Some ''32'')"


end
