(* ===== verification/Bgp_Peer.thy ===== *)
theory Bgp_Peer
  imports Stream_Fifo Prefix_List
begin

text \<open>
  The state of a BGP session: \<open>struct peer\<close> of \<open>bgpd/bgpd.h\<close> with the process-wide state
  that its handlers use, and the macros of \<open>bgpd/bgp_fsm.h\<close> that switch timers, threads and
  events. A handler works on one peer. Packets queued for output live in a store of
  streams that never reuses an address, so a use after free shows as \<open>Dangling\<close>.
\<close>

section \<open>Constants\<close>

datatype bgp_status = Idle | Connect | Active | OpenSent | OpenConfirm | Established | Clearing | Deleted

datatype fsm_event = BGP_Start | BGP_Stop | TCP_connection_open | TCP_connection_closed
  | TCP_connection_open_failed | TCP_fatal_error | ConnectRetry_timer_expired | Hold_Timer_expired
  | KeepAlive_timer_expired | Receive_OPEN_message | Receive_KEEPALIVE_message
  | Receive_UPDATE_message | Receive_NOTIFICATION_message | Clearing_Completed

definition SAFI_UNICAST :: nat where "SAFI_UNICAST = 1"
definition SAFI_MULTICAST :: nat where "SAFI_MULTICAST = 2"
definition SAFI_UNICAST_MULTICAST :: nat where "SAFI_UNICAST_MULTICAST = 3"
definition SAFI_MPLS_VPN :: nat where "SAFI_MPLS_VPN = 4"
definition SAFI_MAX :: nat where "SAFI_MAX = 5"
definition AFI_MAX :: nat where "AFI_MAX = 3"
definition BGP_SAFI_VPNV4 :: nat where "BGP_SAFI_VPNV4 = 128"
definition BGP_SAFI_VPNV6 :: nat where "BGP_SAFI_VPNV6 = 129"

definition CHECK_FLAG :: "'a::len word \<Rightarrow> 'a word \<Rightarrow> bool" where
  "CHECK_FLAG v f \<longleftrightarrow> v AND f \<noteq> 0"

definition SET_FLAG :: "'a::len word \<Rightarrow> 'a word \<Rightarrow> 'a word" where
  "SET_FLAG v f = v OR f"

definition UNSET_FLAG :: "'a::len word \<Rightarrow> 'a word \<Rightarrow> 'a word" where
  "UNSET_FLAG v f = v AND NOT f"

definition PEER_FLAG_PASSIVE :: u32 where "PEER_FLAG_PASSIVE = 1"
definition PEER_FLAG_SHUTDOWN :: u32 where "PEER_FLAG_SHUTDOWN = 2"
definition PEER_FLAG_DONT_CAPABILITY :: u32 where "PEER_FLAG_DONT_CAPABILITY = 4"
definition PEER_FLAG_OVERRIDE_CAPABILITY :: u32 where "PEER_FLAG_OVERRIDE_CAPABILITY = 8"
definition PEER_FLAG_STRICT_CAP_MATCH :: u32 where "PEER_FLAG_STRICT_CAP_MATCH = 16"
definition PEER_FLAG_DYNAMIC_CAPABILITY :: u32 where "PEER_FLAG_DYNAMIC_CAPABILITY = 32"
definition PEER_FLAG_ORF_PREFIX_SM :: u32 where "PEER_FLAG_ORF_PREFIX_SM = 0x1000"
definition PEER_FLAG_ORF_PREFIX_RM :: u32 where "PEER_FLAG_ORF_PREFIX_RM = 0x2000"

definition PEER_STATUS_ACCEPT_PEER :: u16 where "PEER_STATUS_ACCEPT_PEER = 1"
definition PEER_STATUS_PREFIX_OVERFLOW :: u16 where "PEER_STATUS_PREFIX_OVERFLOW = 2"
definition PEER_STATUS_CAPABILITY_OPEN :: u16 where "PEER_STATUS_CAPABILITY_OPEN = 4"
definition PEER_STATUS_NSF_MODE :: u16 where "PEER_STATUS_NSF_MODE = 32"
definition PEER_STATUS_NSF_WAIT :: u16 where "PEER_STATUS_NSF_WAIT = 64"

definition PEER_STATUS_ORF_PREFIX_SEND :: u16 where "PEER_STATUS_ORF_PREFIX_SEND = 1"
definition PEER_STATUS_ORF_WAIT_REFRESH :: u16 where "PEER_STATUS_ORF_WAIT_REFRESH = 2"

definition PEER_CONFIG_TIMER :: u32 where "PEER_CONFIG_TIMER = 2"

definition PEER_CAP_REFRESH_ADV :: u16 where "PEER_CAP_REFRESH_ADV = 1"
definition PEER_CAP_REFRESH_OLD_RCV :: u16 where "PEER_CAP_REFRESH_OLD_RCV = 2"
definition PEER_CAP_REFRESH_NEW_RCV :: u16 where "PEER_CAP_REFRESH_NEW_RCV = 4"
definition PEER_CAP_DYNAMIC_ADV :: u16 where "PEER_CAP_DYNAMIC_ADV = 8"
definition PEER_CAP_DYNAMIC_RCV :: u16 where "PEER_CAP_DYNAMIC_RCV = 16"
definition PEER_CAP_RESTART_ADV :: u16 where "PEER_CAP_RESTART_ADV = 32"
definition PEER_CAP_RESTART_RCV :: u16 where "PEER_CAP_RESTART_RCV = 64"
definition PEER_CAP_AS4_ADV :: u16 where "PEER_CAP_AS4_ADV = 128"
definition PEER_CAP_AS4_RCV :: u16 where "PEER_CAP_AS4_RCV = 256"

definition PEER_CAP_ORF_PREFIX_SM_ADV :: u16 where "PEER_CAP_ORF_PREFIX_SM_ADV = 1"
definition PEER_CAP_ORF_PREFIX_RM_ADV :: u16 where "PEER_CAP_ORF_PREFIX_RM_ADV = 2"
definition PEER_CAP_ORF_PREFIX_SM_RCV :: u16 where "PEER_CAP_ORF_PREFIX_SM_RCV = 4"
definition PEER_CAP_ORF_PREFIX_RM_RCV :: u16 where "PEER_CAP_ORF_PREFIX_RM_RCV = 8"
definition PEER_CAP_ORF_PREFIX_SM_OLD_RCV :: u16 where "PEER_CAP_ORF_PREFIX_SM_OLD_RCV = 16"
definition PEER_CAP_ORF_PREFIX_RM_OLD_RCV :: u16 where "PEER_CAP_ORF_PREFIX_RM_OLD_RCV = 32"
definition PEER_CAP_RESTART_AF_RCV :: u16 where "PEER_CAP_RESTART_AF_RCV = 64"
definition PEER_CAP_RESTART_AF_PRESERVE_RCV :: u16 where "PEER_CAP_RESTART_AF_PRESERVE_RCV = 128"

lemmas flag_defs = CHECK_FLAG_def SET_FLAG_def UNSET_FLAG_def

section \<open>The peer\<close>

type_synonym 'a af = "nat \<Rightarrow> nat \<Rightarrow> 'a"

text \<open>Arrays indexed by address family and subsequent family.\<close>

definition af_set :: "'a af \<Rightarrow> nat \<Rightarrow> nat \<Rightarrow> 'a \<Rightarrow> 'a af" where
  "af_set f afi safi v = f(afi := (f afi)(safi := v))"

text \<open>Configuration. \<open>host\<close> is the pointer that the code compares and \<open>host_text\<close> the string
  it points to; \<open>plist_in\<close> is \<open>filter[afi][safi].plist[FILTER_IN].plist\<close>.\<close>

record peer_conf =
  host :: nat
  host_text :: string
  peer_as :: u32
  local_as :: u32
  change_local_as :: u32
  local_id :: "u8 list"
  pflags :: u32
  config :: u32
  holdtime :: u32
  keepalive :: u32
  afc :: "bool af"
  af_flags :: "u32 af"
  plist_in :: "prefix_list option af"

record peer_nego = peer_conf +
  sflags :: u16
  cap :: u16
  af_cap :: "u16 af"
  af_sflags :: "u16 af"
  nsf :: "bool af"
  afc_nego :: "bool af"
  afc_adv :: "bool af"
  afc_recv :: "bool af"
  orf_plist :: "string option af"
  remote_id :: u32
  su_local :: "nat option"
  su_remote :: "nat option"

text \<open>Timers: the seconds they are armed with. The read and write threads: the descriptor.\<close>

record peer_timers = peer_nego +
  v_start :: u32
  v_connect :: u32
  v_holdtime :: u32
  v_keepalive :: u32
  v_routeadv :: u32
  v_gr_restart :: u32
  t_read :: "int option"
  t_write :: "int option"
  t_start :: "u32 option"
  t_connect :: "u32 option"
  t_holdtime :: "u32 option"
  t_keepalive :: "u32 option"
  t_asorig :: "u32 option"
  t_routeadv :: "u32 option"
  t_pmax_restart :: "u32 option"
  t_gr_restart :: "u32 option"
  t_gr_stale :: "u32 option"

record peer_io = peer_timers +
  status :: bgp_status
  ostatus :: bgp_status
  fd :: int
  ibuf :: "stream option"
  work :: "stream option"
  obuf :: stream_fifo
  packet_size :: nat
  last_reset :: nat
  notify_code :: u8
  notify_subcode :: u8
  notify_data :: "u8 list option"
  notify_length :: nat

record peer = peer_io +
  uptime :: int
  resettime :: int
  readtime :: int
  synctime :: int
  update_time :: int
  established :: u32
  dropped :: u32
  open_in :: u32
  open_out :: u32
  update_in :: u32
  update_out :: u32
  keepalive_in :: u32
  keepalive_out :: u32
  notify_in :: u32
  notify_out :: u32
  refresh_in :: u32
  refresh_out :: u32
  dynamic_cap_in :: u32
  dynamic_cap_out :: u32

text \<open>
  Calls into parts that are not modelled, in the order in which they are made: the routing
  information base (\<open>bgp_route.c\<close>), the closing of a descriptor, \<open>bgp_nexthop_set\<close>.
\<close>

datatype ext_call = Clear_Route_All | Clear_Route nat nat | Clear_Stale_Route nat nat
  | Announce_Route_All | Announce_Route nat nat | Close int | Nexthop_Set | Peer_Delete

text \<open>
  The answers of the operating system and the C library during one handler: \<open>rand ()\<close>,
  \<open>time (NULL)\<close>, \<open>bgp_clock ()\<close>, the result of \<open>writen\<close>, socket creation and connection, the
  local and remote address of the socket, whether routes wait in the queue after the routes of
  a family were cleared, and the contents of uninitialised memory.
\<close>

text \<open>What \<open>write\<close> returns: a count of bytes, a reason to try again, or an error.\<close>

datatype write_result = Wrote nat | Write_Retry | Write_Error

datatype connect_result = connect_error | connect_success | connect_in_progress

record environment =
  e_rand :: nat
  e_time :: u32
  e_clock :: int
  e_writen :: "u8 list \<Rightarrow> int"
  e_socket :: int
  e_connect :: connect_result
  e_sockname :: "nat option"
  e_peername :: "nat option"
  e_clear_queued :: "bool af"
  junk :: "nat \<Rightarrow> u8"

text \<open>
  The process: configuration of \<open>struct bgp\<close>, the store of queued packets with the next
  unused address, the events of the peer that wait in the scheduler, the global variable
  \<open>toDrop\<close>, the files of the trust extension (a list of numbers each), the ORF prefix lists,
  the bytes that the socket has accepted.
\<close>

record bgpd = peer +
  default_holdtime :: u32
  default_keepalive :: u32
  stalepath_time :: u32
  restart_time :: u32
  graceful_restart :: bool
  streams :: sheap
  brk :: addr
  events :: "fsm_event list"
  toDrop :: "nat option"
  files :: "string \<rightharpoonup> int list"
  orf_master :: prefix_master
  sent :: "u8 list"
  calls :: "ext_call list"
  env :: environment

definition ext_call :: "ext_call \<Rightarrow> bgpd \<Rightarrow> bgpd" where
  "ext_call c b = b\<lparr>calls := calls b @ [c]\<rparr>"

definition peer_active :: "bgpd \<Rightarrow> bool" where
  "peer_active b \<longleftrightarrow> afc b AFI_IP SAFI_UNICAST \<or> afc b AFI_IP SAFI_MULTICAST \<or> afc b AFI_IP SAFI_MPLS_VPN \<or>
     afc b AFI_IP6 SAFI_UNICAST \<or> afc b AFI_IP6 SAFI_MULTICAST"

definition peer_active_nego :: "bgpd \<Rightarrow> bool" where
  "peer_active_nego b \<longleftrightarrow> afc_nego b AFI_IP SAFI_UNICAST \<or> afc_nego b AFI_IP SAFI_MULTICAST \<or>
     afc_nego b AFI_IP SAFI_MPLS_VPN \<or> afc_nego b AFI_IP6 SAFI_UNICAST \<or> afc_nego b AFI_IP6 SAFI_MULTICAST"

section \<open>Threads, timers and events\<close>

definition BGP_READ_ON :: "bgpd \<Rightarrow> bgpd" where
  "BGP_READ_ON b = (if t_read b = None \<and> status b \<noteq> Deleted then b\<lparr>t_read := Some (fd b)\<rparr> else b)"

definition BGP_READ_OFF :: "bgpd \<Rightarrow> bgpd" where
  "BGP_READ_OFF b = b\<lparr>t_read := None\<rparr>"

definition BGP_WRITE_ON :: "bgpd \<Rightarrow> bgpd" where
  "BGP_WRITE_ON b = (if t_write b = None \<and> status b \<noteq> Deleted then b\<lparr>t_write := Some (fd b)\<rparr> else b)"

definition BGP_WRITE_OFF :: "bgpd \<Rightarrow> bgpd" where
  "BGP_WRITE_OFF b = b\<lparr>t_write := None\<rparr>"

text \<open>The new value of a timer field.\<close>

definition BGP_TIMER_ON :: "bgpd \<Rightarrow> u32 option \<Rightarrow> u32 \<Rightarrow> u32 option" where
  "BGP_TIMER_ON b t v = (if t = None \<and> status b \<noteq> Deleted then Some v else t)"

definition BGP_TIMER_OFF :: "u32 option" where
  "BGP_TIMER_OFF = None"

definition BGP_EVENT_ADD :: "fsm_event \<Rightarrow> bgpd \<Rightarrow> bgpd" where
  "BGP_EVENT_ADD e b = (if status b \<noteq> Deleted then b\<lparr>events := events b @ [e]\<rparr> else b)"

definition BGP_EVENT_FLUSH :: "bgpd \<Rightarrow> bgpd" where
  "BGP_EVENT_FLUSH b = b\<lparr>events := []\<rparr>"

section \<open>An example\<close>

text \<open>A peer in AS 2 of a router in AS 1, before the session starts.\<close>

definition env_ex :: environment where
  "env_ex = \<lparr>e_rand = 40, e_time = 1000, e_clock = 0, e_writen = (\<lambda>bs. int (length bs)), e_socket = 7,
     e_connect = connect_success, e_sockname = None, e_peername = None, e_clear_queued = (\<lambda>_ _. False), junk = (\<lambda>_. 0)\<rparr>"

definition bgpd_ex :: bgpd where
  "bgpd_ex = \<lparr>host = 1, host_text = ''peer'', peer_as = 2, local_as = 1, change_local_as = 0,
     local_id = [10, 0, 0, 1], pflags = 0, config = 0, holdtime = 0, keepalive = 0,
     afc = (\<lambda>afi safi. afi = AFI_IP \<and> safi = SAFI_UNICAST), af_flags = (\<lambda>_ _. 0),
     plist_in = (\<lambda>_ _. None), sflags = 0, cap = 0, af_cap = (\<lambda>_ _. 0),
     af_sflags = (\<lambda>_ _. 0), nsf = (\<lambda>_ _. False), afc_nego = (\<lambda>_ _. False),
     afc_adv = (\<lambda>_ _. False), afc_recv = (\<lambda>_ _. False),
     orf_plist = (\<lambda>_ _. None), remote_id = 0, su_local = None, su_remote = None, v_start = 5,
     v_connect = 120, v_holdtime = 180, v_keepalive = 60, v_routeadv = 30, v_gr_restart = 0,
     t_read = None, t_write = None, t_start = None, t_connect = None, t_holdtime = None,
     t_keepalive = None, t_asorig = None, t_routeadv = None, t_pmax_restart = None, t_gr_restart = None,
     t_gr_stale = None, status = Idle, ostatus = Idle, fd = - 1, ibuf = None, work = None,
     obuf = stream_fifo_new, packet_size = 0, last_reset = 0, notify_code = 0, notify_subcode = 0,
     notify_data = None, notify_length = 0, uptime = 0, resettime = 0, readtime = 0, synctime = 0,
     update_time = 0, established = 0, dropped = 0, open_in = 0, open_out = 0, update_in = 0,
     update_out = 0, keepalive_in = 0, keepalive_out = 0, notify_in = 0, notify_out = 0, refresh_in = 0,
     refresh_out = 0, dynamic_cap_in = 0, dynamic_cap_out = 0, default_holdtime = 180,
     default_keepalive = 60, stalepath_time = 360, restart_time = 120, graceful_restart = False,
     streams = Map.empty, brk = 0, events = [], toDrop = None, files = Map.empty,
     orf_master = master_ex, sent = [], calls = [], env = env_ex\<rparr>"

end
