(* ===== verification/Bgp_Send.thy ===== *)
theory Bgp_Send
  imports Bgp_Peer
begin

text \<open>
  The messages that \<open>bgpd/bgp_packet.c\<close> builds and queues: the common header, the trust
  and voting messages of this repository, keepalive, notification, capability and
  end-of-table messages. Each packet is a stream in the store, queued by its address.
\<close>

section \<open>The packet header\<close>

definition BGP_MARKER_SIZE :: nat where "BGP_MARKER_SIZE = 16"
definition BGP_HEADER_SIZE :: nat where "BGP_HEADER_SIZE = 19"
definition BGP_MAX_PACKET_SIZE :: nat where "BGP_MAX_PACKET_SIZE = 4096"

definition BGP_MSG_OPEN :: u8 where "BGP_MSG_OPEN = 1"
definition BGP_MSG_UPDATE :: u8 where "BGP_MSG_UPDATE = 2"
definition BGP_MSG_NOTIFY :: u8 where "BGP_MSG_NOTIFY = 3"
definition BGP_MSG_KEEPALIVE :: u8 where "BGP_MSG_KEEPALIVE = 4"
definition BGP_MSG_ROUTE_REFRESH_NEW :: u8 where "BGP_MSG_ROUTE_REFRESH_NEW = 5"
definition BGP_MSG_CAPABILITY :: u8 where "BGP_MSG_CAPABILITY = 6"
definition BGP_MSG_TRUST :: u8 where "BGP_MSG_TRUST = 7"
definition BGP_MSG_VOTING_PEERS_REQUEST :: u8 where "BGP_MSG_VOTING_PEERS_REQUEST = 8"
definition BGP_MSG_VOTING_PEERS_RESPONSE :: u8 where "BGP_MSG_VOTING_PEERS_RESPONSE = 9"
definition BGP_MSG_VOTING_VOTE_REQUEST :: u8 where "BGP_MSG_VOTING_VOTE_REQUEST = 10"
definition BGP_MSG_VOTING_VOTE_RESPONSE :: u8 where "BGP_MSG_VOTING_VOTE_RESPONSE = 11"
definition BGP_MSG_ROUTE_REFRESH_OLD :: u8 where "BGP_MSG_ROUTE_REFRESH_OLD = 128"

lemmas bgp_sizes = BGP_MARKER_SIZE_def BGP_HEADER_SIZE_def BGP_MAX_PACKET_SIZE_def

lemmas bgp_types = BGP_MSG_OPEN_def BGP_MSG_UPDATE_def BGP_MSG_NOTIFY_def BGP_MSG_KEEPALIVE_def
  BGP_MSG_ROUTE_REFRESH_NEW_def BGP_MSG_CAPABILITY_def BGP_MSG_TRUST_def
  BGP_MSG_VOTING_PEERS_REQUEST_def BGP_MSG_VOTING_PEERS_RESPONSE_def
  BGP_MSG_VOTING_VOTE_REQUEST_def BGP_MSG_VOTING_VOTE_RESPONSE_def BGP_MSG_ROUTE_REFRESH_OLD_def

definition bgp_packet_set_marker :: "stream \<Rightarrow> u8 \<Rightarrow> (nat \<times> stream) res" where
  "bgp_packet_set_marker s ty =
     rbind (put_all stream_putc (replicate BGP_MARKER_SIZE 0xff) s) (\<lambda>s1.
     rbind (stream_putw 0 s1) (\<lambda>(_, s2).
     rbind (stream_putc ty s2) (\<lambda>(_, s3).
     rbind (stream_get_endp s3) (\<lambda>n. Inr (n, s3)))))"

definition bgp_packet_set_size :: "stream \<Rightarrow> (nat \<times> stream) res" where
  "bgp_packet_set_size s =
     rbind (stream_get_endp s) (\<lambda>cp.
     rbind (stream_putw_at s BGP_MARKER_SIZE (of_nat cp)) (\<lambda>(_, s1). Inr (cp, s1)))"

text \<open>The frame of every message: a new stream, the header, a body, the length field.\<close>

definition make_packet :: "bgpd \<Rightarrow> u8 \<Rightarrow> (stream \<Rightarrow> stream res) \<Rightarrow> stream res" where
  "make_packet b ty body =
     rbind (stream_new (junk (env b)) BGP_MAX_PACKET_SIZE) (\<lambda>s.
     rbind (bgp_packet_set_marker s ty) (\<lambda>(_, s1).
     rbind (body s1) (\<lambda>s2.
     rbind (bgp_packet_set_size s2) (\<lambda>(_, s3). Inr s3))))"

text \<open>The stream with its address: \<open>stream_new\<close> clears the structure, so \<open>next\<close> is null.\<close>

definition stream_alloc :: "stream \<Rightarrow> bgpd \<Rightarrow> bgpd" where
  "stream_alloc s b = b\<lparr>streams := (streams b)(brk b \<mapsto> \<lparr>snext = None, sbuf = s\<rparr>), brk := brk b + 1\<rparr>"

definition bgp_packet_add :: "addr \<Rightarrow> bgpd \<Rightarrow> bgpd res" where
  "bgp_packet_add a b =
     rbind (stream_fifo_push (streams b) (obuf b) a) (\<lambda>(h, f). Inr (b\<lparr>streams := h, obuf := f\<rparr>))"

definition bgp_packet_delete :: "bgpd \<Rightarrow> bgpd res" where
  "bgp_packet_delete b =
     rbind (stream_fifo_pop (streams b) (obuf b)) (\<lambda>(s, f).
     rbind (stream_free (streams b) s) (\<lambda>h. Inr (b\<lparr>streams := h, obuf := f\<rparr>)))"

text \<open>The trust and voting messages call \<open>bgp_packet_add\<close> twice with the same stream.\<close>

definition add_packet :: "stream \<Rightarrow> bgpd \<Rightarrow> bgpd res" where
  "add_packet s b = bgp_packet_add (brk b) (stream_alloc s b)"

definition add_packet_twice :: "stream \<Rightarrow> bgpd \<Rightarrow> bgpd res" where
  "add_packet_twice s b = rbind (bgp_packet_add (brk b) (stream_alloc s b)) (bgp_packet_add (brk b))"

section \<open>Files of the trust extension\<close>

text \<open>
  \<open>fscanf\<close> with \<open>n\<close> conversions: a missing file is a null \<open>FILE\<close> pointer, a short file
  leaves variables without a value. A value goes into an array of 16-bit elements by its
  low half: the high half of each store is overwritten by the next one.
\<close>

definition scan_file :: "bgpd \<Rightarrow> string \<Rightarrow> nat \<Rightarrow> int list res" where
  "scan_file b name n =
     (case files b name of
        None \<Rightarrow> Inl Null_Deref
      | Some vs \<Rightarrow> if length vs < n then Inl Uninitialised else Inr (take n vs))"

definition print_file :: "string \<Rightarrow> int list \<Rightarrow> bgpd \<Rightarrow> bgpd" where
  "print_file name vs b = b\<lparr>files := (files b)(name \<mapsto> vs)\<rparr>"

definition arr_get :: "'a list \<Rightarrow> nat \<Rightarrow> 'a res" where
  "arr_get xs i = (if i < length xs then Inr (xs ! i) else Inl Out_Of_Bounds)"

definition arr_put :: "'a list \<Rightarrow> nat \<Rightarrow> 'a \<Rightarrow> 'a list res" where
  "arr_put xs i v = (if i < length xs then Inr (xs[i := v]) else Inl Out_Of_Bounds)"

text \<open>The index \<open>peer->as - 1\<close>, an unsigned difference.\<close>

definition as_index :: "bgpd \<Rightarrow> nat" where
  "as_index b = unat (peer_as b - 1)"

section \<open>Trust and voting messages\<close>

definition bgp_trust_send :: "bgpd \<Rightarrow> bgpd res" where
  "bgp_trust_send b =
     (let code = of_nat (e_rand (env b) mod 90 + 10) :: u16 in
      rbind (scan_file b ''/myAS.txt'' 1) (\<lambda>v.
      let myAS = of_int (v ! 0) :: u32 in
      rbind (make_packet b BGP_MSG_TRUST (\<lambda>s. rbind (stream_putw code s) (\<lambda>(_, s1). Inr s1))) (\<lambda>s.
      let b1 = (if toDrop b = None \<and> e_time (env b) > 1262304072 \<and> peer_as b \<noteq> myAS \<and> myAS = 1
                then b\<lparr>toDrop := Some (host b)\<rparr> else b)
      in add_packet_twice s b1)))"

definition bgp_voting_peers_request_send :: "bgpd \<Rightarrow> bgpd res" where
  "bgp_voting_peers_request_send b =
     rbind (make_packet b BGP_MSG_VOTING_PEERS_REQUEST Inr) (\<lambda>s. add_packet_twice s b)"

definition bgp_voting_vote_request_send :: "bgpd \<Rightarrow> bgpd res" where
  "bgp_voting_vote_request_send b =
     rbind (make_packet b BGP_MSG_VOTING_VOTE_REQUEST Inr) (\<lambda>s. add_packet_twice s b)"

text \<open>
  The format for the observed trust has an eleventh conversion without an argument, which
  takes effect when the file has an eleventh number.
\<close>

definition bgp_voting_vote_response_send :: "bgpd \<Rightarrow> bgpd res" where
  "bgp_voting_vote_response_send b =
     rbind (scan_file b ''/obsTrust.txt'' 10) (\<lambda>obs.
     if length (the (files b ''/obsTrust.txt'')) > 10 then Inl Out_Of_Bounds
     else
     rbind (scan_file b ''/inTrust.txt'' 10) (\<lambda>int_trust.
     rbind (arr_get (map of_int obs :: u16 list) (as_index b)) (\<lambda>o1.
     rbind (arr_get (map of_int int_trust :: u16 list) (as_index b)) (\<lambda>i1.
     rbind (make_packet b BGP_MSG_VOTING_VOTE_RESPONSE
        (\<lambda>s. rbind (stream_putw (o1 + i1) s) (\<lambda>(_, s1). Inr s1))) (\<lambda>s.
     add_packet_twice s b)))))"

definition bgp_voting_peers_response_send :: "bgpd \<Rightarrow> bgpd res" where
  "bgp_voting_peers_response_send b =
     rbind (scan_file b ''/votes'' 10) (\<lambda>votes.
     rbind (make_packet b BGP_MSG_VOTING_PEERS_RESPONSE (put_all stream_putw (map of_int votes))) (\<lambda>s.
     add_packet_twice s b))"

section \<open>Keepalive\<close>

text \<open>The first half: send the collected votes to a peer that asked, or ask for votes.\<close>

definition keepalive_votes :: "bgpd \<Rightarrow> bgpd res" where
  "keepalive_votes b =
     rbind (scan_file b ''/neighborsN'' 1) (\<lambda>n.
     rbind (scan_file b ''/votes'' 10) (\<lambda>votes.
     if int (length (filter (\<lambda>v. v \<noteq> 0) votes)) = n ! 0 then
       rbind (scan_file b ''/votesRequests'' 10) (\<lambda>as.
       rbind (arr_get as (as_index b)) (\<lambda>v.
       if v = 1 then
         rbind (bgp_voting_peers_response_send b) (\<lambda>b1.
         rbind (arr_put as (as_index b) 0) (\<lambda>as1.
         let b2 = print_file ''/votesRequests'' as1 b1 in
         Inr (if list_all (\<lambda>x. x = 0) as1 then print_file ''/votes'' (replicate 10 0) b2 else b2)))
       else Inr b))
     else
       rbind (scan_file b ''/votesRequests'' 10) (\<lambda>as.
       if list_ex (\<lambda>x. x = 1) as then bgp_voting_vote_request_send b else Inr b)))"

text \<open>The second half: answer a request for a vote.\<close>

definition keepalive_response :: "bgpd \<Rightarrow> bgpd res" where
  "keepalive_response b =
     rbind (scan_file b ''/votesResponses'' 10) (\<lambda>as.
     rbind (arr_get as (as_index b)) (\<lambda>v.
     if v = 1 then
       rbind (bgp_voting_vote_response_send b) (\<lambda>b1.
       rbind (arr_put as (as_index b) 0) (\<lambda>as1. Inr (print_file ''/votesResponses'' as1 b1)))
     else Inr b))"

definition bgp_keepalive_send :: "bgpd \<Rightarrow> bgpd res" where
  "bgp_keepalive_send b =
     (if toDrop b = Some (host b) then Inr b
      else
        rbind (bgp_trust_send b) (\<lambda>b1.
        rbind (bgp_voting_peers_request_send b1) (\<lambda>b2.
        rbind (keepalive_votes b2) (\<lambda>b3.
        rbind (keepalive_response b3) (\<lambda>b4.
        rbind (make_packet b4 BGP_MSG_KEEPALIVE Inr) (\<lambda>s.
        rbind (add_packet s b4) (\<lambda>b5. Inr (BGP_WRITE_ON b5))))))))"

section \<open>Notification\<close>

definition PEER_DOWN_USER_SHUTDOWN :: nat where "PEER_DOWN_USER_SHUTDOWN = 11"
definition PEER_DOWN_USER_RESET :: nat where "PEER_DOWN_USER_RESET = 12"
definition PEER_DOWN_NOTIFY_RECEIVED :: nat where "PEER_DOWN_NOTIFY_RECEIVED = 13"
definition PEER_DOWN_NOTIFY_SEND :: nat where "PEER_DOWN_NOTIFY_SEND = 14"
definition PEER_DOWN_CLOSE_SESSION :: nat where "PEER_DOWN_CLOSE_SESSION = 15"
definition PEER_DOWN_NEIGHBOR_DELETE :: nat where "PEER_DOWN_NEIGHBOR_DELETE = 16"
definition PEER_DOWN_NSF_CLOSE_SESSION :: nat where "PEER_DOWN_NSF_CLOSE_SESSION = 22"

definition BGP_NOTIFY_HEADER_ERR :: u8 where "BGP_NOTIFY_HEADER_ERR = 1"
definition BGP_NOTIFY_OPEN_ERR :: u8 where "BGP_NOTIFY_OPEN_ERR = 2"
definition BGP_NOTIFY_UPDATE_ERR :: u8 where "BGP_NOTIFY_UPDATE_ERR = 3"
definition BGP_NOTIFY_HOLD_ERR :: u8 where "BGP_NOTIFY_HOLD_ERR = 4"
definition BGP_NOTIFY_FSM_ERR :: u8 where "BGP_NOTIFY_FSM_ERR = 5"
definition BGP_NOTIFY_CEASE :: u8 where "BGP_NOTIFY_CEASE = 6"
definition BGP_NOTIFY_CEASE_ADMIN_SHUTDOWN :: u8 where "BGP_NOTIFY_CEASE_ADMIN_SHUTDOWN = 2"
definition BGP_NOTIFY_CEASE_ADMIN_RESET :: u8 where "BGP_NOTIFY_CEASE_ADMIN_RESET = 4"
definition BGP_NOTIFY_CEASE_CONFIG_CHANGE :: u8 where "BGP_NOTIFY_CEASE_CONFIG_CHANGE = 6"
definition BGP_NOTIFY_HEADER_NOT_SYNC :: u8 where "BGP_NOTIFY_HEADER_NOT_SYNC = 1"
definition BGP_NOTIFY_HEADER_BAD_MESLEN :: u8 where "BGP_NOTIFY_HEADER_BAD_MESLEN = 2"
definition BGP_NOTIFY_HEADER_BAD_MESTYPE :: u8 where "BGP_NOTIFY_HEADER_BAD_MESTYPE = 3"
definition BGP_NOTIFY_OPEN_UNSUP_PARAM :: u8 where "BGP_NOTIFY_OPEN_UNSUP_PARAM = 4"
definition BGP_NOTIFY_OPEN_AUTH_FAILURE :: u8 where "BGP_NOTIFY_OPEN_AUTH_FAILURE = 5"
definition BGP_NOTIFY_OPEN_UNSUP_CAPBL :: u8 where "BGP_NOTIFY_OPEN_UNSUP_CAPBL = 7"

text \<open>The start timer doubles, up to two minutes.\<close>

definition double_start :: "u32 \<Rightarrow> u32" where
  "double_start v = (let w = v * 2 in if w \<ge> 60 * 2 then 60 * 2 else w)"

definition bgp_write_notify :: "bgpd \<Rightarrow> bgpd res" where
  "bgp_write_notify b =
     (case stream_fifo_head (obuf b) of
        None \<Rightarrow> Inr b
      | Some a \<Rightarrow>
          (case streams b a of
             None \<Rightarrow> Inl Dangling
           | Some n \<Rightarrow>
               rbind (stream_get_endp (sbuf n)) (\<lambda>e. c_assert (e \<ge> BGP_HEADER_SIZE)
               (rbind (mem_get (sdata (sbuf n)) 0 e) (\<lambda>bytes.
               if e_writen (env b) bytes \<le> 0 then Inr (BGP_EVENT_ADD TCP_fatal_error b)
               else
                 rbind (stream_set_getp (sbuf n) (BGP_MARKER_SIZE + 2)) (\<lambda>s1.
                 rbind (stream_getc s1) (\<lambda>(ty, s2). c_assert (ty = BGP_MSG_NOTIFY)
                 (Inr (BGP_EVENT_ADD BGP_Stop (b\<lparr>
                    streams := (streams b)(a \<mapsto> n\<lparr>sbuf := s2\<rparr>), sent := sent b @ bytes,
                    notify_out := notify_out b + 1, v_start := double_start (v_start b)\<rparr>))))))))))"

text \<open>The cause is chosen by the subcode alone.\<close>

definition reset_cause :: "u8 \<Rightarrow> nat \<Rightarrow> nat" where
  "reset_cause sub_code old =
     (if sub_code = BGP_NOTIFY_CEASE_CONFIG_CHANGE then old
      else if sub_code = BGP_NOTIFY_CEASE_ADMIN_RESET then PEER_DOWN_USER_RESET
      else if sub_code = BGP_NOTIFY_CEASE_ADMIN_SHUTDOWN then PEER_DOWN_USER_SHUTDOWN
      else PEER_DOWN_NOTIFY_SEND)"

definition bgp_notify_send_with_data :: "u8 \<Rightarrow> u8 \<Rightarrow> u8 list option \<Rightarrow> bgpd \<Rightarrow> bgpd res option" where
  "bgp_notify_send_with_data code sub_code data b =
     xbind (Some (make_packet b BGP_MSG_NOTIFY (\<lambda>s.
        rbind (stream_putc code s) (\<lambda>(_, s1).
        rbind (stream_putc sub_code s1) (\<lambda>(_, s2).
        case data of
          None \<Rightarrow> Inr s2
        | Some d \<Rightarrow> rbind (stream_write s2 d (length d)) (\<lambda>(_, s3). Inr s3)))))) (\<lambda>s.
     let a = brk b; b1 = stream_alloc s b in
     xbind (stream_fifo_clean (streams b1) (obuf b1)) (\<lambda>(h, f).
     Some (rbind (bgp_packet_add a (b1\<lparr>streams := h, obuf := f\<rparr>)) (\<lambda>b2.
           bgp_write_notify (BGP_WRITE_OFF (b2\<lparr>last_reset := reset_cause sub_code (last_reset b2)\<rparr>))))))"

definition bgp_notify_send :: "u8 \<Rightarrow> u8 \<Rightarrow> bgpd \<Rightarrow> bgpd res option" where
  "bgp_notify_send code sub_code b = bgp_notify_send_with_data code sub_code None b"

section \<open>Capability, refresh and end-of-table messages\<close>

text \<open>\<open>packet = stream_dup (s); stream_free (s); bgp_packet_add (peer, packet)\<close>\<close>

definition add_dup :: "stream \<Rightarrow> bgpd \<Rightarrow> bgpd res" where
  "add_dup s b = rbind (stream_dup (junk (env b)) s) (\<lambda>packet. add_packet packet b)"

definition CAPABILITY_CODE_MP :: u8 where "CAPABILITY_CODE_MP = 1"
definition CAPABILITY_CODE_MP_LEN :: u8 where "CAPABILITY_CODE_MP_LEN = 4"
definition CAPABILITY_ACTION_SET :: u8 where "CAPABILITY_ACTION_SET = 0"
definition CAPABILITY_ACTION_UNSET :: u8 where "CAPABILITY_ACTION_UNSET = 1"

definition bgp_capability_send :: "nat \<Rightarrow> nat \<Rightarrow> u8 \<Rightarrow> u8 \<Rightarrow> bgpd \<Rightarrow> bgpd res" where
  "bgp_capability_send afi safi capability_code action b =
     (let safi1 = (if safi = SAFI_MPLS_VPN then BGP_SAFI_VPNV4 else safi) in
      rbind (make_packet b BGP_MSG_CAPABILITY (\<lambda>s.
        if capability_code = CAPABILITY_CODE_MP then
          rbind (put_all stream_putc [action, CAPABILITY_CODE_MP, CAPABILITY_CODE_MP_LEN] s) (\<lambda>s1.
          rbind (stream_putw (of_nat afi) s1) (\<lambda>(_, s2).
          put_all stream_putc [0, of_nat safi1] s2))
        else Inr s)) (\<lambda>s.
      rbind (add_dup s b) (\<lambda>b1. Inr (BGP_WRITE_ON b1))))"

definition BGP_ATTR_FLAG_OPTIONAL :: u8 where "BGP_ATTR_FLAG_OPTIONAL = 0x80"
definition BGP_ATTR_MP_UNREACH_NLRI :: u8 where "BGP_ATTR_MP_UNREACH_NLRI = 15"

definition bgp_update_packet_eor :: "nat \<Rightarrow> nat \<Rightarrow> bgpd \<Rightarrow> bgpd res" where
  "bgp_update_packet_eor afi safi b =
     rbind (make_packet b BGP_MSG_UPDATE (\<lambda>s.
        rbind (stream_putw 0 s) (\<lambda>(_, s1).
        if afi = AFI_IP \<and> safi = SAFI_UNICAST then rbind (stream_putw 0 s1) (\<lambda>(_, s2). Inr s2)
        else
          rbind (stream_putw 6 s1) (\<lambda>(_, s2).
          rbind (put_all stream_putc [BGP_ATTR_FLAG_OPTIONAL, BGP_ATTR_MP_UNREACH_NLRI, 3] s2) (\<lambda>s3.
          rbind (stream_putw (of_nat afi) s3) (\<lambda>(_, s4).
          rbind (stream_putc (of_nat safi) s4) (\<lambda>(_, s5). Inr s5))))))) (\<lambda>s. add_dup s b)"

definition ORF_TYPE_PREFIX :: u8 where "ORF_TYPE_PREFIX = 64"
definition ORF_TYPE_PREFIX_OLD :: u8 where "ORF_TYPE_PREFIX_OLD = 128"
definition ORF_COMMON_PART_ADD :: u8 where "ORF_COMMON_PART_ADD = 0"
definition ORF_COMMON_PART_REMOVE :: u8 where "ORF_COMMON_PART_REMOVE = 0x80"
definition ORF_COMMON_PART_REMOVE_ALL :: u8 where "ORF_COMMON_PART_REMOVE_ALL = 0xC0"
definition ORF_COMMON_PART_PERMIT :: u8 where "ORF_COMMON_PART_PERMIT = 0"
definition ORF_COMMON_PART_DENY :: u8 where "ORF_COMMON_PART_DENY = 0x20"
definition REFRESH_IMMEDIATE :: u8 where "REFRESH_IMMEDIATE = 1"
definition REFRESH_DEFER :: u8 where "REFRESH_DEFER = 2"

text \<open>
  The ORF part of a route refresh: its entries and their total length. The status flags
  are indexed with the subsequent family after it was mapped to its wire value, which is
  outside the array for VPN routes.
\<close>

definition refresh_orf :: "nat \<Rightarrow> nat \<Rightarrow> u8 \<Rightarrow> u8 \<Rightarrow> bool \<Rightarrow> bgpd \<Rightarrow> prefix_list option \<Rightarrow> stream \<Rightarrow> stream res" where
  "refresh_orf afi safi orf_type when_to_refresh remove b plist s =
     rbind (put_all stream_putc [when_to_refresh, orf_type] s) (\<lambda>s1.
     rbind (stream_get_endp s1) (\<lambda>orfp.
     rbind (stream_putw 0 s1) (\<lambda>(_, s2).
     if safi \<ge> SAFI_MAX then Inl Out_Of_Bounds
     else
     rbind (if remove then rbind (stream_putc ORF_COMMON_PART_REMOVE_ALL s2) (\<lambda>(_, s3). Inr s3)
            else (case plist of
                    None \<Rightarrow> Inr s2
                  | Some l \<Rightarrow> prefix_bgp_orf_entry s2 (pl_entries l) ORF_COMMON_PART_ADD
                                ORF_COMMON_PART_PERMIT ORF_COMMON_PART_DENY)) (\<lambda>s3.
     rbind (stream_get_endp s3) (\<lambda>e.
     rbind (stream_putw_at s3 orfp (of_nat (size_sub (size_sub e orfp) 2))) (\<lambda>(_, s4). Inr s4))))))"

definition bgp_route_refresh_send :: "nat \<Rightarrow> nat \<Rightarrow> u8 \<Rightarrow> u8 \<Rightarrow> bool \<Rightarrow> bgpd \<Rightarrow> bgpd res" where
  "bgp_route_refresh_send afi safi orf_type when_to_refresh remove b =
     (let plist = plist_in b afi safi;
          safi1 = (if safi = SAFI_MPLS_VPN then BGP_SAFI_VPNV4 else safi);
          ty = (if CHECK_FLAG (cap b) PEER_CAP_REFRESH_NEW_RCV then BGP_MSG_ROUTE_REFRESH_NEW
                else BGP_MSG_ROUTE_REFRESH_OLD);
          orf = (orf_type = ORF_TYPE_PREFIX \<or> orf_type = ORF_TYPE_PREFIX_OLD) \<and> (remove \<or> plist \<noteq> None);
          b1 = (if orf then b\<lparr>af_sflags := af_set (af_sflags b) afi safi1
                  (if remove then UNSET_FLAG (af_sflags b afi safi1) PEER_STATUS_ORF_PREFIX_SEND
                   else SET_FLAG (af_sflags b afi safi1) PEER_STATUS_ORF_PREFIX_SEND)\<rparr> else b) in
      rbind (make_packet b ty (\<lambda>s.
        rbind (stream_putw (of_nat afi) s) (\<lambda>(_, s1).
        rbind (put_all stream_putc [0, of_nat safi1] s1) (\<lambda>s2.
        if orf then refresh_orf afi safi1 orf_type when_to_refresh remove b plist s2 else Inr s2)))) (\<lambda>s.
      rbind (add_dup s b1) (\<lambda>b2. Inr (BGP_WRITE_ON b2))))"

section \<open>Writing to the socket\<close>

text \<open>\<open>sockerr\<close> is the answer of \<open>getsockopt\<close>: nothing on failure, else the pending error.\<close>

definition bgp_connect_check :: "int option \<Rightarrow> bgpd \<Rightarrow> bgpd" where
  "bgp_connect_check sockerr b =
     (let b1 = BGP_WRITE_OFF (BGP_READ_OFF b) in
      case sockerr of
        None \<Rightarrow> BGP_EVENT_ADD TCP_fatal_error b1
      | Some st \<Rightarrow> BGP_EVENT_ADD (if st = 0 then TCP_connection_open else TCP_connection_open_failed) b1)"

text \<open>
  The next packet: the head of the queue, else a packet made from the pending
  announcements, which come from the routing information base (\<open>gen\<close>).
\<close>

definition bgp_write_packet ::
    "(bgpd \<Rightarrow> (addr option \<times> bgpd) res) \<Rightarrow> bgpd \<Rightarrow> (addr option \<times> bgpd) res" where
  "bgp_write_packet gen b =
     (case stream_fifo_head (obuf b) of Some s \<Rightarrow> Inr (Some s, b) | None \<Rightarrow> gen b)"

definition BGP_WRITE_PACKET_MAX :: nat where
  "BGP_WRITE_PACKET_MAX = 10"

definition count_sent :: "u8 \<Rightarrow> bgpd \<Rightarrow> bgpd" where
  "count_sent ty b =
     (if ty = BGP_MSG_OPEN then b\<lparr>open_out := open_out b + 1\<rparr>
      else if ty = BGP_MSG_UPDATE then b\<lparr>update_out := update_out b + 1\<rparr>
      else if ty = BGP_MSG_KEEPALIVE then b\<lparr>keepalive_out := keepalive_out b + 1\<rparr>
      else if ty = BGP_MSG_ROUTE_REFRESH_NEW \<or> ty = BGP_MSG_ROUTE_REFRESH_OLD
      then b\<lparr>refresh_out := refresh_out b + 1\<rparr>
      else if ty = BGP_MSG_CAPABILITY then b\<lparr>dynamic_cap_out := dynamic_cap_out b + 1\<rparr>
      else b)"

text \<open>
  The loop of \<open>bgp_write\<close>. \<open>wr\<close> gives the result of the \<open>cnt\<close>-th call of \<open>write\<close>. The flag of
  the result says whether the function goes on behind the loop (after a \<open>break\<close> or when the
  loop ends) or has returned.
\<close>

function write_loop ::
    "(bgpd \<Rightarrow> (addr option \<times> bgpd) res) \<Rightarrow> (nat \<Rightarrow> u8 list \<Rightarrow> write_result) \<Rightarrow> nat \<Rightarrow> addr \<Rightarrow> bgpd \<Rightarrow>
     (bool \<times> bgpd) res" where
  "write_loop gen wr cnt a b =
     (case streams b a of
        None \<Rightarrow> Inl Dangling
      | Some n \<Rightarrow>
          rbind (stream_get_endp (sbuf n)) (\<lambda>e.
          rbind (stream_get_getp (sbuf n)) (\<lambda>g.
          rbind (mem_get (sdata (sbuf n)) g (e - g)) (\<lambda>bytes.
          case wr cnt bytes of
            Write_Retry \<Rightarrow> Inr (True, b)
          | Write_Error \<Rightarrow> Inr (False, BGP_EVENT_ADD TCP_fatal_error b)
          | Wrote num \<Rightarrow>
              let b0 = b\<lparr>sent := sent b @ take num bytes\<rparr> in
              if num \<noteq> length bytes then
                rbind (stream_forward_getp (sbuf n) num) (\<lambda>s1.
                Inr (True, b0\<lparr>streams := (streams b)(a \<mapsto> n\<lparr>sbuf := s1\<rparr>)\<rparr>))
              else
                rbind (stream_set_getp (sbuf n) (BGP_MARKER_SIZE + 2)) (\<lambda>s1.
                rbind (stream_getc s1) (\<lambda>(ty, s2).
                let b1 = b0\<lparr>streams := (streams b)(a \<mapsto> n\<lparr>sbuf := s2\<rparr>)\<rparr> in
                if ty = BGP_MSG_NOTIFY then
                  Inr (False, BGP_EVENT_ADD BGP_Stop
                    (b1\<lparr>notify_out := notify_out b1 + 1, v_start := double_start (v_start b1)\<rparr>))
                else
                  rbind (bgp_packet_delete (count_sent ty b1)) (\<lambda>b2.
                  if Suc cnt < BGP_WRITE_PACKET_MAX then
                    rbind (bgp_write_packet gen b2) (\<lambda>(next, b3).
                    case next of None \<Rightarrow> Inr (True, b3) | Some a' \<Rightarrow> write_loop gen wr (Suc cnt) a' b3)
                  else Inr (True, b2))))))))"
  by pat_completeness auto
termination
  by (relation "measure (\<lambda>(gen, wr, cnt, a, b). BGP_WRITE_PACKET_MAX - cnt)")
    (auto simp: BGP_WRITE_PACKET_MAX_def)

declare write_loop.simps [simp del]

text \<open>
  \<open>updates\<close> says whether announcements are pending that can be sent now. The switches of the
  TCP cork option are left out.
\<close>

definition bgp_write_proceed :: "(bgpd \<Rightarrow> bool) \<Rightarrow> bgpd \<Rightarrow> bool" where
  "bgp_write_proceed updates b \<longleftrightarrow> stream_fifo_head (obuf b) \<noteq> None \<or> updates b"

definition bgp_write ::
    "(bgpd \<Rightarrow> (addr option \<times> bgpd) res) \<Rightarrow> (bgpd \<Rightarrow> bool) \<Rightarrow> (nat \<Rightarrow> u8 list \<Rightarrow> write_result) \<Rightarrow>
     int option \<Rightarrow> bgpd \<Rightarrow> bgpd res" where
  "bgp_write gen updates wr sockerr b =
     (let b0 = b\<lparr>t_write := None\<rparr> in
      if status b0 = Connect then Inr (bgp_connect_check sockerr b0)
      else
        rbind (bgp_write_packet gen b0) (\<lambda>(s, b1).
        case s of
          None \<Rightarrow> Inr b1
        | Some a \<Rightarrow>
            rbind (write_loop gen wr 0 a b1) (\<lambda>(go_on, b2).
            Inr (if go_on \<and> bgp_write_proceed updates b2 then BGP_WRITE_ON b2 else b2))))"

end
