(* ===== verification/Bgp_Send_Facts.thy ===== *)
theory Bgp_Send_Facts
  imports Bgp_Send
begin

text \<open>
  What the messages of \<open>Bgp_Send\<close> contain and what the output queue holds after they are
  queued. The trust and voting messages are pushed twice, which links the last stream to
  itself; the next push repairs the link, so that after a keepalive the queue is again a
  proper list in which every message occurs once.
\<close>

section \<open>The bytes of a packet\<close>

definition packet_bytes :: "u8 \<Rightarrow> u8 list \<Rightarrow> u8 list" where
  "packet_bytes ty bs = replicate 16 0xff @ be_bytes 2 (of_nat (19 + length bs) :: u16) @ ty # bs"

text \<open>A body that appends the bytes \<open>bs\<close>.\<close>

definition appends :: "(stream \<Rightarrow> stream res) \<Rightarrow> u8 list \<Rightarrow> bool" where
  "appends body bs \<longleftrightarrow> (\<forall>s. stream_ok s \<longrightarrow> length bs \<le> space s \<longrightarrow> body s = Inr (appended bs s))"

lemma appended_nil [simp]: "appended [] s = s"
  by (simp add: appended_def)

lemma appends_nil [simp]: "appends Inr []"
  by (simp add: appends_def)

lemma appends_putw: "appends (\<lambda>s. rbind (stream_putw w s) (\<lambda>(_, s1). Inr s1)) (be_bytes 2 w)"
  by (simp add: appends_def sw.put_spec del: be_bytes.simps)

lemma appends_words: "appends (put_all stream_putw ws) (concat (map (be_bytes 2) ws))"
  by (simp add: appends_def sw.put_all_spec length_concat comp_def sum_list_triv del: be_bytes.simps)

lemma be_bytes_1 [simp]: "be_bytes (Suc 0) (c :: u8) = [c]"
  by simp

lemma set_marker_spec:
  assumes "stream_ok s" "19 \<le> space s"
  shows "bgp_packet_set_marker s ty = Inr (endp s + 19, appended (replicate 16 0xff @ [0, 0, ty]) s)"
proof -
  let ?m = "replicate 16 0xff :: u8 list"
  have m: "concat (map (be_bytes 1) ?m) = ?m" by (simp add: numeral_eq_Suc)
  have "put_all stream_putc ?m s = Inr (appended ?m s)"
    using sc.put_all_spec [of s ?m] assms m by (simp del: be_bytes.simps)
  moreover have "stream_putw 0 (appended ?m s) = Inr (2, appended (?m @ [0, 0]) s)"
    using assms by (simp add: sw.put_spec appended_append numeral_2_eq_2)
  moreover have "stream_putc ty (appended (?m @ [0, 0]) s) = Inr (1, appended (?m @ [0, 0, ty]) s)"
    using assms by (simp add: sc.put_spec appended_append del: be_bytes.simps)
  moreover have "stream_ok (appended (?m @ [0, 0, ty]) s)" using assms by simp
  ultimately show ?thesis by (simp add: bgp_packet_set_marker_def bgp_sizes stream_get_endp_def)
qed

lemma set_size_spec:
  assumes "stream_ok s" "19 \<le> endp s" "endp s \<le> 4096"
  shows "bgp_packet_set_size s = Inr (endp s, patched 16 (be_bytes 2 (of_nat (endp s) :: u16)) s)"
  using assms
  by (simp add: bgp_packet_set_size_def stream_get_endp_def stream_putw_at_def put_at_spec bgp_sizes SIZE_T_def
      del: be_bytes.simps)

lemma readable_patched:
  assumes "stream_ok s" "getp s = 0" "readable s = xs @ ys @ zs" "length ys = length bs" "length xs = pos"
  shows "readable (patched pos bs s) = xs @ bs @ zs"
proof -
  have e: "take (endp s) (sdata s) = xs @ ys @ zs" using assms(2,3) by (simp add: readable_def)
  have len: "endp s \<le> length (sdata s)" using assms(1) by (simp add: stream_ok_def)
  then have "endp s = length (xs @ ys @ zs)" using e by (metis length_take min.absorb2)
  moreover obtain rest where "sdata s = xs @ ys @ zs @ rest" using e by (metis append.assoc append_take_drop_id)
  ultimately show ?thesis using assms(2,4,5) by (simp add: readable_def patched_def)
qed

lemma make_packet_spec:
  assumes "appends body bs" "length bs \<le> 4077"
  shows "\<exists>s. make_packet b ty body = Inr s \<and> stream_ok s \<and> getp s = 0 \<and> readable s = packet_bytes ty bs \<and>
    endp s = 19 + length bs \<and> ssize s = 4096"
proof -
  define s0 where "s0 = \<lparr>getp = 0, endp = 0, ssize = 4096, sdata = map (junk (env b)) [0..<4096]\<rparr>"
  let ?h = "replicate 16 0xff @ [0, 0, ty]" and ?n = "19 + length bs"
  define s2 where "s2 = appended bs (appended ?h s0)"
  have new: "stream_new (junk (env b)) BGP_MAX_PACKET_SIZE = Inr s0" by (simp add: stream_new_def s0_def bgp_sizes)
  have ok0: "stream_ok s0" "space s0 = 4096" "readable s0 = []" "endp s0 = 0" "getp s0 = 0" "ssize s0 = 4096"
    by (simp_all add: s0_def stream_ok_def space_def readable_def SIZE_T_def)
  have ok2: "stream_ok s2" "readable s2 = replicate 16 0xff @ [0, 0] @ ty # bs" "getp s2 = 0" "endp s2 = ?n" "ssize s2 = 4096"
    using ok0 assms(2) by (simp_all add: s2_def)
  have "make_packet b ty body = Inr (patched 16 (be_bytes 2 (of_nat ?n :: u16)) s2)"
    using new set_marker_spec [OF ok0(1)] assms ok0 set_size_spec [OF ok2(1)] ok2
    by (simp add: make_packet_def appends_def s2_def [symmetric] del: be_bytes.simps)
  moreover have "readable (patched 16 (be_bytes 2 (of_nat ?n :: u16)) s2) = packet_bytes ty bs"
    using readable_patched [OF ok2(1,3,2)] by (simp add: packet_bytes_def del: be_bytes.simps)
  moreover have "stream_ok (patched 16 (be_bytes 2 (of_nat ?n :: u16)) s2)"
    using ok2 by (simp del: be_bytes.simps)
  ultimately show ?thesis using ok2 by simp
qed

section \<open>The output queue\<close>

text \<open>
  \<open>loose h f xs\<close>: head, tail and links of the FIFO describe the streams \<open>xs\<close>, except that
  nothing is said about the \<open>next\<close> pointer of the last one.
\<close>

fun links :: "sheap \<Rightarrow> addr list \<Rightarrow> bool" where
  "links h [] = True"
| "links h [x] = (h x \<noteq> None)"
| "links h (x # y # xs) = ((\<exists>n. h x = Some n \<and> snext n = Some y) \<and> links h (y # xs))"

definition loose :: "sheap \<Rightarrow> stream_fifo \<Rightarrow> addr list \<Rightarrow> bool" where
  "loose h f xs \<longleftrightarrow> links h xs \<and> distinct xs \<and>
     head f = (if xs = [] then None else Some (hd xs)) \<and> tail f = (if xs = [] then None else Some (last xs))"

definition content :: "sheap \<Rightarrow> addr \<Rightarrow> u8 list" where
  "content h a = (case h a of None \<Rightarrow> [] | Some n \<Rightarrow> readable (sbuf n))"

definition outq :: "bgpd \<Rightarrow> u8 list list \<Rightarrow> bool" where
  "outq b ps \<longleftrightarrow> (\<exists>xs. loose (streams b) (obuf b) xs \<and> (\<forall>x \<in> set xs. x < brk b) \<and> map (content (streams b)) xs = ps)"

text \<open>The last stream has no successor.\<close>

definition closed :: "bgpd \<Rightarrow> bool" where
  "closed b \<longleftrightarrow> (\<forall>t n. tail (obuf b) = Some t \<longrightarrow> streams b t = Some n \<longrightarrow> snext n = None)"

text \<open>The rest of the state is unchanged.\<close>

definition queue_only :: "bgpd \<Rightarrow> bgpd \<Rightarrow> bool" where
  "queue_only b b' \<longleftrightarrow> b' = b\<lparr>streams := streams b', obuf := obuf b', brk := brk b'\<rparr>"

lemma links_frame: "links h xs \<Longrightarrow> a \<notin> set xs \<Longrightarrow> links (h(a := v)) xs"
  by (induction h xs rule: links.induct) auto

lemma links_snoc:
  "links h xs \<Longrightarrow> xs \<noteq> [] \<Longrightarrow> distinct xs \<Longrightarrow> h (last xs) = Some n \<Longrightarrow> a \<notin> set xs \<Longrightarrow> h a \<noteq> None \<Longrightarrow>
   links (h(last xs \<mapsto> n\<lparr>snext := Some a\<rparr>)) (xs @ [a])"
  by (induction h xs rule: links.induct) auto

lemma links_last: "links h xs \<Longrightarrow> xs \<noteq> [] \<Longrightarrow> \<exists>n. h (last xs) = Some n"
  by (induction h xs rule: links.induct) auto

lemma links_last_upd: "links h xs \<Longrightarrow> distinct xs \<Longrightarrow> xs \<noteq> [] \<Longrightarrow> links (h(last xs \<mapsto> n)) xs"
  by (induction h xs rule: links.induct) auto

lemma links_chain:
  "links h xs \<Longrightarrow> xs \<noteq> [] \<Longrightarrow> h (last xs) = Some n \<Longrightarrow> snext n = None \<Longrightarrow> chain h (Some (hd xs)) xs"
  by (induction h xs rule: links.induct) auto

lemma loose_chain: "loose h f xs \<Longrightarrow> (\<forall>t n. tail f = Some t \<longrightarrow> h t = Some n \<longrightarrow> snext n = None) \<Longrightarrow> chain h (head f) xs"
  using links_chain [of h xs] links_last [of h xs] by (cases "xs = []") (auto simp: loose_def)

lemma content_upd [simp]: "content (h(a \<mapsto> n)) x = (if x = a then readable (sbuf n) else content h x)"
  by (simp add: content_def)

text \<open>A push of a new stream, and a second push of the stream that is last already.\<close>

lemma push_new:
  fixes s :: stream
  assumes "loose h f xs" "a \<notin> set xs"
  defines "h1 \<equiv> h(a \<mapsto> \<lparr>snext = None, sbuf = s\<rparr>)"
  shows "\<exists>h' f'. stream_fifo_push h1 f a = Inr (h', f') \<and> loose h' f' (xs @ [a]) \<and>
    h' a = Some \<lparr>snext = None, sbuf = s\<rparr> \<and> count f' = size_add (count f) 1 \<and>
    map (content h') (xs @ [a]) = map (content h) xs @ [readable s]"
proof (cases "xs = []")
  case True
  then show ?thesis using assms(1) by (auto simp: loose_def stream_fifo_push_def h1_def)
next
  case False
  have l1: "links h1 xs" using links_frame assms by (auto simp: loose_def h1_def)
  then obtain n where n: "h1 (last xs) = Some n" using links_last False by blast
  have la: "last xs \<noteq> a" using False assms(2) by (metis last_in_set)
  let ?h = "h1(last xs \<mapsto> n\<lparr>snext := Some a\<rparr>)" and ?f = "f\<lparr>tail := Some a, count := size_add (count f) 1\<rparr>"
  have "stream_fifo_push h1 f a = Inr (?h, ?f)"
    using assms(1) False n by (simp add: stream_fifo_push_def loose_def)
  moreover have "loose ?h ?f (xs @ [a])"
    using assms False n l1 links_snoc [of h1 xs n a] by (auto simp: loose_def h1_def)
  moreover have "\<forall>x \<in> set xs. content ?h x = content h x"
    using n la assms(2) by (auto simp: h1_def content_def)
  ultimately show ?thesis using la by (auto simp: h1_def)
qed

lemma push_again:
  assumes "loose h f (xs @ [a])" "h a = Some n"
  shows "\<exists>h' f'. stream_fifo_push h f a = Inr (h', f') \<and> loose h' f' (xs @ [a]) \<and>
    count f' = size_add (count f) 1 \<and> map (content h') (xs @ [a]) = map (content h) (xs @ [a])"
proof -
  let ?h = "h(a \<mapsto> n\<lparr>snext := Some a\<rparr>)" and ?f = "f\<lparr>tail := Some a, count := size_add (count f) 1\<rparr>"
  have "stream_fifo_push h f a = Inr (?h, ?f)" using assms by (simp add: stream_fifo_push_def loose_def)
  moreover have "loose ?h ?f (xs @ [a])"
    using assms links_last_upd [of h "xs @ [a]" "n\<lparr>snext := Some a\<rparr>"] by (simp add: loose_def)
  moreover have "content h a = readable (sbuf n)" using assms(2) by (simp add: content_def)
  ultimately show ?thesis by simp
qed

lemma add_packet_spec:
  assumes "outq b ps"
  shows "\<exists>b'. add_packet s b = Inr b' \<and> outq b' (ps @ [readable s]) \<and> closed b' \<and> queue_only b b' \<and>
    count (obuf b') = size_add (count (obuf b)) 1"
proof -
  obtain xs where xs: "loose (streams b) (obuf b) xs" "\<forall>x \<in> set xs. x < brk b" "map (content (streams b)) xs = ps"
    using assms by (auto simp: outq_def)
  have "brk b \<notin> set xs" using xs(2) by auto
  from push_new [OF xs(1) this, of s] obtain h f where
    push: "stream_fifo_push ((streams b)(brk b \<mapsto> \<lparr>snext = None, sbuf = s\<rparr>)) (obuf b) (brk b) = Inr (h, f)"
      "loose h f (xs @ [brk b])" "h (brk b) = Some \<lparr>snext = None, sbuf = s\<rparr>" "count f = size_add (count (obuf b)) 1"
      "map (content h) (xs @ [brk b]) = ps @ [readable s]" using xs(3) by auto
  let ?b = "b\<lparr>streams := h, obuf := f, brk := brk b + 1\<rparr>"
  have "add_packet s b = Inr ?b" using push(1) by (simp add: add_packet_def bgp_packet_add_def stream_alloc_def)
  moreover have "outq ?b (ps @ [readable s])" using push(2,5) xs(2) by (auto simp: outq_def intro!: exI [of _ "xs @ [brk b]"] intro: less_SucI)
  moreover have "closed ?b" using push(2,3) by (auto simp: closed_def loose_def)
  moreover have "queue_only b ?b" by (simp add: queue_only_def)
  ultimately show ?thesis using push(4) by auto
qed

lemma add_twice_spec:
  assumes "outq b ps"
  shows "\<exists>b'. add_packet_twice s b = Inr b' \<and> outq b' (ps @ [readable s]) \<and> queue_only b b' \<and>
    count (obuf b') = size_add (size_add (count (obuf b)) 1) 1"
proof -
  obtain xs where xs: "loose (streams b) (obuf b) xs" "\<forall>x \<in> set xs. x < brk b" "map (content (streams b)) xs = ps"
    using assms by (auto simp: outq_def)
  have "brk b \<notin> set xs" using xs(2) by auto
  from push_new [OF xs(1) this, of s] obtain h f where
    push: "stream_fifo_push ((streams b)(brk b \<mapsto> \<lparr>snext = None, sbuf = s\<rparr>)) (obuf b) (brk b) = Inr (h, f)"
      "loose h f (xs @ [brk b])" "h (brk b) = Some \<lparr>snext = None, sbuf = s\<rparr>" "count f = size_add (count (obuf b)) 1"
      "map (content h) (xs @ [brk b]) = ps @ [readable s]" using xs(3) by auto
  from push_again [OF push(2,3)] obtain h' f' where
    again: "stream_fifo_push h f (brk b) = Inr (h', f')" "loose h' f' (xs @ [brk b])" "count f' = size_add (count f) 1"
      "map (content h') (xs @ [brk b]) = ps @ [readable s]" using push(5) by auto
  let ?b = "b\<lparr>streams := h', obuf := f', brk := brk b + 1\<rparr>"
  have "add_packet_twice s b = Inr ?b"
    using push(1) again(1) by (simp add: add_packet_twice_def bgp_packet_add_def stream_alloc_def)
  moreover have "outq ?b (ps @ [readable s])" using again(2,4) xs(2) by (auto simp: outq_def intro!: exI [of _ "xs @ [brk b]"] intro: less_SucI)
  moreover have "queue_only b ?b" by (simp add: queue_only_def)
  ultimately show ?thesis using push(4) again(3) by auto
qed

lemma queue_only_frame:
  assumes "queue_only b b'"
  shows "files b' = files b" "peer_as b' = peer_as b" "host b' = host b" "toDrop b' = toDrop b" "env b' = env b"
    "status b' = status b" "fd b' = fd b" "t_write b' = t_write b"
proof -
  obtain h f k where "b' = b\<lparr>streams := h, obuf := f, brk := k\<rparr>" using assms by (auto simp: queue_only_def)
  then show "files b' = files b" "peer_as b' = peer_as b" "host b' = host b" "toDrop b' = toDrop b" "env b' = env b"
    "status b' = status b" "fd b' = fd b" "t_write b' = t_write b" by simp_all
qed

lemma outq_cong: "streams b' = streams b \<Longrightarrow> obuf b' = obuf b \<Longrightarrow> brk b' = brk b \<Longrightarrow> outq b' ps = outq b ps"
  by (simp add: outq_def)

section \<open>Keepalive\<close>

definition nums :: "bgpd \<Rightarrow> string \<Rightarrow> int list" where
  "nums b name = (case files b name of None \<Rightarrow> [] | Some vs \<Rightarrow> vs)"

text \<open>The files have as many numbers as the code reads, and the peer has one of the ten AS
  numbers that the arrays have room for.\<close>

definition trust_files_ok :: "bgpd \<Rightarrow> bool" where
  "trust_files_ok b \<longleftrightarrow>
     length (nums b ''/myAS.txt'') = 1 \<and> length (nums b ''/neighborsN'') = 1 \<and> length (nums b ''/votes'') = 10 \<and>
     length (nums b ''/votesRequests'') = 10 \<and> length (nums b ''/votesResponses'') = 10 \<and>
     length (nums b ''/obsTrust.txt'') = 10 \<and> length (nums b ''/inTrust.txt'') = 10 \<and>
     1 \<le> unat (peer_as b) \<and> unat (peer_as b) \<le> 10"

lemma scan_ok: "length (nums b name) = n \<Longrightarrow> 0 < n \<Longrightarrow> scan_file b name n = Inr (nums b name)"
  by (auto simp: scan_file_def nums_def split: option.splits)

lemma as_index_eq: "1 \<le> unat (peer_as b) \<Longrightarrow> as_index b = unat (peer_as b) - 1"
  using unat_sub [of 1 "peer_as b"] by (simp add: as_index_def word_le_nat_alt)

lemma as_index_less: "trust_files_ok b \<Longrightarrow> as_index b < 10"
  using as_index_eq [of b] by (auto simp: trust_files_ok_def)

text \<open>The messages about votes that a keepalive carries along, from the files.\<close>

definition all_votes_in :: "bgpd \<Rightarrow> bool" where
  "all_votes_in b \<longleftrightarrow> int (length (filter (\<lambda>v. v \<noteq> 0) (nums b ''/votes''))) = nums b ''/neighborsN'' ! 0"

definition vote_words :: "bgpd \<Rightarrow> u16 list" where
  "vote_words b = map of_int (nums b ''/votes'')"

definition vote_messages :: "bgpd \<Rightarrow> u8 list list" where
  "vote_messages b =
     (if all_votes_in b then
        if nums b ''/votesRequests'' ! as_index b = 1
        then [packet_bytes BGP_MSG_VOTING_PEERS_RESPONSE (concat (map (be_bytes 2) (vote_words b)))] else []
      else if 1 \<in> set (nums b ''/votesRequests'') then [packet_bytes BGP_MSG_VOTING_VOTE_REQUEST []] else [])"

definition trust_vote :: "bgpd \<Rightarrow> u16" where
  "trust_vote b = of_int (nums b ''/obsTrust.txt'' ! as_index b) + of_int (nums b ''/inTrust.txt'' ! as_index b)"

definition answer_messages :: "bgpd \<Rightarrow> u8 list list" where
  "answer_messages b =
     (if nums b ''/votesResponses'' ! as_index b = 1
      then [packet_bytes BGP_MSG_VOTING_VOTE_RESPONSE (be_bytes 2 (trust_vote b))] else [])"

definition trust_level :: "bgpd \<Rightarrow> u16" where
  "trust_level b = of_nat (e_rand (env b) mod 90 + 10)"

definition keepalive_messages :: "bgpd \<Rightarrow> u8 list list" where
  "keepalive_messages b =
     [packet_bytes BGP_MSG_TRUST (be_bytes 2 (trust_level b)), packet_bytes BGP_MSG_VOTING_PEERS_REQUEST []] @
     vote_messages b @ answer_messages b @ [packet_bytes BGP_MSG_KEEPALIVE []]"

text \<open>A sender of one message: what it leaves of the state.\<close>

lemma send_twice:
  assumes "outq b ps" "appends body bs" "length bs \<le> 4077"
  shows "\<exists>b'. rbind (make_packet b0 ty body) (\<lambda>s. add_packet_twice s b) = Inr b' \<and>
    outq b' (ps @ [packet_bytes ty bs]) \<and> queue_only b b' \<and> count (obuf b') = size_add (size_add (count (obuf b)) 1) 1"
proof -
  obtain s where "make_packet b0 ty body = Inr s" "readable s = packet_bytes ty bs"
    using make_packet_spec [OF assms(2,3)] by blast
  then show ?thesis using add_twice_spec [OF assms(1), of s] by auto
qed

lemma queue_only_nums: "queue_only b b' \<Longrightarrow> nums b' name = nums b name"
  by (simp add: nums_def queue_only_frame)

lemma queue_only_index: "queue_only b b' \<Longrightarrow> as_index b' = as_index b"
  by (simp add: as_index_def queue_only_frame)

text \<open>What a part of the keepalive does: it queues \<open>ms\<close>, each pushed twice.\<close>

definition queues :: "bgpd \<Rightarrow> u8 list list \<Rightarrow> u8 list list \<Rightarrow> bgpd \<Rightarrow> bool" where
  "queues b ps ms b' \<longleftrightarrow> outq b' (ps @ ms) \<and> count (obuf b') = size_add (count (obuf b)) (2 * length ms) \<and>
     peer_as b' = peer_as b \<and> host b' = host b \<and> env b' = env b \<and> status b' = status b \<and> fd b' = fd b"

lemma size_add_twice: "size_add (size_add a 1) 1 = size_add a 2"
  by (simp add: size_add_def mod_simps)

lemma trust_send_spec:
  assumes "outq b ps" "length (nums b ''/myAS.txt'') = 1"
  shows "\<exists>b'. bgp_trust_send b = Inr b' \<and> files b' = files b \<and>
    queues b ps [packet_bytes BGP_MSG_TRUST (be_bytes 2 (trust_level b))] b'"
proof -
  define b1 where "b1 = (if toDrop b = None \<and> e_time (env b) > 1262304072 \<and> peer_as b \<noteq> of_int (nums b ''/myAS.txt'' ! 0) \<and>
      (of_int (nums b ''/myAS.txt'' ! 0) :: u32) = 1 then b\<lparr>toDrop := Some (host b)\<rparr> else b)"
  have same: "streams b1 = streams b" "obuf b1 = obuf b" "brk b1 = brk b" "files b1 = files b" "peer_as b1 = peer_as b"
    "host b1 = host b" "env b1 = env b" "status b1 = status b" "fd b1 = fd b" by (simp_all add: b1_def)
  have "outq b1 ps" using assms(1) same outq_cong by blast
  from send_twice [OF this appends_putw, of "trust_level b" b BGP_MSG_TRUST] obtain b' where
    b': "rbind (make_packet b BGP_MSG_TRUST (\<lambda>s. rbind (stream_putw (trust_level b) s) (\<lambda>(_, s1). Inr s1)))
          (\<lambda>s. add_packet_twice s b1) = Inr b'"
      "outq b' (ps @ [packet_bytes BGP_MSG_TRUST (be_bytes 2 (trust_level b))])" "queue_only b1 b'"
      "count (obuf b') = size_add (size_add (count (obuf b1)) 1) 1" by (auto simp del: be_bytes.simps)
  have "bgp_trust_send b = Inr b'"
    using b'(1) scan_ok [OF assms(2)] by (simp add: bgp_trust_send_def trust_level_def b1_def Let_def)
  then show ?thesis using b'(2-4) same queue_only_frame [OF b'(3)] size_add_twice
    by (simp add: queues_def del: be_bytes.simps)
qed

lemma request_send_spec:
  assumes "outq b ps"
  shows "\<exists>b'. bgp_voting_peers_request_send b = Inr b' \<and> files b' = files b \<and>
      queues b ps [packet_bytes BGP_MSG_VOTING_PEERS_REQUEST []] b'"
    and "\<exists>b'. bgp_voting_vote_request_send b = Inr b' \<and> files b' = files b \<and>
      queues b ps [packet_bytes BGP_MSG_VOTING_VOTE_REQUEST []] b'"
proof -
  have "\<exists>b'. rbind (make_packet b ty Inr) (\<lambda>s. add_packet_twice s b) = Inr b' \<and> files b' = files b \<and>
      queues b ps [packet_bytes ty []] b'" for ty
    using send_twice [OF assms appends_nil, of b ty] queue_only_frame [of b] size_add_twice
    by (auto simp: queues_def)
  then show "\<exists>b'. bgp_voting_peers_request_send b = Inr b' \<and> files b' = files b \<and>
      queues b ps [packet_bytes BGP_MSG_VOTING_PEERS_REQUEST []] b'"
    "\<exists>b'. bgp_voting_vote_request_send b = Inr b' \<and> files b' = files b \<and>
      queues b ps [packet_bytes BGP_MSG_VOTING_VOTE_REQUEST []] b'"
    by (simp_all add: bgp_voting_peers_request_send_def bgp_voting_vote_request_send_def)
qed

lemma peers_response_spec:
  assumes "outq b ps" "length (nums b ''/votes'') = 10"
  shows "\<exists>b'. bgp_voting_peers_response_send b = Inr b' \<and> files b' = files b \<and>
    queues b ps [packet_bytes BGP_MSG_VOTING_PEERS_RESPONSE (concat (map (be_bytes 2) (vote_words b)))] b'"
proof -
  have "length (concat (map (be_bytes 2) (vote_words b))) = 20"
    using assms(2) by (simp add: length_concat comp_def sum_list_triv vote_words_def del: be_bytes.simps)
  from send_twice [OF assms(1) appends_words, of "vote_words b" b BGP_MSG_VOTING_PEERS_RESPONSE] this show ?thesis
    using scan_ok [OF assms(2)] queue_only_frame [of b] size_add_twice
    by (auto simp: queues_def bgp_voting_peers_response_send_def vote_words_def simp del: be_bytes.simps)
qed

lemma vote_response_spec:
  assumes "outq b ps" "length (nums b ''/obsTrust.txt'') = 10" "length (nums b ''/inTrust.txt'') = 10" "as_index b < 10"
  shows "\<exists>b'. bgp_voting_vote_response_send b = Inr b' \<and> files b' = files b \<and>
    queues b ps [packet_bytes BGP_MSG_VOTING_VOTE_RESPONSE (be_bytes 2 (trust_vote b))] b'"
proof -
  have "the (files b ''/obsTrust.txt'') = nums b ''/obsTrust.txt''"
    using assms(2) by (auto simp: nums_def split: option.splits)
  then have "bgp_voting_vote_response_send b =
      rbind (make_packet b BGP_MSG_VOTING_VOTE_RESPONSE (\<lambda>s. rbind (stream_putw (trust_vote b) s) (\<lambda>(_, s1). Inr s1)))
        (\<lambda>s. add_packet_twice s b)"
    using scan_ok [OF assms(2)] scan_ok [OF assms(3)] assms(2-4)
    by (simp add: bgp_voting_vote_response_send_def arr_get_def trust_vote_def)
  with send_twice [OF assms(1) appends_putw, of "trust_vote b" b BGP_MSG_VOTING_VOTE_RESPONSE] show ?thesis
    using queue_only_frame [of b] size_add_twice by (auto simp: queues_def simp del: be_bytes.simps)
qed

text \<open>The files after the two halves of the keepalive.\<close>

definition votes_files :: "bgpd \<Rightarrow> (string \<rightharpoonup> int list)" where
  "votes_files b =
     (if all_votes_in b \<and> nums b ''/votesRequests'' ! as_index b = 1 then
        let req = (nums b ''/votesRequests'')[as_index b := 0]; fs = (files b)(''/votesRequests'' \<mapsto> req)
        in if list_all (\<lambda>x. x = 0) req then fs(''/votes'' \<mapsto> replicate 10 0) else fs
      else files b)"

definition answer_files :: "bgpd \<Rightarrow> (string \<rightharpoonup> int list) \<Rightarrow> (string \<rightharpoonup> int list)" where
  "answer_files b fs =
     (if nums b ''/votesResponses'' ! as_index b = 1
      then fs(''/votesResponses'' \<mapsto> (nums b ''/votesResponses'')[as_index b := 0]) else fs)"

lemma queues_files: "queues b ps ms (b'\<lparr>files := fs\<rparr>) = queues b ps ms b'"
  by (simp add: queues_def outq_def)

lemma queues_none: "outq b ps \<Longrightarrow> count (obuf b) < SIZE_T \<Longrightarrow> queues b ps [] b"
  by (simp add: queues_def)

lemma keepalive_votes_spec:
  assumes "outq b ps" "trust_files_ok b" "count (obuf b) < SIZE_T"
  shows "\<exists>b'. keepalive_votes b = Inr b' \<and> files b' = votes_files b \<and> queues b ps (vote_messages b) b'"
proof -
  have len: "length (nums b ''/neighborsN'') = 1" "length (nums b ''/votes'') = 10" "length (nums b ''/votesRequests'') = 10"
    and idx: "as_index b < 10" using assms(2) as_index_less by (simp_all add: trust_files_ok_def)
  note scan = scan_ok [OF len(1)] scan_ok [OF len(2)] scan_ok [OF len(3)]
  consider (send) "all_votes_in b" "nums b ''/votesRequests'' ! as_index b = 1"
    | (none) "all_votes_in b" "nums b ''/votesRequests'' ! as_index b \<noteq> 1" | (wait) "\<not> all_votes_in b" by blast
  then show ?thesis
  proof cases
    case send
    obtain b1 where b1: "bgp_voting_peers_response_send b = Inr b1" "files b1 = files b"
      "queues b ps [packet_bytes BGP_MSG_VOTING_PEERS_RESPONSE (concat (map (be_bytes 2) (vote_words b)))] b1"
      using peers_response_spec [OF assms(1) len(2)] by blast
    then show ?thesis using send scan len idx
      by (auto simp: keepalive_votes_def all_votes_in_def votes_files_def vote_messages_def arr_get_def arr_put_def
          print_file_def queues_files Let_def simp del: be_bytes.simps)
  next
    case none
    then show ?thesis using assms scan len idx queues_none
      by (simp add: keepalive_votes_def all_votes_in_def votes_files_def vote_messages_def arr_get_def)
  next
    case wait
    then show ?thesis using assms scan len request_send_spec(2) [OF assms(1)] queues_none
      by (auto simp: keepalive_votes_def all_votes_in_def votes_files_def vote_messages_def list_ex_iff)
  qed
qed

lemma keepalive_response_spec:
  assumes "outq b ps" "trust_files_ok b" "count (obuf b) < SIZE_T"
  shows "\<exists>b'. keepalive_response b = Inr b' \<and> files b' = answer_files b (files b) \<and> queues b ps (answer_messages b) b'"
proof -
  have len: "length (nums b ''/votesResponses'') = 10" "length (nums b ''/obsTrust.txt'') = 10"
    "length (nums b ''/inTrust.txt'') = 10" and idx: "as_index b < 10"
    using assms(2) as_index_less by (simp_all add: trust_files_ok_def)
  show ?thesis
  proof (cases "nums b ''/votesResponses'' ! as_index b = 1")
    case True
    then show ?thesis using vote_response_spec [OF assms(1) len(2,3) idx] scan_ok [OF len(1)] len idx
      by (auto simp: keepalive_response_def answer_files_def answer_messages_def arr_get_def arr_put_def
          print_file_def queues_files simp del: be_bytes.simps)
  next
    case False
    then show ?thesis using scan_ok [OF len(1)] len idx assms queues_none
      by (simp add: keepalive_response_def answer_files_def answer_messages_def arr_get_def)
  qed
qed

lemma messages_cong:
  assumes "files b' = files b" "peer_as b' = peer_as b"
  shows "nums b' = nums b" "as_index b' = as_index b" "trust_files_ok b' = trust_files_ok b"
    "vote_messages b' = vote_messages b" "votes_files b' = votes_files b"
proof -
  show n: "nums b' = nums b" using assms by (auto simp: nums_def fun_eq_iff)
  show i: "as_index b' = as_index b" using assms by (simp add: as_index_def)
  show "trust_files_ok b' = trust_files_ok b" "vote_messages b' = vote_messages b" "votes_files b' = votes_files b"
    using n i assms by (simp_all add: trust_files_ok_def vote_messages_def votes_files_def all_votes_in_def vote_words_def)
qed

lemma answers_after_votes:
  assumes "files b' = votes_files b" "peer_as b' = peer_as b"
  shows "nums b' ''/votesResponses'' = nums b ''/votesResponses''" "answer_messages b' = answer_messages b"
    "as_index b' = as_index b"
proof -
  have n: "nums b' name = nums b name" if "name \<noteq> ''/votes''" "name \<noteq> ''/votesRequests''" for name
    using assms(1) that by (simp add: nums_def votes_files_def Let_def)
  show i: "as_index b' = as_index b" using assms(2) by (simp add: as_index_def)
  show "nums b' ''/votesResponses'' = nums b ''/votesResponses''" "answer_messages b' = answer_messages b"
    using n i by (simp_all add: answer_messages_def trust_vote_def)
qed

lemma trust_files_after_votes:
  assumes "files b' = votes_files b" "peer_as b' = peer_as b" "trust_files_ok b"
  shows "trust_files_ok b'"
proof -
  have "length (nums b' name) = length (nums b name)" if "length (nums b ''/votes'') = 10" "length (nums b ''/votesRequests'') = 10" for name
    using assms(1) that by (auto simp: nums_def votes_files_def Let_def split: option.splits)
  then show ?thesis using assms(2,3) by (simp add: trust_files_ok_def)
qed

lemma queues_trans:
  assumes "queues b ps ms b1" "queues b1 (ps @ ms) ns b2"
  shows "queues b ps (ms @ ns) b2"
  using assms by (auto simp: queues_def size_add_def mod_simps algebra_simps)


definition trust_ex :: bgpd where
  "trust_ex = bgpd_ex\<lparr>files := [''/myAS.txt'' \<mapsto> [1], ''/neighborsN'' \<mapsto> [2],
     ''/votes'' \<mapsto> [0, 60, 75, 0, 0, 0, 0, 0, 0, 0], ''/votesRequests'' \<mapsto> [0, 1, 0, 0, 0, 0, 0, 0, 0, 0],
     ''/votesResponses'' \<mapsto> replicate 10 0, ''/obsTrust.txt'' \<mapsto> replicate 10 50, ''/inTrust.txt'' \<mapsto> replicate 10 20]\<rparr>"

lemma trust_ex_ok: "trust_files_ok trust_ex" "outq trust_ex []" "toDrop trust_ex \<noteq> Some (host trust_ex)"
  "count (obuf trust_ex) < SIZE_T" "status trust_ex \<noteq> Deleted"
  by (simp_all add: trust_files_ok_def nums_def trust_ex_def bgpd_ex_def outq_def loose_def stream_fifo_new_def)


section \<open>Writing\<close>

text \<open>A queued packet with a complete header that is not a notification.\<close>

definition sendable_packet :: "sheap \<Rightarrow> addr \<Rightarrow> bool" where
  "sendable_packet h a \<longleftrightarrow> (\<exists>n. h a = Some n \<and> stream_ok (sbuf n) \<and> 19 \<le> endp (sbuf n) \<and>
     sdata (sbuf n) ! 18 \<noteq> BGP_MSG_NOTIFY)"

lemma count_sent_frame [simp]:
  "streams (count_sent ty b) = streams b" "obuf (count_sent ty b) = obuf b" "sent (count_sent ty b) = sent b"
  by (simp_all add: count_sent_def)

lemma event_add_frame [simp]:
  "streams (BGP_EVENT_ADD e b) = streams b" "obuf (BGP_EVENT_ADD e b) = obuf b" "sent (BGP_EVENT_ADD e b) = sent b"
  by (simp_all add: BGP_EVENT_ADD_def)

lemma type_byte:
  assumes "stream_ok s" "19 \<le> endp s"
  shows "\<exists>s1 s2. stream_set_getp s 18 = Inr s1 \<and> stream_getc s1 = Inr (sdata s ! 18, s2)"
proof -
  let ?s = "s\<lparr>getp := 18\<rparr>"
  have d: "drop 18 (sdata s) = sdata s ! 18 # drop 19 (sdata s)"
    using assms Cons_nth_drop_Suc [of 18 "sdata s"] by (simp add: stream_ok_def)
  have "stream_ok ?s" using assms by (simp add: stream_ok_def)
  moreover have "readable ?s = sdata s ! 18 # take (endp s - 19) (drop 19 (sdata s))"
    using assms(2) by (simp add: readable_def d take_Cons')
  ultimately show ?thesis using assms by (simp add: stream_set_getp_def GETP_VALID_def sc.get_spec)
qed

lemma stream_bytes:
  assumes "stream_ok s"
  shows "stream_get_endp s = Inr (endp s)" "stream_get_getp s = Inr (getp s)"
    "mem_get (sdata s) (getp s) (endp s - getp s) = Inr (readable s)"
  using assms by (auto simp: stream_get_endp_def stream_get_getp_def mem_get_def readable_def stream_ok_def)

lemma forward_readable:
  assumes "stream_ok s" "n \<le> length (readable s)"
  shows "stream_forward_getp s n = Inr (advanced n s)"
  using assms length_readable [OF assms(1)]
  by (auto simp: stream_forward_getp_def GETP_VALID_def advanced_def stream_ok_def)

text \<open>The first packet leaves the queue.\<close>

lemma delete_first:
  fixes s :: stream
  assumes "chain (streams b) (head (obuf b)) (a # xs)" "a \<notin> set xs" "streams b a = Some n"
  defines "b1 \<equiv> b\<lparr>streams := (streams b)(a \<mapsto> n\<lparr>sbuf := s\<rparr>)\<rparr>"
  shows "\<exists>b2. bgp_packet_delete b1 = Inr b2 \<and> chain (streams b2) (head (obuf b2)) xs \<and> sent b2 = sent b \<and>
    (\<forall>x \<in> set xs. streams b2 x = streams b x)"
proof -
  let ?h = "(streams b)(a := None)"
  have "head (obuf b) = Some a" "chain (streams b) (snext n) xs" using assms(1,3) by auto
  moreover from this have "chain ?h (snext n) xs" using chain_frame assms(2) by blast
  moreover obtain f where "stream_fifo_pop (streams b1) (obuf b1) = Inr (Some a, f)" "head f = snext n"
    using calculation(1) by (auto simp: stream_fifo_pop_def b1_def Let_def)
  ultimately show ?thesis using assms(2)
    by (auto simp: bgp_packet_delete_def stream_free_def b1_def fun_upd_idem)
qed

lemma content_eq: "streams b a = Some n \<Longrightarrow> content (streams b) a = readable (sbuf n)"
  by (simp add: content_def)

text \<open>One round of the loop: it stops with the packet still in the queue, or sends all of it.\<close>

lemma write_step_stop:
  assumes "chain (streams b) (head (obuf b)) (a # xs)" "a \<notin> set xs" "streams b a = Some n" "stream_ok (sbuf n)"
    and "wr c (readable (sbuf n)) \<noteq> Wrote (length (readable (sbuf n)))" "\<forall>k. wr c (readable (sbuf n)) = Wrote k \<longrightarrow> k \<le> length (readable (sbuf n))"
  shows "\<exists>go b'. write_loop gen wr c a b = Inr (go, b') \<and> chain (streams b') (head (obuf b')) (a # xs) \<and>
    sent b' @ concat (map (content (streams b')) (a # xs)) = sent b @ concat (map (content (streams b)) (a # xs))"
proof (cases "wr c (readable (sbuf n))")
  case (Wrote k)
  let ?n = "n\<lparr>sbuf := advanced k (sbuf n)\<rparr>"
  have k: "k < length (readable (sbuf n))" using assms(5,6) Wrote by (auto simp: le_neq_implies_less)
  let ?b = "b\<lparr>sent := sent b @ take k (readable (sbuf n)), streams := (streams b)(a \<mapsto> ?n)\<rparr>"
  have "write_loop gen wr c a b = Inr (True, ?b)"
    using assms(3,4) k Wrote forward_readable [OF assms(4), of k]
    by (subst write_loop.simps) (simp add: stream_bytes Let_def)
  moreover have "chain ((streams b)(a \<mapsto> ?n)) (head (obuf b)) (a # xs)"
    using assms(1-3) chain_frame [of "streams b" "snext n" xs a "Some ?n"] by simp
  moreover have "concat (map (content ((streams b)(a \<mapsto> ?n))) xs) = concat (map (content (streams b)) xs)"
    using assms(2) by (intro arg_cong [where f = concat] map_cong) auto
  moreover have "readable (sbuf ?n) = drop k (readable (sbuf n))" by simp
  ultimately show ?thesis using content_eq [OF assms(3)]
    by (intro exI [of _ True] exI [of _ ?b]) simp
next
  case Write_Retry
  then show ?thesis using assms(1,3,4) by (subst write_loop.simps) (auto simp: stream_bytes)
next
  case Write_Error
  then show ?thesis using assms(1,3,4) by (subst write_loop.simps) (auto simp: stream_bytes)
qed

lemma write_step_sent:
  assumes gen: "\<forall>b. gen b = Inr (None, b)" and "chain (streams b) (head (obuf b)) (a # xs)" "a \<notin> set xs"
    and n: "streams b a = Some n" "stream_ok (sbuf n)" "19 \<le> endp (sbuf n)" "sdata (sbuf n) ! 18 \<noteq> BGP_MSG_NOTIFY"
    and wr: "wr c (readable (sbuf n)) = Wrote (length (readable (sbuf n)))"
  shows "\<exists>b2. chain (streams b2) (head (obuf b2)) xs \<and> sent b2 = sent b @ content (streams b) a \<and>
    (\<forall>x \<in> set xs. streams b2 x = streams b x) \<and>
    write_loop gen wr c a b = (if xs = [] \<or> Suc c \<ge> BGP_WRITE_PACKET_MAX then Inr (True, b2)
      else write_loop gen wr (Suc c) (hd xs) b2)"
proof -
  obtain s1 s2 where ty: "stream_set_getp (sbuf n) 18 = Inr s1" "stream_getc s1 = Inr (sdata (sbuf n) ! 18, s2)"
    using type_byte [OF n(2,3)] by blast
  define b1 where "b1 = count_sent (sdata (sbuf n) ! 18) (b\<lparr>sent := sent b @ readable (sbuf n)\<rparr>)"
  have b1: "streams b1 = streams b" "obuf b1 = obuf b" "sent b1 = sent b @ readable (sbuf n)" by (simp_all add: b1_def)
  obtain b2 where b2: "bgp_packet_delete (b1\<lparr>streams := (streams b1)(a \<mapsto> n\<lparr>sbuf := s2\<rparr>)\<rparr>) = Inr b2"
      "chain (streams b2) (head (obuf b2)) xs" "sent b2 = sent b1" "\<forall>x \<in> set xs. streams b2 x = streams b1 x"
    using delete_first [of b1 a xs n s2] assms(2,3) n(1) b1 by auto
  have eq: "count_sent ty (b0\<lparr>streams := h\<rparr>) = (count_sent ty b0)\<lparr>streams := h\<rparr>" for ty h and b0 :: bgpd
    by (simp add: count_sent_def)
  have "write_loop gen wr c a b = (if Suc c < BGP_WRITE_PACKET_MAX
      then rbind (bgp_write_packet gen b2) (\<lambda>(next, b3).
        case next of None \<Rightarrow> Inr (True, b3) | Some a' \<Rightarrow> write_loop gen wr (Suc c) a' b3)
      else Inr (True, b2))"
    using n wr ty b2(1) b1 by (subst write_loop.simps) (simp add: stream_bytes Let_def bgp_sizes eq b1_def)
  moreover have "head (obuf b2) = (if xs = [] then None else Some (hd xs))" using b2(2) by (cases xs) auto
  ultimately show ?thesis using b2 b1 gen content_eq [OF n(1)]
    by (intro exI [of _ b2]) (auto simp: bgp_write_packet_def stream_fifo_head_def)
qed

lemma write_loop_order:
  assumes gen: "\<forall>b. gen b = Inr (None, b)" and wr: "\<forall>c bs n. wr c bs = Wrote n \<longrightarrow> n \<le> length bs"
  shows "chain (streams b) (head (obuf b)) (a # xs) \<Longrightarrow> distinct (a # xs) \<Longrightarrow>
    \<forall>x \<in> set (a # xs). sendable_packet (streams b) x \<Longrightarrow>
    \<exists>go b' ys. write_loop gen wr c a b = Inr (go, b') \<and> chain (streams b') (head (obuf b')) ys \<and>
      sent b' @ concat (map (content (streams b')) ys) = sent b @ concat (map (content (streams b)) (a # xs))"
proof (induction xs arbitrary: a b c)
  case Nil
  then obtain n where n: "streams b a = Some n" "stream_ok (sbuf n)" "19 \<le> endp (sbuf n)" "sdata (sbuf n) ! 18 \<noteq> BGP_MSG_NOTIFY"
    by (auto simp: sendable_packet_def)
  show ?case
  proof (cases "wr c (readable (sbuf n)) = Wrote (length (readable (sbuf n)))")
    case True
    obtain b2 where "chain (streams b2) (head (obuf b2)) []" "sent b2 = sent b @ content (streams b) a"
      "write_loop gen wr c a b = Inr (True, b2)" using write_step_sent [where gen = gen and wr = wr and c = c, OF gen Nil(1) _ n True] by auto
    then show ?thesis by (intro exI [of _ True] exI [of _ b2] exI [of _ "[]"]) simp
  next
    case False
    have "\<forall>k. wr c (readable (sbuf n)) = Wrote k \<longrightarrow> k \<le> length (readable (sbuf n))" using wr by blast
    moreover have "a \<notin> set []" by simp
    ultimately show ?thesis using write_step_stop [where gen = gen and wr = wr and c = c, OF Nil(1) _ n(1,2) False] by blast
  qed
next
  case (Cons x xs)
  then obtain n where n: "streams b a = Some n" "stream_ok (sbuf n)" "19 \<le> endp (sbuf n)" "sdata (sbuf n) ! 18 \<noteq> BGP_MSG_NOTIFY"
    by (auto simp: sendable_packet_def)
  have nin: "a \<notin> set (x # xs)" using Cons.prems(2) by simp
  show ?case
  proof (cases "wr c (readable (sbuf n)) = Wrote (length (readable (sbuf n)))")
    case True
    obtain b2 where b2: "chain (streams b2) (head (obuf b2)) (x # xs)" "sent b2 = sent b @ content (streams b) a"
      "\<forall>y \<in> set (x # xs). streams b2 y = streams b y"
      "write_loop gen wr c a b = (if Suc c \<ge> BGP_WRITE_PACKET_MAX then Inr (True, b2) else write_loop gen wr (Suc c) x b2)"
      using write_step_sent [where gen = gen and wr = wr and c = c, OF gen Cons.prems(1) nin n True] by auto
    have same: "map (content (streams b2)) (x # xs) = map (content (streams b)) (x # xs)"
      using b2(3) by (simp add: content_def)
    have "\<forall>y \<in> set (x # xs). sendable_packet (streams b2) y"
      using Cons.prems(3) b2(3) by (simp add: sendable_packet_def)
    with Cons.IH [where a = x and b = b2 and c = "Suc c"] b2(1) Cons.prems(2) obtain go b' ys where
      "write_loop gen wr (Suc c) x b2 = Inr (go, b')" "chain (streams b') (head (obuf b')) ys"
      "sent b' @ concat (map (content (streams b')) ys) = sent b2 @ concat (map (content (streams b2)) (x # xs))" by auto
    moreover have "sent b2 @ concat (map (content (streams b2)) (x # xs)) = sent b @ concat (map (content (streams b)) (a # x # xs))"
      unfolding same b2(2) by simp
    ultimately show ?thesis using b2(1,4) by (metis (no_types, lifting))
  next
    case False
    have "\<forall>k. wr c (readable (sbuf n)) = Wrote k \<longrightarrow> k \<le> length (readable (sbuf n))" using wr by blast
    from write_step_stop [where gen = gen and wr = wr and c = c, OF Cons.prems(1) nin n(1,2) False this] show ?thesis
      by blast
  qed
qed

text \<open>C23: \<open>bgp_write\<close> neither loses, repeats nor reorders bytes: when the queue holds packets
  with complete headers other than notifications and no announcement is pending, then
  whatever the socket accepts in each call (all, part or nothing of a packet), the bytes
  accepted so far followed by what is left in the queue are the bytes accepted before
  followed by the queue before. No freed packet is touched.\<close>

theorem bgp_write_byte_stream:
  assumes "chain (streams b) (head (obuf b)) xs" "distinct xs" "\<forall>x \<in> set xs. sendable_packet (streams b) x"
    and "status b \<noteq> Connect" "\<forall>c bs n. wr c bs = Wrote n \<longrightarrow> n \<le> length bs"
  shows "\<exists>b' ys. bgp_write (\<lambda>b. Inr (None, b)) (\<lambda>b. False) wr err b = Inr b' \<and>
    chain (streams b') (head (obuf b')) ys \<and>
    sent b' @ concat (map (content (streams b')) ys) = sent b @ concat (map (content (streams b)) xs)"
proof (cases xs)
  case Nil
  then have "head (obuf b) = None" using assms(1) by simp
  then show ?thesis using assms(4) Nil
    by (intro exI [of _ "b\<lparr>t_write := None\<rparr>"] exI [of _ "[]"])
      (simp add: bgp_write_def bgp_write_packet_def stream_fifo_head_def)
next
  case (Cons a as)
  let ?b = "b\<lparr>t_write := None\<rparr>" and ?g = "\<lambda>b. Inr (None, b)"
  obtain go b2 ys where w: "write_loop ?g wr 0 a ?b = Inr (go, b2)" "chain (streams b2) (head (obuf b2)) ys"
    "sent b2 @ concat (map (content (streams b2)) ys) = sent b @ concat (map (content (streams b)) xs)"
    using write_loop_order [where gen = ?g and wr = wr and c = 0 and a = a and b = ?b and xs = as] assms(1-3,5) Cons by auto
  let ?b' = "if go \<and> bgp_write_proceed (\<lambda>b. False) b2 then BGP_WRITE_ON b2 else b2"
  have "bgp_write ?g (\<lambda>b. False) wr err b = Inr ?b'"
    using w(1) assms(1,4) Cons by (simp add: bgp_write_def bgp_write_packet_def stream_fifo_head_def)
  moreover have "streams ?b' = streams b2" "obuf ?b' = obuf b2" "sent ?b' = sent b2" by (simp_all add: BGP_WRITE_ON_def)
  ultimately show ?thesis using w(2,3) by (intro exI [of _ ?b'] exI [of _ ys]) simp
qed

definition write_ex :: bgpd where
  "write_ex = bgpd_ex\<lparr>status := Established, fd := 7, brk := 1, obuf := \<lparr>count = 1, head = Some 0, tail = Some 0\<rparr>,
     streams := [0 \<mapsto> \<lparr>snext = None,
       sbuf = \<lparr>getp = 0, endp = 19, ssize = 19, sdata = packet_bytes BGP_MSG_KEEPALIVE []\<rparr>\<rparr>]\<rparr>"

theorem bgp_write_byte_stream_witness:
  "\<exists>b' ys. bgp_write (\<lambda>b. Inr (None, b)) (\<lambda>b. False) (\<lambda>c bs. Wrote (min 5 (length bs))) None write_ex = Inr b' \<and>
    chain (streams b') (head (obuf b')) ys \<and>
    sent b' @ concat (map (content (streams b')) ys) = packet_bytes BGP_MSG_KEEPALIVE []"
proof -
  have "content (streams write_ex) 0 = packet_bytes BGP_MSG_KEEPALIVE []" by code_simp
  moreover have "sendable_packet (streams write_ex) 0"
    by (simp add: sendable_packet_def write_ex_def stream_ok_def packet_bytes_def SIZE_T_def bgp_types nth_append)
  moreover have "sent write_ex = []" "status write_ex = Established" "chain (streams write_ex) (head (obuf write_ex)) [0]"
    by (simp_all add: write_ex_def bgpd_ex_def)
  ultimately show ?thesis
    using bgp_write_byte_stream [of write_ex "[0]" "\<lambda>c bs. Wrote (min 5 (length bs))" None] by simp
qed

end
