(* ===== verification/Bgp_Open.thy ===== *)
theory Bgp_Open
  imports Bgp_Send As_Path
begin

text \<open>
  Capability negotiation, \<open>bgpd/bgp_open.c\<close>, with \<open>bgp_open_send\<close> of \<open>bgpd/bgp_packet.c\<close>:
  the optional parameters of an OPEN message are built from the configuration of the peer
  and parsed from its input buffer. Positions in the buffer are below 4096, so that the
  sums of positions and lengths do not wrap. Loops over the input are partial functions.
\<close>

section \<open>The input buffer\<close>

definition in_do :: "(stream \<Rightarrow> ('a \<times> stream) res) \<Rightarrow> bgpd \<Rightarrow> ('a \<times> bgpd) res" where
  "in_do f b =
     (case ibuf b of
        None \<Rightarrow> Inl Null_Deref
      | Some s \<Rightarrow> rbind (f s) (\<lambda>(x, s1). Inr (x, b\<lparr>ibuf := Some s1\<rparr>)))"

definition in_getp :: "bgpd \<Rightarrow> nat res" where
  "in_getp b = (case ibuf b of None \<Rightarrow> Inl Null_Deref | Some s \<Rightarrow> stream_get_getp s)"

definition in_readable :: "bgpd \<Rightarrow> nat res" where
  "in_readable b = (case ibuf b of None \<Rightarrow> Inl Null_Deref | Some s \<Rightarrow> Inr (STREAM_READABLE s))"

definition in_set_getp :: "nat \<Rightarrow> bgpd \<Rightarrow> bgpd res" where
  "in_set_getp pos b = rbind (in_do (\<lambda>s. rbind (stream_set_getp s pos) (\<lambda>s1. Inr ((), s1))) b) (\<lambda>(_, b1). Inr b1)"

definition in_forward :: "nat \<Rightarrow> bgpd \<Rightarrow> bgpd res" where
  "in_forward n b = rbind (in_do (\<lambda>s. rbind (stream_forward_getp s n) (\<lambda>s1. Inr ((), s1))) b) (\<lambda>(_, b1). Inr b1)"

text \<open>\<open>memcpy\<close> from the data of the buffer.\<close>

definition in_copy :: "nat \<Rightarrow> nat \<Rightarrow> bgpd \<Rightarrow> u8 list res" where
  "in_copy pos n b = (case ibuf b of None \<Rightarrow> Inl Null_Deref | Some s \<Rightarrow> mem_get (sdata s) pos n)"

abbreviation in_c :: "bgpd \<Rightarrow> (u8 \<times> bgpd) res" where "in_c \<equiv> in_do stream_getc"
abbreviation in_w :: "bgpd \<Rightarrow> (u16 \<times> bgpd) res" where "in_w \<equiv> in_do stream_getw"
abbreviation in_l :: "bgpd \<Rightarrow> (u32 \<times> bgpd) res" where "in_l \<equiv> in_do stream_getl"

section \<open>Capabilities that are received\<close>

definition CAPABILITY_CODE_REFRESH :: u8 where "CAPABILITY_CODE_REFRESH = 2"
definition CAPABILITY_CODE_ORF :: u8 where "CAPABILITY_CODE_ORF = 3"
definition CAPABILITY_CODE_RESTART :: u8 where "CAPABILITY_CODE_RESTART = 64"
definition CAPABILITY_CODE_AS4 :: u8 where "CAPABILITY_CODE_AS4 = 65"
definition CAPABILITY_CODE_DYNAMIC :: u8 where "CAPABILITY_CODE_DYNAMIC = 66"
definition CAPABILITY_CODE_REFRESH_OLD :: u8 where "CAPABILITY_CODE_REFRESH_OLD = 128"
definition CAPABILITY_CODE_ORF_OLD :: u8 where "CAPABILITY_CODE_ORF_OLD = 130"
definition CAPABILITY_CODE_AS4_LEN :: u8 where "CAPABILITY_CODE_AS4_LEN = 4"
definition ORF_MODE_RECEIVE :: u8 where "ORF_MODE_RECEIVE = 1"
definition ORF_MODE_SEND :: u8 where "ORF_MODE_SEND = 2"
definition ORF_MODE_BOTH :: u8 where "ORF_MODE_BOTH = 3"
definition RESTART_F_BIT :: u8 where "RESTART_F_BIT = 0x80"
definition BGP_OPEN_OPT_AUTH :: u8 where "BGP_OPEN_OPT_AUTH = 1"
definition BGP_OPEN_OPT_CAP :: u8 where "BGP_OPEN_OPT_CAP = 2"

lemmas cap_codes = CAPABILITY_CODE_MP_def CAPABILITY_CODE_REFRESH_def CAPABILITY_CODE_ORF_def
  CAPABILITY_CODE_RESTART_def CAPABILITY_CODE_AS4_def CAPABILITY_CODE_DYNAMIC_def
  CAPABILITY_CODE_REFRESH_OLD_def CAPABILITY_CODE_ORF_OLD_def CAPABILITY_CODE_AS4_LEN_def
  CAPABILITY_CODE_MP_LEN_def BGP_OPEN_OPT_AUTH_def BGP_OPEN_OPT_CAP_def

text \<open>The address family and the subsequent family of \<open>struct capability_mp_data\<close>.\<close>

definition bgp_capability_mp_data :: "bgpd \<Rightarrow> ((nat \<times> nat) \<times> bgpd) res" where
  "bgp_capability_mp_data b =
     rbind (in_w b) (\<lambda>(afi, b1).
     rbind (in_c b1) (\<lambda>(_, b2).
     rbind (in_c b2) (\<lambda>(safi, b3). Inr ((unat afi, unat safi), b3))))"

text \<open>The index of the subsequent family when the pair is valid.\<close>

definition bgp_afi_safi_valid_indices :: "nat \<Rightarrow> nat \<Rightarrow> nat option" where
  "bgp_afi_safi_valid_indices afi safi =
     (if afi = AFI_IP6 \<and> safi = BGP_SAFI_VPNV4 \<or> afi = AFI_IP \<and> safi = BGP_SAFI_VPNV6 then None
      else if afi = AFI_IP \<or> afi = AFI_IP6 then
        if safi = BGP_SAFI_VPNV4 \<or> safi = BGP_SAFI_VPNV6 then Some SAFI_MPLS_VPN
        else if safi = SAFI_UNICAST \<or> safi = SAFI_MULTICAST \<or> safi = SAFI_MPLS_VPN then Some safi
        else None
      else None)"

definition bgp_capability_mp :: "bgpd \<Rightarrow> (int \<times> bgpd) res" where
  "bgp_capability_mp b =
     rbind (bgp_capability_mp_data b) (\<lambda>((afi, safi0), b1).
     case bgp_afi_safi_valid_indices afi safi0 of
       None \<Rightarrow> Inr (- 1, b1)
     | Some safi \<Rightarrow>
         let b2 = b1\<lparr>afc_recv := af_set (afc_recv b1) afi safi True\<rparr> in
         if afc b2 afi safi then Inr (0, b2\<lparr>afc_nego := af_set (afc_nego b2) afi safi True\<rparr>)
         else Inr (- 1, b2))"

text \<open>One pair of ORF type and mode; pairs that are not supported are skipped.\<close>

definition orf_supported :: "u8 \<Rightarrow> nat \<Rightarrow> nat \<Rightarrow> u8 \<Rightarrow> u8 \<Rightarrow> bool" where
  "orf_supported code afi safi ty mode \<longleftrightarrow>
     (mode = ORF_MODE_BOTH \<or> mode = ORF_MODE_SEND \<or> mode = ORF_MODE_RECEIVE) \<and>
     (code = CAPABILITY_CODE_ORF \<and> ty = ORF_TYPE_PREFIX \<or>
      code = CAPABILITY_CODE_ORF_OLD \<and> ty = ORF_TYPE_PREFIX_OLD) \<and>
     (afi = AFI_IP \<and> safi = SAFI_UNICAST \<or> afi = AFI_IP \<and> safi = SAFI_MULTICAST \<or>
      afi = AFI_IP6 \<and> safi = SAFI_UNICAST)"

definition orf_flags :: "u8 \<Rightarrow> u8 \<Rightarrow> u16 \<Rightarrow> u16" where
  "orf_flags code mode v =
     (let (sm_cap, rm_cap) =
        (if code = CAPABILITY_CODE_ORF then (PEER_CAP_ORF_PREFIX_SM_RCV, PEER_CAP_ORF_PREFIX_RM_RCV)
         else (PEER_CAP_ORF_PREFIX_SM_OLD_RCV, PEER_CAP_ORF_PREFIX_RM_OLD_RCV)) in
      if mode = ORF_MODE_BOTH then SET_FLAG (SET_FLAG v sm_cap) rm_cap
      else if mode = ORF_MODE_SEND then SET_FLAG v sm_cap
      else SET_FLAG v rm_cap)"

fun orf_pairs :: "nat \<Rightarrow> u8 \<Rightarrow> nat \<Rightarrow> nat \<Rightarrow> bgpd \<Rightarrow> bgpd res" where
  "orf_pairs 0 code afi safi b = Inr b"
| "orf_pairs (Suc n) code afi safi b =
     rbind (in_c b) (\<lambda>(ty, b1).
     rbind (in_c b1) (\<lambda>(mode, b2).
     orf_pairs n code afi safi
       (if orf_supported code afi safi ty mode
        then b2\<lparr>af_cap := af_set (af_cap b2) afi safi (orf_flags code mode (af_cap b2 afi safi))\<rparr> else b2)))"

text \<open>The size of the fixed part of \<open>struct capability_orf_entry\<close>.\<close>

definition ORF_ENTRY_SIZE :: nat where
  "ORF_ENTRY_SIZE = 5"

definition bgp_capability_orf_entry :: "u8 \<Rightarrow> u8 \<Rightarrow> bgpd \<Rightarrow> (int \<times> bgpd) res option" where
  "bgp_capability_orf_entry code len b =
     xbind (Some (rbind (bgp_capability_mp_data b) (\<lambda>(m, b1). rbind (in_c b1) (\<lambda>(num, b2). Inr (m, num, b2)))))
       (\<lambda>((afi, safi0), num, b2).
     case bgp_afi_safi_valid_indices afi safi0 of
       None \<Rightarrow> Some (Inr (0, b2))
     | Some safi \<Rightarrow>
         if ORF_ENTRY_SIZE + unat num * 2 > unat len then
           xbind (bgp_notify_send BGP_NOTIFY_CEASE 0 b2) (\<lambda>b3. Some (Inr (- 1, b3)))
         else Some (rbind (orf_pairs (unat num) code afi safi b2) (\<lambda>b3. Inr (0, b3))))"

partial_function (option) orf_entries :: "u8 \<Rightarrow> u8 \<Rightarrow> nat \<Rightarrow> bgpd \<Rightarrow> (int \<times> bgpd) res option" where
  "orf_entries code len fin b =
     xbind (bgp_capability_orf_entry code len b) (\<lambda>(ret, b1).
     if ret = - 1 then Some (Inr (- 1, b1))
     else xbind (Some (in_getp b1)) (\<lambda>g.
       if g + ORF_ENTRY_SIZE < fin then orf_entries code len fin b1 else Some (Inr (0, b1))))"

definition bgp_capability_orf :: "u8 \<Rightarrow> u8 \<Rightarrow> bgpd \<Rightarrow> (int \<times> bgpd) res option" where
  "bgp_capability_orf code len b =
     xbind (Some (in_getp b)) (\<lambda>g.
     if g + ORF_ENTRY_SIZE \<le> g + unat len then orf_entries code len (g + unat len) b
     else Some (Inl Assert_Failed))"

text \<open>The graceful restart capability: a family is read while more than four bytes are left.\<close>

definition restart_family :: "nat \<Rightarrow> nat \<Rightarrow> u8 \<Rightarrow> bgpd \<Rightarrow> bgpd" where
  "restart_family afi safi0 flag b =
     (case bgp_afi_safi_valid_indices afi safi0 of
        None \<Rightarrow> b
      | Some safi \<Rightarrow>
          if \<not> afc b afi safi then b
          else
            let v = SET_FLAG (af_cap b afi safi) PEER_CAP_RESTART_AF_RCV in
            b\<lparr>af_cap := af_set (af_cap b) afi safi
                (if CHECK_FLAG flag RESTART_F_BIT then SET_FLAG v PEER_CAP_RESTART_AF_PRESERVE_RCV else v)\<rparr>)"

partial_function (option) restart_loop :: "nat \<Rightarrow> bgpd \<Rightarrow> bgpd res option" where
  "restart_loop fin b =
     xbind (Some (in_getp b)) (\<lambda>g.
     if g + 4 < fin then
       xbind (Some (in_w b)) (\<lambda>(afi, b1).
       xbind (Some (in_c b1)) (\<lambda>(safi, b2).
       xbind (Some (in_c b2)) (\<lambda>(flag, b3).
       restart_loop fin (restart_family (unat afi) (unat safi) flag b3))))
     else Some (Inr b))"

definition bgp_capability_restart :: "u8 \<Rightarrow> bgpd \<Rightarrow> (int \<times> bgpd) res option" where
  "bgp_capability_restart len b =
     xbind (Some (in_getp b)) (\<lambda>g.
     xbind (Some (in_w (b\<lparr>cap := SET_FLAG (cap b) PEER_CAP_RESTART_RCV\<rparr>))) (\<lambda>(w, b1).
     xbind (restart_loop (g + unat len) (b1\<lparr>v_gr_restart := ucast (UNSET_FLAG w 0xF000)\<rparr>)) (\<lambda>b2.
     Some (Inr (0, b2)))))"

definition bgp_capability_as4 :: "bgpd \<Rightarrow> (u32 \<times> bgpd) res" where
  "bgp_capability_as4 b =
     rbind (in_l b) (\<lambda>(as4, b1). Inr (as4, b1\<lparr>cap := SET_FLAG (cap b1) PEER_CAP_AS4_RCV\<rparr>))"

definition cap_minsizes :: "u8 \<Rightarrow> nat option" where
  "cap_minsizes code =
     (if code = CAPABILITY_CODE_MP then Some 4
      else if code = CAPABILITY_CODE_REFRESH \<or> code = CAPABILITY_CODE_REFRESH_OLD then Some 0
      else if code = CAPABILITY_CODE_ORF \<or> code = CAPABILITY_CODE_ORF_OLD then Some ORF_ENTRY_SIZE
      else if code = CAPABILITY_CODE_RESTART then Some 2
      else if code = CAPABILITY_CODE_AS4 then Some 4
      else if code = CAPABILITY_CODE_DYNAMIC then Some 0
      else None)"

text \<open>
  The bytes of a capability that is not supported are copied to \<open>error_data\<close>, an array of
  4096 bytes; \<open>err\<close> are the bytes collected so far.
\<close>

definition store_error :: "nat \<Rightarrow> u8 \<Rightarrow> u8 list \<Rightarrow> bgpd \<Rightarrow> u8 list res" where
  "store_error sp len err b =
     rbind (in_copy sp (unat len + 2) b) (\<lambda>bs.
     if length err + length bs \<le> BGP_MAX_PACKET_SIZE then Inr (err @ bs) else Inl Out_Of_Bounds)"

text \<open>One capability behind its header; \<open>sp\<close> is the position of the header.\<close>

definition capability_value ::
    "nat \<Rightarrow> u8 \<Rightarrow> u8 \<Rightarrow> u8 list \<Rightarrow> bgpd \<Rightarrow> (int \<times> u8 list \<times> bgpd) res option" where
  "capability_value sp code len err b =
     (if code = CAPABILITY_CODE_MP then
        if CHECK_FLAG (pflags b) PEER_FLAG_OVERRIDE_CAPABILITY then Some (Inr (0, err, b))
        else Some (rbind (bgp_capability_mp b) (\<lambda>(ret, b1).
          if ret < 0 then rbind (store_error sp len err b1) (\<lambda>err1. Inr (0, err1, b1)) else Inr (0, err, b1)))
      else if code = CAPABILITY_CODE_REFRESH_OLD then
        Some (Inr (0, err, b\<lparr>cap := SET_FLAG (cap b) PEER_CAP_REFRESH_OLD_RCV\<rparr>))
      else if code = CAPABILITY_CODE_REFRESH then
        Some (Inr (0, err, b\<lparr>cap := SET_FLAG (cap b) PEER_CAP_REFRESH_NEW_RCV\<rparr>))
      else if code = CAPABILITY_CODE_ORF \<or> code = CAPABILITY_CODE_ORF_OLD then
        xbind (bgp_capability_orf code len b) (\<lambda>(ret, b1).
          Some (Inr (if ret \<noteq> 0 then - 1 else 0, err, b1)))
      else if code = CAPABILITY_CODE_RESTART then
        xbind (bgp_capability_restart len b) (\<lambda>(ret, b1).
          Some (Inr (if ret \<noteq> 0 then - 1 else 0, err, b1)))
      else if code = CAPABILITY_CODE_DYNAMIC then
        Some (Inr (0, err, b\<lparr>cap := SET_FLAG (cap b) PEER_CAP_DYNAMIC_RCV\<rparr>))
      else if code = CAPABILITY_CODE_AS4 then
        Some (rbind (bgp_capability_as4 b) (\<lambda>(as4, b1). Inr (if as4 = 0 then - 1 else 0, err, b1)))
      else if code > 128 then Some (Inr (0, err, b))
      else Some (rbind (store_error sp len err b) (\<lambda>err1. Inr (0, err1, b))))"

partial_function (option) capability_loop ::
    "nat \<Rightarrow> u8 list \<Rightarrow> bgpd \<Rightarrow> (int \<times> u8 list \<times> bgpd) res option" where
  "capability_loop fin err b =
     xbind (Some (in_getp b)) (\<lambda>sp.
     if \<not> sp < fin then Some (Inr (0, err, b))
     else if sp + 2 > fin then xbind (bgp_notify_send BGP_NOTIFY_CEASE 0 b) (\<lambda>b1. Some (Inr (- 1, err, b1)))
     else
       xbind (Some (in_c b)) (\<lambda>(code, b1).
       xbind (Some (in_c b1)) (\<lambda>(len, b2).
       xbind (Some (in_getp b2)) (\<lambda>start.
       if start + unat len > fin \<or> (case cap_minsizes code of None \<Rightarrow> False | Some m \<Rightarrow> unat len < m)
       then xbind (bgp_notify_send BGP_NOTIFY_CEASE 0 b2) (\<lambda>b3. Some (Inr (- 1, err, b3)))
       else
         xbind (capability_value sp code len err b2) (\<lambda>(ret, err1, b3).
         if ret < 0 then Some (Inr (- 1, err1, b3))
         else
           xbind (Some (in_getp b3)) (\<lambda>g.
           xbind (Some (if g \<noteq> start + unat len then in_set_getp (start + unat len) b3 else Inr b3)) (\<lambda>b4.
           capability_loop fin err1 b4)))))))"

definition bgp_capability_parse :: "nat \<Rightarrow> u8 list \<Rightarrow> bgpd \<Rightarrow> (int \<times> u8 list \<times> bgpd) res option" where
  "bgp_capability_parse len err b =
     xbind (Some (in_getp b)) (\<lambda>g.
     xbind (Some (in_readable b)) (\<lambda>r.
     if r \<ge> len then capability_loop (g + len) err b else Some (Inl Assert_Failed)))"

definition bgp_auth_parse :: "bgpd \<Rightarrow> (int \<times> bgpd) res option" where
  "bgp_auth_parse b =
     xbind (bgp_notify_send BGP_NOTIFY_OPEN_ERR BGP_NOTIFY_OPEN_AUTH_FAILURE b) (\<lambda>b1. Some (Inr (- 1, b1)))"

definition strict_capability_same :: "bgpd \<Rightarrow> bool" where
  "strict_capability_same b \<longleftrightarrow>
     list_all (\<lambda>i. list_all (\<lambda>j. afc b i j = afc_nego b i j) [SAFI_UNICAST..<SAFI_MAX]) [AFI_IP..<AFI_MAX]"

section \<open>Looking ahead for the four-byte AS number\<close>

text \<open>
  The loop over the capabilities of one option: nothing when it ends, else the value with
  which the function jumps to its end.
\<close>

partial_function (option) peek_caps :: "nat \<Rightarrow> bgpd \<Rightarrow> (u32 option \<times> bgpd) res option" where
  "peek_caps capd_end b =
     xbind (Some (in_getp b)) (\<lambda>g.
     if \<not> g < capd_end then Some (Inr (None, b))
     else if g + 2 > capd_end then Some (Inr (Some 0, b))
     else
       xbind (Some (in_c b)) (\<lambda>(code, b1).
       xbind (Some (in_c b1)) (\<lambda>(len, b2).
       xbind (Some (in_getp b2)) (\<lambda>g2.
       if g2 + unat len > capd_end then Some (Inr (Some 0, b2))
       else if code = CAPABILITY_CODE_AS4 then
         if len \<noteq> CAPABILITY_CODE_AS4_LEN then Some (Inr (Some 0, b2))
         else Some (rbind (bgp_capability_as4 b2) (\<lambda>(as4, b3). Inr (Some as4, b3)))
       else xbind (Some (in_forward (unat len) b2)) (\<lambda>b3. peek_caps capd_end b3)))))"

text \<open>The loop over the options. The data of an option that holds no capabilities is not skipped.\<close>

partial_function (option) peek_options :: "nat \<Rightarrow> bgpd \<Rightarrow> (u32 \<times> bgpd) res option" where
  "peek_options fin b =
     xbind (Some (in_getp b)) (\<lambda>g.
     if \<not> g < fin then Some (Inr (0, b))
     else if g + 2 > fin then Some (Inr (0, b))
     else
       xbind (Some (in_c b)) (\<lambda>(opt_type, b1).
       xbind (Some (in_c b1)) (\<lambda>(opt_length, b2).
       xbind (Some (in_getp b2)) (\<lambda>g2.
       if g2 + unat opt_length > fin then Some (Inr (0, b2))
       else if opt_type = BGP_OPEN_OPT_CAP then
         xbind (peek_caps (g2 + unat opt_length) b2) (\<lambda>(found, b3).
         case found of Some as4 \<Rightarrow> Some (Inr (as4, b3)) | None \<Rightarrow> peek_options fin b3)
       else peek_options fin b2))))"

definition peek_for_as4_capability :: "u8 \<Rightarrow> bgpd \<Rightarrow> (u32 \<times> bgpd) res option" where
  "peek_for_as4_capability len b =
     xbind (Some (in_getp b)) (\<lambda>orig_getp.
     xbind (Some (in_readable b)) (\<lambda>r.
     if r < unat len then Some (Inr (0, b))
     else
       xbind (peek_options (orig_getp + unat len) b) (\<lambda>(as4, b1).
       xbind (Some (in_set_getp orig_getp b1)) (\<lambda>b2. Some (Inr (as4, b2))))))"

section \<open>The optional parameters of an OPEN message\<close>

partial_function (option) option_loop ::
    "nat \<Rightarrow> u8 list \<Rightarrow> bool \<Rightarrow> bgpd \<Rightarrow> (int \<times> u8 list \<times> bool \<times> bgpd) res option" where
  "option_loop fin err capability b =
     xbind (Some (in_getp b)) (\<lambda>g.
     if \<not> g < fin then Some (Inr (0, err, capability, b))
     else
       xbind (Some (in_readable b)) (\<lambda>r.
       if r < 2 then xbind (bgp_notify_send BGP_NOTIFY_CEASE 0 b) (\<lambda>b1. Some (Inr (- 1, err, capability, b1)))
       else
         xbind (Some (in_c b)) (\<lambda>(opt_type, b1).
         xbind (Some (in_c b1)) (\<lambda>(opt_length, b2).
         xbind (Some (in_readable b2)) (\<lambda>r2.
         if r2 < unat opt_length then
           xbind (bgp_notify_send BGP_NOTIFY_CEASE 0 b2) (\<lambda>b3. Some (Inr (- 1, err, capability, b3)))
         else if opt_type = BGP_OPEN_OPT_AUTH then
           xbind (bgp_auth_parse b2) (\<lambda>(ret, b3).
           if ret < 0 then Some (Inr (- 1, err, capability, b3)) else option_loop fin err capability b3)
         else if opt_type = BGP_OPEN_OPT_CAP then
           xbind (bgp_capability_parse (unat opt_length) err b2) (\<lambda>(ret, err1, b3).
           if ret < 0 then Some (Inr (- 1, err1, True, b3)) else option_loop fin err1 True b3)
         else
           xbind (bgp_notify_send BGP_NOTIFY_OPEN_ERR BGP_NOTIFY_OPEN_UNSUP_PARAM b2) (\<lambda>b3.
           Some (Inr (- 1, err, capability, b3))))))))"

text \<open>The refusal of an OPEN message, with the capabilities that are not supported.\<close>

definition unsup_capbl :: "u8 list \<Rightarrow> bgpd \<Rightarrow> bgpd res option" where
  "unsup_capbl err b =
     (if err \<noteq> [] then bgp_notify_send_with_data BGP_NOTIFY_OPEN_ERR BGP_NOTIFY_OPEN_UNSUP_CAPBL (Some err) b
      else bgp_notify_send BGP_NOTIFY_OPEN_ERR BGP_NOTIFY_OPEN_UNSUP_CAPBL b)"

definition bgp_open_option_parse :: "u8 \<Rightarrow> bgpd \<Rightarrow> (int \<times> bool \<times> bgpd) res option" where
  "bgp_open_option_parse len b =
     xbind (Some (in_getp b)) (\<lambda>g.
     xbind (option_loop (g + unat len) [] False b) (\<lambda>(ret, err, capability, b1).
     if ret < 0 then Some (Inr (- 1, capability, b1))
     else if CHECK_FLAG (pflags b1) PEER_FLAG_STRICT_CAP_MATCH \<and> (err \<noteq> [] \<or> \<not> strict_capability_same b1) then
       xbind (unsup_capbl err b1) (\<lambda>b2. Some (Inr (- 1, capability, b2)))
     else if capability \<and> \<not> CHECK_FLAG (pflags b1) PEER_FLAG_OVERRIDE_CAPABILITY \<and> \<not> peer_active_nego b1 then
       xbind (unsup_capbl err b1) (\<lambda>b2. Some (Inr (- 1, capability, b2)))
     else Some (Inr (0, capability, b1))))"

section \<open>Building an OPEN message\<close>

text \<open>
  The flags are indexed with the subsequent family after it was mapped to its wire value,
  which is outside the arrays for VPN routes.
\<close>

definition bgp_open_capability_orf :: "nat \<Rightarrow> nat \<Rightarrow> u8 \<Rightarrow> stream \<times> bgpd \<Rightarrow> (stream \<times> bgpd) res" where
  "bgp_open_capability_orf afi safi0 code = (\<lambda>(s, b).
     let safi = (if safi0 = SAFI_MPLS_VPN then BGP_SAFI_VPNV4 else safi0) in
     rbind (stream_putc BGP_OPEN_OPT_CAP s) (\<lambda>(_, s1).
     rbind (stream_get_endp s1) (\<lambda>capp.
     rbind (put_all stream_putc [0, code] s1) (\<lambda>s2.
     rbind (stream_get_endp s2) (\<lambda>orfp.
     rbind (stream_putc 0 s2) (\<lambda>(_, s3).
     rbind (stream_putw (of_nat afi) s3) (\<lambda>(_, s4).
     rbind (put_all stream_putc [0, of_nat safi] s4) (\<lambda>s5.
     rbind (stream_get_endp s5) (\<lambda>numberp.
     rbind (stream_putc 0 s5) (\<lambda>(_, s6).
     if safi \<ge> SAFI_MAX then Inl Out_Of_Bounds
     else
     let sm = CHECK_FLAG (af_flags b afi safi) PEER_FLAG_ORF_PREFIX_SM;
         rm = CHECK_FLAG (af_flags b afi safi) PEER_FLAG_ORF_PREFIX_RM;
         ac = af_cap b afi safi;
         ac1 = (if sm \<and> rm then SET_FLAG (SET_FLAG ac PEER_CAP_ORF_PREFIX_SM_ADV) PEER_CAP_ORF_PREFIX_RM_ADV
                else if sm then SET_FLAG ac PEER_CAP_ORF_PREFIX_SM_ADV
                else SET_FLAG ac PEER_CAP_ORF_PREFIX_RM_ADV) in
     rbind (if sm \<or> rm
            then put_all stream_putc [if code = CAPABILITY_CODE_ORF then ORF_TYPE_PREFIX else ORF_TYPE_PREFIX_OLD,
                   if sm \<and> rm then ORF_MODE_BOTH else if sm then ORF_MODE_SEND else ORF_MODE_RECEIVE] s6
            else Inr s6) (\<lambda>s7.
     rbind (stream_putc_at s7 numberp (if sm \<or> rm then 1 else 0)) (\<lambda>(_, s8).
     rbind (stream_get_endp s8) (\<lambda>e.
     rbind (stream_putc_at s8 orfp (of_nat (size_sub (size_sub e orfp) 1))) (\<lambda>(_, s9).
     rbind (stream_putc_at s9 capp (of_nat (size_sub (size_sub e capp) 1))) (\<lambda>(_, s10).
     Inr (s10, if sm \<or> rm then b\<lparr>af_cap := af_set (af_cap b) afi safi ac1\<rparr> else b))))))))))))))))"

definition open_family :: "nat \<Rightarrow> nat \<Rightarrow> nat \<Rightarrow> stream \<times> bgpd \<Rightarrow> (stream \<times> bgpd) res" where
  "open_family afi safi wire = (\<lambda>(s, b).
     if afc b afi safi then
       rbind (put_all stream_putc [BGP_OPEN_OPT_CAP, CAPABILITY_CODE_MP_LEN + 2, CAPABILITY_CODE_MP,
                CAPABILITY_CODE_MP_LEN] s) (\<lambda>s1.
       rbind (stream_putw (of_nat afi) s1) (\<lambda>(_, s2).
       rbind (put_all stream_putc [0, of_nat wire] s2) (\<lambda>s3.
       Inr (s3, b\<lparr>afc_adv := af_set (afc_adv b) afi safi True\<rparr>))))
     else Inr (s, b))"

fun orf_options :: "(nat \<times> nat) list \<Rightarrow> stream \<times> bgpd \<Rightarrow> (stream \<times> bgpd) res" where
  "orf_options [] sb = Inr sb"
| "orf_options ((afi, safi) # afs) (s, b) =
     rbind (if CHECK_FLAG (af_flags b afi safi) PEER_FLAG_ORF_PREFIX_SM \<or>
               CHECK_FLAG (af_flags b afi safi) PEER_FLAG_ORF_PREFIX_RM
            then rbind (bgp_open_capability_orf afi safi CAPABILITY_CODE_ORF_OLD (s, b))
                   (bgp_open_capability_orf afi safi CAPABILITY_CODE_ORF)
            else Inr (s, b)) (orf_options afs)"

definition all_families :: "(nat \<times> nat) list" where
  "all_families = List.product [AFI_IP..<AFI_MAX] [SAFI_UNICAST..<SAFI_MAX]"

definition own_as :: "bgpd \<Rightarrow> u32" where
  "own_as b = (if change_local_as b \<noteq> 0 then change_local_as b else local_as b)"

definition refresh_as4_options :: "stream \<times> bgpd \<Rightarrow> (stream \<times> bgpd) res" where
  "refresh_as4_options = (\<lambda>(s, b).
     rbind (put_all stream_putc [BGP_OPEN_OPT_CAP, 2, CAPABILITY_CODE_REFRESH_OLD, 0,
              BGP_OPEN_OPT_CAP, 2, CAPABILITY_CODE_REFRESH, 0,
              BGP_OPEN_OPT_CAP, CAPABILITY_CODE_AS4_LEN + 2, CAPABILITY_CODE_AS4, CAPABILITY_CODE_AS4_LEN] s) (\<lambda>s1.
     rbind (stream_putl (own_as b) s1) (\<lambda>(_, s2).
     Inr (s2, b\<lparr>cap := SET_FLAG (SET_FLAG (cap b) PEER_CAP_REFRESH_ADV) PEER_CAP_AS4_ADV\<rparr>))))"

definition dynamic_restart_options :: "stream \<times> bgpd \<Rightarrow> (stream \<times> bgpd) res" where
  "dynamic_restart_options = (\<lambda>(s, b).
     rbind (if CHECK_FLAG (pflags b) PEER_FLAG_DYNAMIC_CAPABILITY
            then rbind (put_all stream_putc [BGP_OPEN_OPT_CAP, 2, CAPABILITY_CODE_DYNAMIC, 0] s) (\<lambda>s1.
              Inr (s1, b\<lparr>cap := SET_FLAG (cap b) PEER_CAP_DYNAMIC_ADV\<rparr>))
            else Inr (s, b)) (\<lambda>(s1, b1).
     if graceful_restart b1 then
       rbind (put_all stream_putc [BGP_OPEN_OPT_CAP, 4, CAPABILITY_CODE_RESTART, 2] s1) (\<lambda>s2.
       rbind (stream_putw (ucast (restart_time b1)) s2) (\<lambda>(_, s3).
       Inr (s3, b1\<lparr>cap := SET_FLAG (cap b1) PEER_CAP_RESTART_ADV\<rparr>)))
     else Inr (s1, b1)))"

definition bgp_open_capability :: "stream \<times> bgpd \<Rightarrow> (stream \<times> bgpd) res" where
  "bgp_open_capability = (\<lambda>(s, b).
     rbind (stream_get_endp s) (\<lambda>cp.
     rbind (stream_putc 0 s) (\<lambda>(_, s1).
     if \<not> CHECK_FLAG (sflags b) PEER_STATUS_CAPABILITY_OPEN \<or> CHECK_FLAG (pflags b) PEER_FLAG_DONT_CAPABILITY
     then Inr (s1, b)
     else
       rbind (open_family AFI_IP SAFI_UNICAST SAFI_UNICAST (s1, b)) (\<lambda>sb2.
       rbind (open_family AFI_IP SAFI_MULTICAST SAFI_MULTICAST sb2) (\<lambda>sb3.
       rbind (open_family AFI_IP SAFI_MPLS_VPN BGP_SAFI_VPNV4 sb3) (\<lambda>sb4.
       rbind (open_family AFI_IP6 SAFI_UNICAST SAFI_UNICAST sb4) (\<lambda>sb5.
       rbind (open_family AFI_IP6 SAFI_MULTICAST SAFI_MULTICAST sb5) (\<lambda>sb6.
       rbind (refresh_as4_options sb6) (\<lambda>sb7.
       rbind (orf_options all_families sb7) (\<lambda>sb8.
       rbind (dynamic_restart_options sb8) (\<lambda>(s9, b9).
       rbind (stream_get_endp s9) (\<lambda>e.
       rbind (stream_putc_at s9 cp (of_nat (size_sub (size_sub e cp) 1))) (\<lambda>(_, s10).
       Inr (s10, b9))))))))))))))"

definition BGP_VERSION_4 :: u8 where "BGP_VERSION_4 = 4"

definition send_holdtime :: "bgpd \<Rightarrow> u16" where
  "send_holdtime b =
     ucast (if CHECK_FLAG (config b) PEER_CONFIG_TIMER then holdtime b else default_holdtime b)"

definition bgp_open_send :: "bgpd \<Rightarrow> bgpd res" where
  "bgp_open_send b =
     rbind (stream_new (junk (env b)) BGP_MAX_PACKET_SIZE) (\<lambda>s.
     rbind (bgp_packet_set_marker s BGP_MSG_OPEN) (\<lambda>(_, s1).
     rbind (stream_putc BGP_VERSION_4 s1) (\<lambda>(_, s2).
     rbind (stream_putw (if own_as b \<le> BGP_AS_MAX then ucast (own_as b) else BGP_AS_TRANS) s2) (\<lambda>(_, s3).
     rbind (stream_putw (send_holdtime b) s3) (\<lambda>(_, s4).
     rbind (stream_put_in_addr (local_id b) s4) (\<lambda>(_, s5).
     rbind (bgp_open_capability (s5, b)) (\<lambda>(s6, b1).
     rbind (bgp_packet_set_size s6) (\<lambda>(_, s7).
     rbind (add_packet s7 b1) (\<lambda>b2. Inr (BGP_WRITE_ON b2))))))))))"

end
