(* ===== verification/Bgp_Fsm.thy ===== *)
theory Bgp_Fsm
  imports Bgp_Open "HOL-Library.Signed_Division"
begin

text \<open>
  The finite state machine of a session, \<open>bgpd/bgp_fsm.c\<close>: the timers of each state, the
  actions of the transitions, the transition table and its interpreter \<open>bgp_event\<close>. Calls
  into the routing information base are logged in \<open>calls\<close>.
\<close>

section \<open>Timers of a state\<close>

text \<open>The jitter is at most half of the start time in both directions; C division truncates.\<close>

definition bgp_start_jitter :: "nat \<Rightarrow> int \<Rightarrow> int" where
  "bgp_start_jitter rand time = int rand smod (time + 1) - time sdiv 2"

definition BGP_PEER_START_SUPPRESSED :: "bgpd \<Rightarrow> bool" where
  "BGP_PEER_START_SUPPRESSED b \<longleftrightarrow>
     CHECK_FLAG (pflags b) PEER_FLAG_SHUTDOWN \<or> CHECK_FLAG (sflags b) PEER_STATUS_PREFIX_OVERFLOW"

definition session_timers_off :: "bgpd \<Rightarrow> bgpd" where
  "session_timers_off b = b\<lparr>t_holdtime := None, t_keepalive := None, t_asorig := None, t_routeadv := None\<rparr>"

definition hold_timers_on :: "bgpd \<Rightarrow> bgpd" where
  "hold_timers_on b =
     (if v_holdtime b = 0 then b\<lparr>t_holdtime := None, t_keepalive := None\<rparr>
      else b\<lparr>t_holdtime := BGP_TIMER_ON b (t_holdtime b) (v_holdtime b),
             t_keepalive := BGP_TIMER_ON b (t_keepalive b) (v_keepalive b)\<rparr>)"

definition bgp_timer_set :: "bgpd \<Rightarrow> bgpd" where
  "bgp_timer_set b =
     (case status b of
        Idle \<Rightarrow> session_timers_off (b\<lparr>t_connect := None, t_start :=
          (if BGP_PEER_START_SUPPRESSED b \<or> \<not> peer_active b then None
           else BGP_TIMER_ON b (t_start b)
             (v_start b + of_int (bgp_start_jitter (e_rand (env b)) (sint (v_start b)))))\<rparr>)
      | Connect \<Rightarrow> session_timers_off (b\<lparr>t_start := None, t_connect := BGP_TIMER_ON b (t_connect b) (v_connect b)\<rparr>)
      | Active \<Rightarrow> session_timers_off (b\<lparr>t_start := None, t_connect :=
          (if CHECK_FLAG (pflags b) PEER_FLAG_PASSIVE \<or> CHECK_FLAG (sflags b) PEER_STATUS_NSF_WAIT then None
           else BGP_TIMER_ON b (t_connect b) (v_connect b))\<rparr>)
      | OpenSent \<Rightarrow> b\<lparr>t_start := None, t_connect := None,
          t_holdtime := (if v_holdtime b \<noteq> 0 then BGP_TIMER_ON b (t_holdtime b) (v_holdtime b) else None),
          t_keepalive := None, t_asorig := None, t_routeadv := None\<rparr>
      | OpenConfirm \<Rightarrow> (hold_timers_on (b\<lparr>t_start := None, t_connect := None\<rparr>))\<lparr>t_asorig := None, t_routeadv := None\<rparr>
      | Established \<Rightarrow> (hold_timers_on (b\<lparr>t_start := None, t_connect := None\<rparr>))\<lparr>t_asorig := None\<rparr>
      | Clearing \<Rightarrow> session_timers_off (b\<lparr>t_start := None, t_connect := None\<rparr>)
      | Deleted \<Rightarrow> session_timers_off (b\<lparr>t_gr_restart := None, t_gr_stale := None, t_pmax_restart := None,
          t_start := None, t_connect := None\<rparr>))"

section \<open>Leaving a session\<close>

text \<open>
  \<open>bgp_clear_route\<close> queues the routes of a family for removal; when nothing is queued it reports
  the completion itself.
\<close>

definition bgp_clear_route :: "nat \<Rightarrow> nat \<Rightarrow> bgpd \<Rightarrow> bgpd" where
  "bgp_clear_route afi safi b =
     (let b1 = ext_call (Clear_Route afi safi) b in
      if e_clear_queued (env b) afi safi then b1 else BGP_EVENT_ADD Clearing_Completed b1)"

definition bgp_clear_route_all :: "bgpd \<Rightarrow> bgpd" where
  "bgp_clear_route_all b = fold (\<lambda>(afi, safi). bgp_clear_route afi safi) all_families b"

definition unicast_families :: "(nat \<times> nat) list" where
  "unicast_families = List.product [AFI_IP..<AFI_MAX] [SAFI_UNICAST..<SAFI_UNICAST_MULTICAST]"

definition clear_stale_routes :: "bgpd \<Rightarrow> bgpd" where
  "clear_stale_routes b =
     fold (\<lambda>(afi, safi) b. if nsf b afi safi then ext_call (Clear_Stale_Route afi safi) b else b) unicast_families b"

definition bgp_graceful_restart_timer_expire :: "bgpd \<Rightarrow> bgpd" where
  "bgp_graceful_restart_timer_expire b =
     (let b1 = clear_stale_routes (b\<lparr>t_gr_restart := None\<rparr>) in
      bgp_timer_set (b1\<lparr>sflags := UNSET_FLAG (sflags b1) PEER_STATUS_NSF_WAIT, t_gr_stale := None\<rparr>))"

definition bgp_graceful_stale_timer_expire :: "bgpd \<Rightarrow> bgpd" where
  "bgp_graceful_stale_timer_expire b = clear_stale_routes (b\<lparr>t_gr_stale := None\<rparr>)"

definition bgp_fsm_change_status :: "bgp_status \<Rightarrow> bgpd \<Rightarrow> bgpd" where
  "bgp_fsm_change_status st b =
     (let b1 = (if st = Clearing \<or> st = Deleted then bgp_clear_route_all b else b) in
      b1\<lparr>ostatus := status b1, status := st\<rparr>)"

text \<open>The part of \<open>bgp_stop\<close> for an established session: counters and graceful restart.\<close>

definition nsf_clear :: "bool af \<Rightarrow> bool af" where
  "nsf_clear f = fold (\<lambda>(afi, safi) f. af_set f afi safi False) unicast_families f"

definition stop_established :: "bgpd \<Rightarrow> bgpd" where
  "stop_established b =
     (let b1 = b\<lparr>dropped := dropped b + 1, t_gr_stale := None\<rparr>;
          b2 = (if CHECK_FLAG (sflags b1) PEER_STATUS_NSF_WAIT
                then b1\<lparr>t_gr_restart := BGP_TIMER_ON b1 (t_gr_restart b1) (v_gr_restart b1),
                        t_gr_stale := BGP_TIMER_ON b1 (t_gr_stale b1) (stalepath_time b1)\<rparr>
                else b1\<lparr>sflags := UNSET_FLAG (sflags b1) PEER_STATUS_NSF_MODE, nsf := nsf_clear (nsf b1)\<rparr>) in
      b2\<lparr>uptime := e_clock (env b2), resettime := e_clock (env b2), synctime := 0\<rparr>)"

definition reset_buf :: "stream option \<Rightarrow> stream option res" where
  "reset_buf buf = (case buf of None \<Rightarrow> Inr None | Some s \<Rightarrow> rbind (stream_reset s) (\<lambda>s1. Inr (Some s1)))"

definition orf_name :: "bgpd \<Rightarrow> nat \<Rightarrow> nat \<Rightarrow> string" where
  "orf_name b afi safi = host_text b @ ''.'' @ show_u afi @ ''.'' @ show_u safi"

text \<open>The negotiated state of one family is reset.\<close>

definition reset_family :: "nat \<times> nat \<Rightarrow> bgpd \<Rightarrow> bgpd" where
  "reset_family = (\<lambda>(afi, safi) b. b\<lparr>
     afc_nego := af_set (afc_nego b) afi safi False, afc_adv := af_set (afc_adv b) afi safi False,
     afc_recv := af_set (afc_recv b) afi safi False, af_cap := af_set (af_cap b) afi safi 0,
     af_sflags := af_set (af_sflags b) afi safi 0, orf_plist := af_set (orf_plist b) afi safi None,
     orf_master := prefix_bgp_orf_remove_all (orf_master b) (orf_name b afi safi)\<rparr>)"

definition close_fd :: "bgpd \<Rightarrow> bgpd" where
  "close_fd b = (if fd b \<ge> 0 then (ext_call (Close (fd b)) b)\<lparr>fd := - 1\<rparr> else b)"

definition reset_hold_values :: "bgpd \<Rightarrow> bgpd" where
  "reset_hold_values b =
     (if CHECK_FLAG (config b) PEER_CONFIG_TIMER then b\<lparr>v_keepalive := keepalive b, v_holdtime := holdtime b\<rparr>
      else b\<lparr>v_keepalive := default_keepalive b, v_holdtime := default_holdtime b\<rparr>)"

definition bgp_stop :: "bgpd \<Rightarrow> bgpd res option" where
  "bgp_stop b0 =
     (let b1 = (if status b0 \<noteq> Clearing then BGP_EVENT_FLUSH b0 else b0);
          b2 = (if status b1 = Established then stop_established b1 else b1);
          b3 = (session_timers_off (BGP_WRITE_OFF (BGP_READ_OFF b2)))\<lparr>t_start := None, t_connect := None, packet_size := 0\<rparr> in
      xbind (Some (reset_buf (ibuf b3))) (\<lambda>ib.
      xbind (Some (reset_buf (work b3))) (\<lambda>wb.
      xbind (stream_fifo_clean (streams b3) (obuf b3)) (\<lambda>(h, f).
      let b4 = close_fd (b3\<lparr>ibuf := ib, work := wb, streams := h, obuf := f\<rparr>) in
      Some (Inr ((reset_hold_values (fold reset_family all_families b4))\<lparr>update_time := 0\<rparr>))))))"

definition bgp_clearing_completed :: "bgpd \<Rightarrow> bgpd res option" where
  "bgp_clearing_completed b = xbind (bgp_stop b) (\<lambda>b1. Some (Inr (BGP_EVENT_FLUSH b1)))"

definition bgp_stop_with_error :: "bgpd \<Rightarrow> bgpd res option" where
  "bgp_stop_with_error b = bgp_stop (b\<lparr>v_start := double_start (v_start b)\<rparr>)"

text \<open>
  Deleting a peer (\<open>bgpd.c\<close>): the part that concerns the session. The lists of peers and the
  filters are not modelled.
\<close>

definition peer_nsf_stop :: "bgpd \<Rightarrow> bgpd" where
  "peer_nsf_stop b = bgp_clear_route_all (b\<lparr>
     sflags := UNSET_FLAG (UNSET_FLAG (sflags b) PEER_STATUS_NSF_WAIT) PEER_STATUS_NSF_MODE,
     nsf := nsf_clear (nsf b), t_gr_restart := None, t_gr_stale := None\<rparr>)"

definition peer_delete :: "bgpd \<Rightarrow> bgpd res option" where
  "peer_delete b =
     xbind (Some (c_assert (status b \<noteq> Deleted) (Inr ()))) (\<lambda>_.
     let b1 = (if CHECK_FLAG (sflags b) PEER_STATUS_NSF_WAIT then peer_nsf_stop b else b) in
     xbind (bgp_stop (b1\<lparr>last_reset := PEER_DOWN_NEIGHBOR_DELETE\<rparr>)) (\<lambda>b2.
     let b3 = ext_call Peer_Delete (bgp_timer_set (bgp_fsm_change_status Deleted b2)) in
     xbind (stream_fifo_clean (streams b3) (obuf b3)) (\<lambda>(h, f).
     Some (Inr (b3\<lparr>streams := h, obuf := f, ibuf := None, work := None, su_local := None, su_remote := None\<rparr>)))))"

section \<open>Entering a session\<close>

definition bgp_getsockname :: "bgpd \<Rightarrow> bgpd" where
  "bgp_getsockname b =
     ext_call Nexthop_Set (b\<lparr>su_local := e_sockname (env b), su_remote := e_peername (env b)\<rparr>)"

definition bgp_connect_success :: "bgpd \<Rightarrow> (int \<times> bgpd) res" where
  "bgp_connect_success b =
     (if fd b < 0 then Inr (- 1, b)
      else
        let b1 = BGP_READ_ON b in
        if CHECK_FLAG (sflags b1) PEER_STATUS_ACCEPT_PEER then Inr (0, b1)
        else rbind (bgp_open_send (bgp_getsockname b1)) (\<lambda>b2. Inr (0, b2)))"

definition bgp_connect_fail :: "bgpd \<Rightarrow> bgpd res option" where
  "bgp_connect_fail b = bgp_stop b"

text \<open>The socket and its connection come from the environment; a missing socket is the value \<open>- 1\<close>,
  which is none of the three results.\<close>

definition bgp_connect :: "bgpd \<Rightarrow> connect_result option \<times> bgpd" where
  "bgp_connect b =
     (let b1 = b\<lparr>fd := e_socket (env b)\<rparr> in
      if fd b1 < 0 then (None, b1) else (Some (e_connect (env b)), b1))"

definition bgp_start :: "bgpd \<Rightarrow> int \<times> bgpd" where
  "bgp_start b =
     (if BGP_PEER_START_SUPPRESSED b then (- 1, b)
      else
        let b1 = b\<lparr>su_local := None, su_remote := None, remote_id := 0, cap := 0\<rparr> in
        if CHECK_FLAG (pflags b1) PEER_FLAG_PASSIVE then (0, BGP_EVENT_ADD TCP_connection_open_failed b1)
        else
          (case bgp_connect b1 of (st, b2) \<Rightarrow>
             case st of
               None \<Rightarrow> (0, b2)
             | Some connect_error \<Rightarrow> (0, BGP_EVENT_ADD TCP_connection_open_failed b2)
             | Some connect_success \<Rightarrow> (0, BGP_EVENT_ADD TCP_connection_open b2)
             | Some connect_in_progress \<Rightarrow>
                 if fd b2 < 0 then (- 1, b2) else (0, BGP_WRITE_ON (BGP_READ_ON b2))))"

definition bgp_reconnect :: "bgpd \<Rightarrow> bgpd res option" where
  "bgp_reconnect b = xbind (bgp_stop b) (\<lambda>b1. Some (Inr (snd (bgp_start b1))))"

definition bgp_fsm_open :: "bgpd \<Rightarrow> bgpd res" where
  "bgp_fsm_open b = rbind (bgp_keepalive_send b) (\<lambda>b1. Inr (b1\<lparr>t_holdtime := None\<rparr>))"

definition bgp_fsm_keepalive_expire :: "bgpd \<Rightarrow> bgpd res" where
  "bgp_fsm_keepalive_expire b = bgp_keepalive_send b"

definition bgp_fsm_holdtime_expire :: "bgpd \<Rightarrow> (int \<times> bgpd) res option" where
  "bgp_fsm_holdtime_expire b =
     xbind (bgp_notify_send BGP_NOTIFY_HOLD_ERR 0 b) (\<lambda>b1.
     if CHECK_FLAG (sflags b1) PEER_STATUS_ACCEPT_PEER then xbind (peer_delete b1) (\<lambda>b2. Some (Inr (- 1, b2)))
     else xbind (bgp_stop b1) (\<lambda>b2. Some (Inr (0, b2))))"

section \<open>Establishing a session\<close>

definition BGP_INIT_START_TIMER :: u32 where "BGP_INIT_START_TIMER = 5"

text \<open>Graceful restart of one family: stale routes are dropped unless the peer preserved its state.\<close>

definition restart_af :: "nat \<times> nat \<Rightarrow> bgpd \<Rightarrow> bgpd" where
  "restart_af = (\<lambda>(afi, safi) b.
     if afc_nego b afi safi \<and> CHECK_FLAG (cap b) PEER_CAP_RESTART_ADV \<and>
        CHECK_FLAG (af_cap b afi safi) PEER_CAP_RESTART_AF_RCV
     then
       (let b1 = (if nsf b afi safi \<and> \<not> CHECK_FLAG (af_cap b afi safi) PEER_CAP_RESTART_AF_PRESERVE_RCV
                  then ext_call (Clear_Stale_Route afi safi) b else b)
        in b1\<lparr>nsf := af_set (nsf b1) afi safi True\<rparr>)
     else
       (let b1 = (if nsf b afi safi then ext_call (Clear_Stale_Route afi safi) b else b)
        in b1\<lparr>nsf := af_set (nsf b1) afi safi False\<rparr>))"

definition restart_count :: "bgpd \<Rightarrow> nat" where
  "restart_count b = length (filter (\<lambda>(afi, safi). afc_nego b afi safi \<and> CHECK_FLAG (cap b) PEER_CAP_RESTART_ADV \<and>
     CHECK_FLAG (af_cap b afi safi) PEER_CAP_RESTART_AF_RCV) unicast_families)"

definition establish_restart :: "bgpd \<Rightarrow> bgpd" where
  "establish_restart b =
     (let b1 = b\<lparr>sflags := UNSET_FLAG (sflags b) PEER_STATUS_NSF_WAIT\<rparr>;
          b2 = fold restart_af unicast_families b1;
          b3 = (if restart_count b1 \<noteq> 0 then b2\<lparr>sflags := SET_FLAG (sflags b2) PEER_STATUS_NSF_MODE\<rparr>
                else b2\<lparr>sflags := UNSET_FLAG (sflags b2) PEER_STATUS_NSF_MODE, t_gr_stale := None\<rparr>) in
      b3\<lparr>t_gr_restart := None, uptime := e_clock (env b3)\<rparr>)"

fun establish_refresh :: "(nat \<times> nat) list \<Rightarrow> bgpd \<Rightarrow> bgpd res" where
  "establish_refresh [] b = Inr b"
| "establish_refresh ((afi, safi) # afs) b =
     rbind (if CHECK_FLAG (af_cap b afi safi) PEER_CAP_ORF_PREFIX_SM_ADV then
              if CHECK_FLAG (af_cap b afi safi) PEER_CAP_ORF_PREFIX_RM_RCV
              then bgp_route_refresh_send afi safi ORF_TYPE_PREFIX REFRESH_IMMEDIATE False b
              else if CHECK_FLAG (af_cap b afi safi) PEER_CAP_ORF_PREFIX_RM_OLD_RCV
              then bgp_route_refresh_send afi safi ORF_TYPE_PREFIX_OLD REFRESH_IMMEDIATE False b
              else Inr b
            else Inr b) (establish_refresh afs)"

definition establish_wait :: "nat \<times> nat \<Rightarrow> bgpd \<Rightarrow> bgpd" where
  "establish_wait = (\<lambda>(afi, safi) b.
     if CHECK_FLAG (af_cap b afi safi) PEER_CAP_ORF_PREFIX_RM_ADV \<and>
        (CHECK_FLAG (af_cap b afi safi) PEER_CAP_ORF_PREFIX_SM_RCV \<or>
         CHECK_FLAG (af_cap b afi safi) PEER_CAP_ORF_PREFIX_SM_OLD_RCV)
     then b\<lparr>af_sflags := af_set (af_sflags b) afi safi (SET_FLAG (af_sflags b afi safi) PEER_STATUS_ORF_WAIT_REFRESH)\<rparr>
     else b)"

definition bgp_establish :: "bgpd \<Rightarrow> bgpd res" where
  "bgp_establish b =
     (let b1 = b\<lparr>sflags := SET_FLAG (sflags b) PEER_STATUS_CAPABILITY_OPEN, notify_code := 0, notify_subcode := 0,
                 notify_data := None, notify_length := 0, v_start := BGP_INIT_START_TIMER,
                 established := established b + 1\<rparr>;
          b2 = establish_restart (bgp_fsm_change_status Established b1) in
      rbind (establish_refresh all_families b2) (\<lambda>b3.
      rbind (if v_keepalive b3 \<noteq> 0 then bgp_keepalive_send b3 else Inr b3) (\<lambda>b4.
      let b5 = ext_call Announce_Route_All (fold establish_wait all_families b4) in
      Inr (b5\<lparr>t_routeadv := BGP_TIMER_ON b5 (t_routeadv b5) 1\<rparr>))))"

definition bgp_fsm_keepalive :: "bgpd \<Rightarrow> bgpd" where
  "bgp_fsm_keepalive b = b\<lparr>keepalive_in := keepalive_in b + 1, t_holdtime := None\<rparr>"

definition bgp_fsm_update :: "bgpd \<Rightarrow> bgpd" where
  "bgp_fsm_update b = b\<lparr>t_holdtime := None\<rparr>"

section \<open>The transition table\<close>

datatype fsm_func = F_ignore | F_start | F_stop | F_connect_success | F_connect_fail | F_reconnect | F_open
  | F_holdtime_expire | F_keepalive_expire | F_establish | F_keepalive | F_update | F_stop_with_error
  | F_clearing_completed

definition fsm_call :: "fsm_func \<Rightarrow> bgpd \<Rightarrow> (int \<times> bgpd) res option" where
  "fsm_call f b =
     (let total = \<lambda>r. Some (rbind r (\<lambda>b1. Inr (0, b1))); part = \<lambda>m. xbind m (\<lambda>b1. Some (Inr (0, b1))) in
      case f of
        F_ignore \<Rightarrow> Some (Inr (0, b))
      | F_start \<Rightarrow> Some (Inr (bgp_start b))
      | F_stop \<Rightarrow> part (bgp_stop b)
      | F_connect_success \<Rightarrow> Some (bgp_connect_success b)
      | F_connect_fail \<Rightarrow> part (bgp_connect_fail b)
      | F_reconnect \<Rightarrow> part (bgp_reconnect b)
      | F_open \<Rightarrow> total (bgp_fsm_open b)
      | F_holdtime_expire \<Rightarrow> bgp_fsm_holdtime_expire b
      | F_keepalive_expire \<Rightarrow> total (bgp_fsm_keepalive_expire b)
      | F_establish \<Rightarrow> total (bgp_establish b)
      | F_keepalive \<Rightarrow> Some (Inr (0, bgp_fsm_keepalive b))
      | F_update \<Rightarrow> Some (Inr (0, bgp_fsm_update b))
      | F_stop_with_error \<Rightarrow> part (bgp_stop_with_error b)
      | F_clearing_completed \<Rightarrow> part (bgp_clearing_completed b))"

text \<open>The rows of the table, one entry for each event in the order of the event numbers.\<close>

definition FSM_row :: "bgp_status \<Rightarrow> (fsm_func \<times> bgp_status) list" where
  "FSM_row st =
     (case st of
        Idle \<Rightarrow> [(F_start, Connect), (F_stop, Idle), (F_stop, Idle), (F_stop, Idle), (F_ignore, Idle), (F_stop, Idle),
          (F_ignore, Idle), (F_ignore, Idle), (F_ignore, Idle), (F_ignore, Idle), (F_ignore, Idle), (F_ignore, Idle),
          (F_ignore, Idle), (F_ignore, Idle)]
      | Connect \<Rightarrow> [(F_ignore, Connect), (F_stop, Idle), (F_connect_success, OpenSent), (F_stop, Idle),
          (F_connect_fail, Active), (F_connect_fail, Idle), (F_reconnect, Connect), (F_ignore, Idle), (F_ignore, Idle),
          (F_ignore, Idle), (F_ignore, Idle), (F_ignore, Idle), (F_stop, Idle), (F_ignore, Idle)]
      | Active \<Rightarrow> [(F_ignore, Active), (F_stop, Idle), (F_connect_success, OpenSent), (F_stop, Idle), (F_ignore, Active),
          (F_ignore, Idle), (F_start, Connect), (F_ignore, Idle), (F_ignore, Idle), (F_ignore, Idle), (F_ignore, Idle),
          (F_ignore, Idle), (F_stop_with_error, Idle), (F_ignore, Idle)]
      | OpenSent \<Rightarrow> [(F_ignore, OpenSent), (F_stop, Idle), (F_stop, Active), (F_stop, Active), (F_stop, Active),
          (F_stop, Active), (F_ignore, Idle), (F_holdtime_expire, Idle), (F_ignore, Idle), (F_open, OpenConfirm),
          (F_ignore, Idle), (F_ignore, Idle), (F_stop_with_error, Idle), (F_ignore, Idle)]
      | OpenConfirm \<Rightarrow> [(F_ignore, OpenConfirm), (F_stop, Idle), (F_stop, Idle), (F_stop, Idle), (F_stop, Idle),
          (F_stop, Idle), (F_ignore, Idle), (F_holdtime_expire, Idle), (F_ignore, OpenConfirm), (F_ignore, Idle),
          (F_establish, Established), (F_ignore, Idle), (F_stop_with_error, Idle), (F_ignore, Idle)]
      | Established \<Rightarrow> [(F_ignore, Established), (F_stop, Clearing), (F_stop, Clearing), (F_stop, Clearing),
          (F_stop, Clearing), (F_stop, Clearing), (F_stop, Clearing), (F_holdtime_expire, Clearing),
          (F_keepalive_expire, Established), (F_stop, Clearing), (F_keepalive, Established), (F_update, Established),
          (F_stop_with_error, Clearing), (F_ignore, Idle)]
      | Clearing \<Rightarrow> (F_ignore, Clearing) # replicate 12 (F_stop, Clearing) @ [(F_clearing_completed, Idle)]
      | Deleted \<Rightarrow> replicate 14 (F_ignore, Deleted))"

definition event_index :: "fsm_event \<Rightarrow> nat" where
  "event_index e =
     (case e of BGP_Start \<Rightarrow> 0 | BGP_Stop \<Rightarrow> 1 | TCP_connection_open \<Rightarrow> 2 | TCP_connection_closed \<Rightarrow> 3
      | TCP_connection_open_failed \<Rightarrow> 4 | TCP_fatal_error \<Rightarrow> 5 | ConnectRetry_timer_expired \<Rightarrow> 6
      | Hold_Timer_expired \<Rightarrow> 7 | KeepAlive_timer_expired \<Rightarrow> 8 | Receive_OPEN_message \<Rightarrow> 9
      | Receive_KEEPALIVE_message \<Rightarrow> 10 | Receive_UPDATE_message \<Rightarrow> 11 | Receive_NOTIFICATION_message \<Rightarrow> 12
      | Clearing_Completed \<Rightarrow> 13)"

definition FSM :: "bgp_status \<Rightarrow> fsm_event \<Rightarrow> fsm_func \<times> bgp_status" where
  "FSM st e = FSM_row st ! event_index e"

definition bgp_event :: "fsm_event \<Rightarrow> bgpd \<Rightarrow> (int \<times> bgpd) res option" where
  "bgp_event e b =
     (let (func, next_state) = FSM (status b) e in
      xbind (fsm_call func b) (\<lambda>(ret, b1).
      if ret \<ge> 0
      then Some (Inr (ret, bgp_timer_set (if next_state \<noteq> status b1 then bgp_fsm_change_status next_state b1 else b1)))
      else Some (Inr (ret, b1))))"

section \<open>Timer threads\<close>

definition bgp_start_timer :: "bgpd \<Rightarrow> (int \<times> bgpd) res option" where
  "bgp_start_timer b = bgp_event BGP_Start (b\<lparr>t_start := None\<rparr>)"

definition bgp_connect_timer :: "bgpd \<Rightarrow> (int \<times> bgpd) res option" where
  "bgp_connect_timer b = bgp_event ConnectRetry_timer_expired (b\<lparr>t_connect := None\<rparr>)"

definition bgp_holdtime_timer :: "bgpd \<Rightarrow> (int \<times> bgpd) res option" where
  "bgp_holdtime_timer b = bgp_event Hold_Timer_expired (b\<lparr>t_holdtime := None\<rparr>)"

definition bgp_keepalive_timer :: "bgpd \<Rightarrow> (int \<times> bgpd) res option" where
  "bgp_keepalive_timer b = bgp_event KeepAlive_timer_expired (b\<lparr>t_keepalive := None\<rparr>)"

definition bgp_routeadv_timer :: "bgpd \<Rightarrow> bgpd" where
  "bgp_routeadv_timer b =
     (let b1 = BGP_WRITE_ON (b\<lparr>t_routeadv := None, synctime := e_clock (env b)\<rparr>) in
      b1\<lparr>t_routeadv := BGP_TIMER_ON b1 (t_routeadv b1) (v_routeadv b1)\<rparr>)"

end
