(* ===== verification/Bgp_Receive.thy ===== *)
theory Bgp_Receive
  imports Bgp_Fsm
begin

text \<open>
  The messages that \<open>bgpd/bgp_packet.c\<close> receives: trust and voting messages, notification,
  keepalive, route refresh, dynamic capability. A handler starts at the read position of the
  input buffer behind the header; \<open>msize\<close> is the length of the message without the header.
\<close>

section \<open>Trust and voting\<close>

text \<open>
  The variable for the own AS number is read but not used, so a missing number does no harm
  while a missing file does.
\<close>

definition average :: "u16 \<Rightarrow> u16 \<Rightarrow> u16" where
  "average obs rcvd = of_nat ((unat obs * 9 + unat rcvd) div 10)"

definition print_words :: "string \<Rightarrow> u16 list \<Rightarrow> bgpd \<Rightarrow> bgpd" where
  "print_words name ws b = print_file name (map (int \<circ> unat) ws) b"

definition bgp_trust_receive :: "bgpd \<Rightarrow> bgpd res" where
  "bgp_trust_receive b =
     rbind (in_w b) (\<lambda>(rcvdTrust, b1).
     rbind (scan_file b1 ''/myAS.txt'' 0) (\<lambda>_.
     rbind (scan_file b1 ''/obsTrust.txt'' 10) (\<lambda>vs.
     let obsTrusts = map of_int vs :: u16 list in
     rbind (arr_get obsTrusts (as_index b1)) (\<lambda>obs.
     rbind (arr_put obsTrusts (as_index b1) (average obs rcvdTrust)) (\<lambda>obsTrusts1.
     Inr (print_words ''/obsTrust.txt'' obsTrusts1 b1))))))"

text \<open>Set the number of the peer's AS in a file of ten numbers.\<close>

definition set_number :: "string \<Rightarrow> int \<Rightarrow> bgpd \<Rightarrow> bgpd res" where
  "set_number name v b =
     rbind (scan_file b name 10) (\<lambda>ASs.
     rbind (arr_put ASs (as_index b) v) (\<lambda>ASs1. Inr (print_file name ASs1 b)))"

definition bgp_voting_peers_request_receive :: "bgpd \<Rightarrow> bgpd res" where
  "bgp_voting_peers_request_receive b =
     (case files b ''/neighborsN'' of
        None \<Rightarrow> Inl Null_Deref
      | Some vs \<Rightarrow>
          let neighborsN = (if vs = [] then 0 else hd vs) in
          if neighborsN > 1 then set_number ''/votesRequests'' 1 b else Inr b)"

definition bgp_voting_vote_request_receive :: "bgpd \<Rightarrow> bgpd res" where
  "bgp_voting_vote_request_receive b = set_number ''/votesResponses'' 1 b"

definition bgp_voting_vote_response_receive :: "bgpd \<Rightarrow> bgpd res" where
  "bgp_voting_vote_response_receive b = rbind (in_w b) (\<lambda>(vote, b1). set_number ''/votes'' (uint vote) b1)"

text \<open>The conversion \<open>%d\<close> of an unsigned 32-bit number.\<close>

definition show_d :: "u32 \<Rightarrow> string" where
  "show_d w = (if sint w < 0 then ''-'' @ show_u (nat (- sint w)) else show_u (unat w))"

definition bgp_voting_peers_response_receive :: "bgpd \<Rightarrow> bgpd res" where
  "bgp_voting_peers_response_receive b =
     rbind (in_do (get_all stream_getw 10) b) (\<lambda>(votes, b1).
     Inr (print_words (''voteresult-'' @ show_d (peer_as b1)) votes b1))"

section \<open>Notification and keepalive\<close>

text \<open>The length is the 16-bit difference \<open>size - 2\<close>.\<close>

definition bgp_notify_receive :: "nat \<Rightarrow> bgpd \<Rightarrow> bgpd res" where
  "bgp_notify_receive msize b =
     (let b0 = (if notify_data b \<noteq> None then b\<lparr>notify_data := None, notify_length := 0\<rparr> else b) in
      rbind (in_c b0) (\<lambda>(code, b1).
      rbind (in_c b1) (\<lambda>(subcode, b2).
      let len = unat (of_nat msize - 2 :: u16);
          b3 = b2\<lparr>notify_code := code, notify_subcode := subcode\<rparr> in
      rbind (if len = 0 then Inr b3
             else rbind (in_getp b3) (\<lambda>g.
                  rbind (in_copy g len b3) (\<lambda>bs.
                  rbind (in_do (get_all stream_getc len) (b3\<lparr>notify_length := len, notify_data := Some bs\<rparr>))
                    (\<lambda>(_, b4). Inr b4)))) (\<lambda>b4.
      let b5 = b4\<lparr>notify_in := notify_in b4 + 1\<rparr>;
          b6 = (if status b5 = Established then b5\<lparr>last_reset := PEER_DOWN_NOTIFY_RECEIVED\<rparr> else b5);
          b7 = (if code = BGP_NOTIFY_OPEN_ERR \<and> subcode = BGP_NOTIFY_OPEN_UNSUP_PARAM
                then b6\<lparr>sflags := UNSET_FLAG (sflags b6) PEER_STATUS_CAPABILITY_OPEN\<rparr> else b6) in
      Inr (BGP_EVENT_ADD Receive_NOTIFICATION_message b7)))))"

definition bgp_keepalive_receive :: "bgpd \<Rightarrow> bgpd" where
  "bgp_keepalive_receive b = BGP_EVENT_ADD Receive_KEEPALIVE_message b"

section \<open>Route refresh\<close>

text \<open>
  One entry of an outbound route filter, between the positions \<open>p\<close> and \<open>p_end\<close>. The position
  can pass \<open>p_end\<close>, which the differences show as negative numbers. The result is the next
  position, or nothing when the loop is left.
\<close>

definition orf_byte :: "nat \<Rightarrow> nat \<Rightarrow> bgpd \<Rightarrow> (bool \<times> u8 \<times> nat) res" where
  "orf_byte p p_end b =
     (if p < p_end then rbind (in_copy p 1 b) (\<lambda>bs. Inr (True, hd bs, p + 1)) else Inr (False, 0, p))"

definition orf_entry :: "nat \<Rightarrow> nat \<Rightarrow> nat \<Rightarrow> nat \<Rightarrow> bgpd \<Rightarrow> (nat option \<times> bgpd) res" where
  "orf_entry afi safi p p_end b =
     (let name = orf_name b afi safi;
          remove_all = b\<lparr>orf_master := prefix_bgp_orf_remove_all (orf_master b) name\<rparr> in
      rbind (in_copy p 1 b) (\<lambda>cs.
      let common = hd cs; p1 = p + 1 in
      if common AND ORF_COMMON_PART_REMOVE_ALL \<noteq> 0 then Inr (None, remove_all)
      else
      rbind (if \<not> p_end - p1 \<ge> 4 then rbind (in_copy p1 4 b) (\<lambda>bs. Inr (be_word bs, p1 + 4)) else Inr (0, p_end))
        (\<lambda>(seq :: u32, p2).
      rbind (orf_byte p2 p_end b) (\<lambda>(_, ge, p3).
      rbind (orf_byte p3 p_end b) (\<lambda>(_, le, p4).
      rbind (orf_byte p4 p_end b) (\<lambda>(ok, len, p5).
      let pfx = \<lparr>family = afi2family afi, prefixlen = len, u_bytes = replicate 16 0\<rparr>;
          psize0 = int (PSIZE (unat len));
          (ok1, psize1) = (if psize0 > int (prefix_blen pfx) then (False, int (prefix_blen pfx)) else (ok, psize0));
          (ok2, psize) = (if psize1 > int p_end - int p5 then (False, int p_end - int p5) else (ok1, psize1)) in
      rbind (if psize > 0 then in_copy p5 (nat psize) b else Inr []) (\<lambda>bs.
      let orfp = \<lparr>orf_seq = seq, orf_ge = ge, orf_le = le,
                   orf_p = pfx\<lparr>u_bytes := bs @ drop (length bs) (u_bytes pfx)\<rparr>\<rparr>;
          p6 = nat (int p5 + psize) in
      if \<not> ok2 then Inr (None, remove_all)
      else
        rbind (prefix_bgp_orf_set (orf_master b) name afi orfp (common AND ORF_COMMON_PART_DENY = 0)
                 (common AND ORF_COMMON_PART_REMOVE = 0)) (\<lambda>(ret, m).
        if ret \<noteq> CMD_SUCCESS
        then Inr (None, b\<lparr>orf_master := prefix_bgp_orf_remove_all m name\<rparr>)
        else Inr (Some p6, b\<lparr>orf_master := m\<rparr>)))))))))"

partial_function (option) orf_loop :: "nat \<Rightarrow> nat \<Rightarrow> nat \<Rightarrow> nat \<Rightarrow> bgpd \<Rightarrow> bgpd res option" where
  "orf_loop afi safi p p_end b =
     (if \<not> p < p_end then Some (Inr b)
      else xbind (Some (orf_entry afi safi p p_end b)) (\<lambda>(next_p, b1).
        case next_p of None \<Rightarrow> Some (Inr b1) | Some p1 \<Rightarrow> orf_loop afi safi p1 p_end b1))"

partial_function (option) refresh_loop :: "nat \<Rightarrow> nat \<Rightarrow> nat \<Rightarrow> bgpd \<Rightarrow> bgpd res option" where
  "refresh_loop afi safi fin b =
     xbind (Some (in_getp b)) (\<lambda>g.
     if \<not> g + 2 < fin then Some (Inr b)
     else
       xbind (Some (in_c b)) (\<lambda>(orf_type, b1).
       xbind (Some (in_w b1)) (\<lambda>(orf_len, b2).
       xbind (Some (in_getp b2)) (\<lambda>g2.
       if g2 + unat orf_len > fin then Some (Inr b2)
       else if orf_type = ORF_TYPE_PREFIX \<or> orf_type = ORF_TYPE_PREFIX_OLD then
         if unat orf_len < 7 then Some (Inr b2)
         else
           xbind (orf_loop afi safi g2 (g2 + unat orf_len) b2) (\<lambda>b3.
           let found = prefix_list_lookup (orf_master b3) (orf_name b3 afi safi);
               b4 = b3\<lparr>orf_plist := af_set (orf_plist b3) afi safi (map_option pl_name found)\<rparr> in
           xbind (Some (in_forward (unat orf_len) b4)) (\<lambda>b5. refresh_loop afi safi fin b5))
       else xbind (Some (in_forward (unat orf_len) b2)) (\<lambda>b3. refresh_loop afi safi fin b3)))))"

definition bgp_announce_route :: "nat \<Rightarrow> nat \<Rightarrow> bgpd \<Rightarrow> bgpd" where
  "bgp_announce_route afi safi b = ext_call (Announce_Route afi safi) b"

text \<open>The end of the handler: a first update that waited for this message is sent now.\<close>

definition refresh_announce :: "nat \<Rightarrow> nat \<Rightarrow> bgpd \<Rightarrow> bgpd" where
  "refresh_announce afi safi b =
     bgp_announce_route afi safi (b\<lparr>af_sflags := af_set (af_sflags b) afi safi
       (UNSET_FLAG (af_sflags b afi safi) PEER_STATUS_ORF_WAIT_REFRESH)\<rparr>)"

definition BGP_MSG_ROUTE_REFRESH_MIN_SIZE :: nat where
  "BGP_MSG_ROUTE_REFRESH_MIN_SIZE = BGP_HEADER_SIZE + 4"

definition bgp_route_refresh_receive :: "nat \<Rightarrow> bgpd \<Rightarrow> bgpd res option" where
  "bgp_route_refresh_receive msize b =
     (if \<not> CHECK_FLAG (cap b) PEER_CAP_REFRESH_ADV
      then bgp_notify_send BGP_NOTIFY_HEADER_ERR BGP_NOTIFY_HEADER_BAD_MESTYPE b
      else if status b \<noteq> Established then bgp_notify_send BGP_NOTIFY_FSM_ERR 0 b
      else
        xbind (Some (bgp_capability_mp_data b)) (\<lambda>((afi, safi0), b1).
        if afi \<noteq> AFI_IP \<and> afi \<noteq> AFI_IP6 \<or>
           safi0 \<noteq> SAFI_UNICAST \<and> safi0 \<noteq> SAFI_MULTICAST \<and> safi0 \<noteq> BGP_SAFI_VPNV4 then Some (Inr b1)
        else
          let safi = (if safi0 = BGP_SAFI_VPNV4 then SAFI_MPLS_VPN else safi0);
              minlen = BGP_MSG_ROUTE_REFRESH_MIN_SIZE - BGP_HEADER_SIZE in
          if msize = minlen then Some (Inr (refresh_announce afi safi b1))
          else if int msize - int minlen < 5 then bgp_notify_send BGP_NOTIFY_CEASE 0 b1
          else
            xbind (Some (in_c b1)) (\<lambda>(when_to_refresh, b2).
            xbind (Some (in_getp b2)) (\<lambda>g.
            xbind (refresh_loop afi safi (g + (msize - 5)) b2) (\<lambda>b3.
            Some (Inr (if when_to_refresh = REFRESH_DEFER then b3 else refresh_announce afi safi b3)))))))"

section \<open>Dynamic capability\<close>

text \<open>
  \<open>pnt\<close> and \<open>fin\<close> are positions in the input buffer. The four bytes of the multiprotocol
  capability are copied whatever its length is. A capability that is ignored does not move
  \<open>pnt\<close>.
\<close>

definition capability_set :: "nat \<Rightarrow> nat \<Rightarrow> bgpd \<Rightarrow> bgpd" where
  "capability_set afi safi b =
     (let b1 = b\<lparr>afc_recv := af_set (afc_recv b) afi safi True\<rparr> in
      if afc b1 afi safi
      then bgp_announce_route afi safi (b1\<lparr>afc_nego := af_set (afc_nego b1) afi safi True\<rparr>)
      else b1)"

definition capability_unset :: "nat \<Rightarrow> nat \<Rightarrow> bgpd \<Rightarrow> bgpd" where
  "capability_unset afi safi b =
     (let b1 = b\<lparr>afc_recv := af_set (afc_recv b) afi safi False, afc_nego := af_set (afc_nego b) afi safi False\<rparr> in
      if peer_active_nego b1 then bgp_clear_route afi safi b1 else BGP_EVENT_ADD BGP_Stop b1)"

partial_function (option) bgp_capability_msg_parse :: "nat \<Rightarrow> nat \<Rightarrow> bgpd \<Rightarrow> (int \<times> bgpd) res option" where
  "bgp_capability_msg_parse pnt fin b =
     (if \<not> pnt < fin then Some (Inr (0, b))
      else
        let error = xbind (bgp_notify_send BGP_NOTIFY_CEASE 0 b) (\<lambda>b1. Some (Inr (- 1, b1))) in
        if pnt + 3 > fin then error
        else
          xbind (Some (in_copy pnt 3 b)) (\<lambda>hdr.
          let action = hdr ! 0; code = hdr ! 1; len = unat (hdr ! 2) in
          if action \<noteq> CAPABILITY_ACTION_SET \<and> action \<noteq> CAPABILITY_ACTION_UNSET then error
          else if pnt + len + 3 > fin then error
          else
            xbind (Some (in_copy (pnt + 3) 4 b)) (\<lambda>mpc.
            if code \<noteq> CAPABILITY_CODE_MP then bgp_capability_msg_parse (pnt + len + 3) fin b
            else if CHECK_FLAG (pflags b) PEER_FLAG_OVERRIDE_CAPABILITY then bgp_capability_msg_parse pnt fin b
            else
              let afi = unat (be_word (take 2 mpc) :: u16) in
              case bgp_afi_safi_valid_indices afi (unat (mpc ! 3)) of
                None \<Rightarrow> bgp_capability_msg_parse pnt fin b
              | Some safi \<Rightarrow> bgp_capability_msg_parse (pnt + len + 3) fin
                  (if action = CAPABILITY_ACTION_SET then capability_set afi safi b else capability_unset afi safi b))))"

definition bgp_capability_receive :: "nat \<Rightarrow> bgpd \<Rightarrow> (int \<times> bgpd) res option" where
  "bgp_capability_receive msize b =
     xbind (Some (in_getp b)) (\<lambda>pnt.
     if \<not> CHECK_FLAG (cap b) PEER_CAP_DYNAMIC_ADV
     then xbind (bgp_notify_send BGP_NOTIFY_HEADER_ERR BGP_NOTIFY_HEADER_BAD_MESTYPE b) (\<lambda>b1. Some (Inr (- 1, b1)))
     else if status b \<noteq> Established
     then xbind (bgp_notify_send BGP_NOTIFY_FSM_ERR 0 b) (\<lambda>b1. Some (Inr (- 1, b1)))
     else bgp_capability_msg_parse pnt (pnt + msize) b)"

end
