(* ===== verification/Bgp_Receive_Facts.thy ===== *)
theory Bgp_Receive_Facts
  imports Bgp_Receive
begin

text \<open>
  Messages that a neighbour can send and that the receiving handlers do not treat as they
  are meant to: a dynamic capability on which the parser makes no progress, and the filter
  entries of a route refresh.
\<close>

section \<open>Dynamic capability\<close>

text \<open>The capability at \<open>pnt\<close> is well-formed, and one that is to be ignored.\<close>

definition ignored_capability :: "nat \<Rightarrow> nat \<Rightarrow> bgpd \<Rightarrow> bool" where
  "ignored_capability pnt fin b \<longleftrightarrow>
     (case (in_copy pnt 3 b, in_copy (pnt + 3) 4 b) of
        (Inr hdr, Inr mpc) \<Rightarrow>
          hdr ! 0 \<in> {CAPABILITY_ACTION_SET, CAPABILITY_ACTION_UNSET} \<and> hdr ! 1 = CAPABILITY_CODE_MP \<and>
          pnt + unat (hdr ! 2) + 3 \<le> fin \<and>
          (CHECK_FLAG (pflags b) PEER_FLAG_OVERRIDE_CAPABILITY \<or>
           bgp_afi_safi_valid_indices (unat (be_word (take 2 mpc) :: u16)) (unat (mpc ! 3)) = None)
      | _ \<Rightarrow> False)"

lemma ignored_no_result:
  "bgp_capability_msg_parse pnt fin b = Some y \<Longrightarrow> \<not> ignored_capability pnt fin b"
proof (erule bgp_capability_msg_parse.raw_induct [rotated], rule notI, goal_cases)
  case (1 parse pnt fin b y)
  from 1(2,3) have "parse pnt fin b = Some y"
    by (auto simp: ignored_capability_def Let_def split: sum.splits if_splits option.splits)
  with 1(1,3) show False by blast
qed


text \<open>Seven bytes: set, multiprotocol, length 4, AFI 3, SAFI 1.\<close>

definition hang_ex :: bgpd where
  "hang_ex = bgpd_ex\<lparr>status := Established, cap := PEER_CAP_DYNAMIC_ADV,
     ibuf := Some \<lparr>getp = 0, endp = 7, ssize = 7, sdata = [0, 1, 4, 0, 3, 0, 1]\<rparr>\<rparr>"


section \<open>Filter entries of a route refresh\<close>

lemma in_copy_ok:
  "ibuf b = Some s \<Longrightarrow> stream_ok s \<Longrightarrow> pos + n \<le> ssize s \<Longrightarrow> in_copy pos n b = Inr (take n (drop pos (sdata s)))"
  by (simp add: in_copy_def mem_get_ok stream_ok_def)

lemma orf_byte_end: "p_end \<le> p \<Longrightarrow> orf_byte p p_end b = Inr (False, 0, p)"
  by (simp add: orf_byte_def)

lemma orf_entry_removes:
  assumes "ibuf b = Some s" "stream_ok s" "p < p_end" "p_end + 4 \<le> ssize s"
  shows "orf_entry afi safi p p_end b =
    Inr (None, b\<lparr>orf_master := prefix_bgp_orf_remove_all (orf_master b) (orf_name b afi safi)\<rparr>)"
proof -
  have "in_copy p 1 b = Inr (take 1 (drop p (sdata s)))" using in_copy_ok [OF assms(1,2), of p 1] assms(3,4) by simp
  moreover have "in_copy (p + 1) 4 b = Inr (take 4 (drop (p + 1) (sdata s)))"
    using in_copy_ok [OF assms(1,2), of "p + 1" 4] assms(3,4) by simp
  moreover have "PSIZE 0 = 0" by (simp add: PSIZE_def)
  ultimately show ?thesis
    using assms(3) by (cases "p_end - (p + 1) \<ge> 4") (simp_all add: orf_entry_def Let_def orf_byte_end)
qed


text \<open>An entry that adds: permit 10.0.0.0/8 with sequence number 5.\<close>

definition orf_ex :: bgpd where
  "orf_ex = bgpd_ex\<lparr>ibuf := Some \<lparr>getp = 0, endp = 9, ssize = 16,
     sdata = [0, 0, 0, 0, 5, 0, 0, 8, 10, 0, 0, 0, 0, 0, 0, 0]\<rparr>\<rparr>"


end
