(* ===== verification/Bgp_Update.thy ===== *)
theory Bgp_Update
  imports Bgp_Receive
begin

text \<open>
  UPDATE messages: \<open>bgp_update_receive\<close> of \<open>bgpd/bgp_packet.c\<close> with the parsing of reachability
  information in \<open>bgpd/bgp_route.c\<close>. The parser of path attributes and the operations on the
  routing information base are parameters.
\<close>

section \<open>Reachability information\<close>

definition BGP_NOTIFY_UPDATE_MAL_ATTR :: u8 where "BGP_NOTIFY_UPDATE_MAL_ATTR = 1"
definition BGP_NOTIFY_UPDATE_INVAL_NETWORK :: u8 where "BGP_NOTIFY_UPDATE_INVAL_NETWORK = 10"
definition PEER_STATUS_EOR_RECEIVED :: u16 where "PEER_STATUS_EOR_RECEIVED = 64"

text \<open>The limits on the length of a prefix.\<close>

definition nlri_len_bad :: "nat \<Rightarrow> u8 \<Rightarrow> bool" where
  "nlri_len_bad afi len \<longleftrightarrow> afi = AFI_IP \<and> len > 32 \<or> afi = AFI_IP6 \<and> len > 128"

text \<open>The loop over the bytes of the field. A prefix that ends behind the field is an error, so
  that the loop can only end at its end.\<close>

function nlri_sane :: "nat \<Rightarrow> u8 list \<Rightarrow> bool" where
  "nlri_sane afi [] = True"
| "nlri_sane afi (len # bs) =
     (if nlri_len_bad afi len then False
      else if PSIZE (unat len) > length bs then False
      else nlri_sane afi (drop (PSIZE (unat len)) bs))"
  by pat_completeness auto
termination
  by (relation "measure (\<lambda>(afi, bs). length bs)") auto

definition bgp_nlri_sanity_check :: "nat \<Rightarrow> u8 list \<Rightarrow> bgpd \<Rightarrow> (int \<times> bgpd) res option" where
  "bgp_nlri_sanity_check afi bs b =
     (if nlri_sane afi bs then Some (Inr (0, b))
      else xbind (bgp_notify_send BGP_NOTIFY_UPDATE_ERR BGP_NOTIFY_UPDATE_INVAL_NETWORK b)
             (\<lambda>b1. Some (Inr (- 1, b1))))"

record bgp_nlri =
  nlri_afi :: nat
  nlri_safi :: nat
  nlri_bytes :: "u8 list"

definition nlri_none :: bgp_nlri where
  "nlri_none = \<lparr>nlri_afi = 0, nlri_safi = 0, nlri_bytes = []\<rparr>"

text \<open>
  \<open>bgp_update\<close> with attributes and \<open>bgp_withdraw\<close> without, for one prefix: the result is
  negative when the rest of the message is to be ignored.
\<close>

type_synonym 'a rib = "nat \<Rightarrow> nat \<Rightarrow> prefix \<Rightarrow> 'a option \<Rightarrow> bgpd \<Rightarrow> (int \<times> bgpd) res option"

definition IN_CLASSD :: "prefix \<Rightarrow> bool" where
  "IN_CLASSD p \<longleftrightarrow> hd (u_bytes p) AND 0xf0 = 0xe0"

definition IN6_IS_ADDR_LINKLOCAL :: "prefix \<Rightarrow> bool" where
  "IN6_IS_ADDR_LINKLOCAL p \<longleftrightarrow> u_bytes p ! 0 = 0xfe \<and> u_bytes p ! 1 AND 0xc0 = 0x80"

definition nlri_prefix :: "nat \<Rightarrow> u8 \<Rightarrow> u8 list \<Rightarrow> prefix" where
  "nlri_prefix afi len bs =
     \<lparr>family = afi2family afi, prefixlen = len,
      u_bytes = (let k = PSIZE (unat len) in take k bs @ replicate (16 - k) 0)\<rparr>"

function nlri_loop :: "'a rib \<Rightarrow> 'a option \<Rightarrow> nat \<Rightarrow> nat \<Rightarrow> u8 list \<Rightarrow> bgpd \<Rightarrow> (int \<times> bgpd) res option" where
  "nlri_loop rib attr afi safi [] b = Some (Inr (0, b))"
| "nlri_loop rib attr afi safi (len # bs) b =
     (if nlri_len_bad afi len then Some (Inr (- 1, b))
      else if PSIZE (unat len) > length bs then Some (Inr (- 1, b))
      else
        let p = nlri_prefix afi len bs; rest = drop (PSIZE (unat len)) bs in
        if afi = AFI_IP \<and> safi = SAFI_UNICAST \<and> IN_CLASSD p then Some (Inr (- 1, b))
        else if afi = AFI_IP6 \<and> safi = SAFI_UNICAST \<and> IN6_IS_ADDR_LINKLOCAL p
        then nlri_loop rib attr afi safi rest b
        else xbind (rib afi safi p attr b) (\<lambda>(ret, b1).
          if ret < 0 then Some (Inr (- 1, b1)) else nlri_loop rib attr afi safi rest b1))"
  by pat_completeness auto
termination
  by (relation "measure (\<lambda>(rib, attr, afi, safi, bs, b). length bs)") auto

definition bgp_nlri_parse :: "'a rib \<Rightarrow> 'a option \<Rightarrow> bgp_nlri \<Rightarrow> bgpd \<Rightarrow> (int \<times> bgpd) res option" where
  "bgp_nlri_parse rib attr packet b =
     (if status b \<noteq> Established then Some (Inr (0, b))
      else nlri_loop rib attr (nlri_afi packet) (nlri_safi packet) (nlri_bytes packet) b)"

section \<open>The message\<close>

datatype attr_parse_ret = BGP_ATTR_PARSE_PROCEED | BGP_ATTR_PARSE_ERROR | BGP_ATTR_PARSE_WITHDRAW

text \<open>
  The parameters: \<open>bgp_attr_parse\<close> reads attributes of a given total length from the input
  buffer and yields them with two fields of multiprotocol reachability; \<open>bgp_attr_check\<close> looks
  for the mandatory attributes; \<open>bgp_nlri_parse_vpnv4\<close> handles VPN routes.
\<close>

record 'a update_env =
  u_attr_parse :: "nat \<Rightarrow> bgpd \<Rightarrow> (attr_parse_ret \<times> 'a \<times> bgp_nlri \<times> bgp_nlri \<times> bgpd) res option"
  u_attr_none :: 'a
  u_attr_check :: "'a \<Rightarrow> bgpd \<Rightarrow> (int \<times> bgpd) res option"
  u_rib :: "'a rib"
  u_vpnv4 :: "'a option \<Rightarrow> bgp_nlri \<Rightarrow> bgpd \<Rightarrow> bgpd res option"

definition mal_attr :: "bgpd \<Rightarrow> (int \<times> bgpd) res option" where
  "mal_attr b = xbind (bgp_notify_send BGP_NOTIFY_UPDATE_ERR BGP_NOTIFY_UPDATE_MAL_ATTR b) (\<lambda>b1. Some (Inr (- 1, b1)))"

text \<open>A field of the message: its bytes when it has some, and the position behind it.\<close>

definition update_field :: "nat \<Rightarrow> bgpd \<Rightarrow> (u8 list \<times> bgpd) res" where
  "update_field len b =
     (if len = 0 then Inr ([], b)
      else rbind (in_getp b) (\<lambda>g. rbind (in_copy g len b) (\<lambda>bs. rbind (in_forward len b) (\<lambda>b1. Inr (bs, b1)))))"

definition update_check :: "nat \<Rightarrow> bgpd \<Rightarrow> (int \<times> bgpd) res option" where
  "update_check len b =
     (if len = 0 then Some (Inr (0, b))
      else xbind (Some (in_getp b)) (\<lambda>g. xbind (Some (in_copy g len b)) (\<lambda>bs. bgp_nlri_sanity_check AFI_IP bs b)))"

text \<open>A length that is followed by as many bytes before \<open>fin\<close>.\<close>

definition update_len :: "nat \<Rightarrow> bgpd \<Rightarrow> ((nat \<times> bgpd) option \<times> bgpd) res" where
  "update_len fin b =
     rbind (in_getp b) (\<lambda>g.
     if g + 2 > fin then Inr (None, b)
     else rbind (in_w b) (\<lambda>(w, b1). rbind (in_getp b1) (\<lambda>g1.
       Inr (if g1 + unat w > fin then None else Some (unat w, b1), b1))))"

text \<open>The multiprotocol fields for one family, and the end-of-table marker of that family.\<close>

definition update_mp ::
    "('a option \<Rightarrow> bgp_nlri \<Rightarrow> bgpd \<Rightarrow> bgpd res option) \<Rightarrow> nat \<Rightarrow> nat \<Rightarrow> nat \<Rightarrow> 'a option \<Rightarrow> bgp_nlri \<Rightarrow> bgp_nlri \<Rightarrow>
     bgpd \<Rightarrow> bgpd res option" where
  "update_mp parse afi safi wire arg mp_update mp_withdraw b =
     (if \<not> afc b afi safi then Some (Inr b)
      else
        xbind (if nlri_bytes mp_update \<noteq> [] \<and> nlri_afi mp_update = afi \<and> nlri_safi mp_update = wire
               then parse arg mp_update b else Some (Inr b)) (\<lambda>b1.
        if nlri_bytes mp_withdraw \<noteq> [] \<and> nlri_afi mp_withdraw = afi \<and> nlri_safi mp_withdraw = wire
        then parse None mp_withdraw b1 else Some (Inr b1)))"

definition update_eor :: "nat \<Rightarrow> nat \<Rightarrow> bool \<Rightarrow> bgpd \<Rightarrow> bgpd" where
  "update_eor afi safi flag b =
     (let b1 = (if flag then b\<lparr>af_sflags := af_set (af_sflags b) afi safi
                  (SET_FLAG (af_sflags b afi safi) PEER_STATUS_EOR_RECEIVED)\<rparr> else b) in
      if nsf b1 afi safi then ext_call (Clear_Stale_Route afi safi) b1 else b1)"

definition update_mp_eor :: "nat \<Rightarrow> nat \<Rightarrow> bool \<Rightarrow> nat \<Rightarrow> bgp_nlri \<Rightarrow> bgpd \<Rightarrow> bgpd" where
  "update_mp_eor afi safi flag withdraw_len mp_withdraw b =
     (if afc b afi safi \<and> withdraw_len = 0 \<and> nlri_afi mp_withdraw = afi \<and> nlri_safi mp_withdraw = safi \<and>
         nlri_bytes mp_withdraw = []
      then update_eor afi safi flag b else b)"

text \<open>The routes of the message, for each family that is configured. The result of
  \<open>bgp_nlri_parse\<close> is ignored.\<close>

definition nlri_parse_void :: "'a update_env \<Rightarrow> 'a option \<Rightarrow> bgp_nlri \<Rightarrow> bgpd \<Rightarrow> bgpd res option" where
  "nlri_parse_void U attr packet b = xbind (bgp_nlri_parse (u_rib U) attr packet b) (\<lambda>(_, b1). Some (Inr b1))"

definition update_unicast ::
    "'a update_env \<Rightarrow> 'a \<Rightarrow> 'a option \<Rightarrow> u8 list \<Rightarrow> u8 list \<Rightarrow> bgp_nlri \<Rightarrow> bgp_nlri \<Rightarrow> bool \<Rightarrow> bgpd \<Rightarrow>
     (int \<times> bgpd) res option" where
  "update_unicast U attr arg withdraw update mp_update mp_withdraw eor b =
     (let parse = nlri_parse_void U;
          ip = \<lambda>bs. \<lparr>nlri_afi = AFI_IP, nlri_safi = SAFI_UNICAST, nlri_bytes = bs\<rparr> in
      if \<not> afc b AFI_IP SAFI_UNICAST then Some (Inr (0, b))
      else
        xbind (if withdraw \<noteq> [] then parse None (ip withdraw) b else Some (Inr b)) (\<lambda>b1.
        xbind (if update = [] then Some (Inr (0, b1)) else u_attr_check U attr b1) (\<lambda>(ret, b2).
        if ret < 0 then Some (Inr (- 1, b2))
        else
          xbind (if update = [] then Some (Inr b2) else parse arg (ip update) b2) (\<lambda>b3.
          xbind (update_mp parse AFI_IP SAFI_UNICAST SAFI_UNICAST arg mp_update mp_withdraw b3) (\<lambda>b4.
          Some (Inr (0, if eor then update_eor AFI_IP SAFI_UNICAST True b4 else b4)))))))"

definition update_routes ::
    "'a update_env \<Rightarrow> 'a \<Rightarrow> 'a option \<Rightarrow> u8 list \<Rightarrow> u8 list \<Rightarrow> bgp_nlri \<Rightarrow> bgp_nlri \<Rightarrow> nat \<Rightarrow> nat \<Rightarrow> bgpd \<Rightarrow>
     (int \<times> bgpd) res option" where
  "update_routes U attr arg withdraw update mp_update mp_withdraw attribute_len withdraw_len b =
     (let parse = nlri_parse_void U in
      xbind (update_unicast U attr arg withdraw update mp_update mp_withdraw
               (attribute_len = 0 \<and> withdraw_len = 0) b) (\<lambda>(ret, b1).
      if ret < 0 then Some (Inr (- 1, b1))
      else
        xbind (update_mp parse AFI_IP SAFI_MULTICAST SAFI_MULTICAST arg mp_update mp_withdraw b1) (\<lambda>b2.
        let b3 = update_mp_eor AFI_IP SAFI_MULTICAST True withdraw_len mp_withdraw b2 in
        xbind (update_mp parse AFI_IP6 SAFI_UNICAST SAFI_UNICAST arg mp_update mp_withdraw b3) (\<lambda>b4.
        let b5 = update_mp_eor AFI_IP6 SAFI_UNICAST True withdraw_len mp_withdraw b4 in
        xbind (update_mp parse AFI_IP6 SAFI_MULTICAST SAFI_MULTICAST arg mp_update mp_withdraw b5) (\<lambda>b6.
        let b7 = update_mp_eor AFI_IP6 SAFI_MULTICAST False withdraw_len mp_withdraw b6 in
        xbind (update_mp (u_vpnv4 U) AFI_IP SAFI_MPLS_VPN BGP_SAFI_VPNV4 arg mp_update mp_withdraw b7) (\<lambda>b8.
        Some (Inr (0, b8))))))))"

text \<open>The last part: the event is only generated when the session still stands.\<close>

definition update_done :: "bgpd \<Rightarrow> bgpd" where
  "update_done b =
     (if status b \<noteq> Established then b
      else BGP_EVENT_ADD Receive_UPDATE_message
        (b\<lparr>update_in := update_in b + 1, update_time := e_clock (env b)\<rparr>))"

definition update_body :: "'a update_env \<Rightarrow> nat \<Rightarrow> nat \<Rightarrow> u8 list \<Rightarrow> nat \<Rightarrow> bgpd \<Rightarrow> (int \<times> bgpd) res option" where
  "update_body U fin withdraw_len withdraw attribute_len b =
     xbind (if attribute_len = 0 then Some (Inr (BGP_ATTR_PARSE_PROCEED, u_attr_none U, nlri_none, nlri_none, b))
            else u_attr_parse U attribute_len b) (\<lambda>(pret, attr, mp_update, mp_withdraw, b1).
     if pret = BGP_ATTR_PARSE_ERROR then Some (Inr (- 1, b1))
     else
       xbind (Some (in_getp b1)) (\<lambda>g.
       let len = unat (of_nat (size_sub fin g) :: u16) in
       xbind (update_check len b1) (\<lambda>(ret, b2).
       if ret < 0 then Some (Inr (- 1, b2))
       else
         xbind (Some (update_field len b2)) (\<lambda>(update, b3).
         xbind (update_routes U attr (if pret = BGP_ATTR_PARSE_WITHDRAW then None else Some attr) withdraw update
                  mp_update mp_withdraw attribute_len withdraw_len b3) (\<lambda>(ret1, b4).
         if ret1 < 0 then Some (Inr (- 1, b4)) else Some (Inr (0, update_done b4)))))))"

definition bgp_update_receive :: "'a update_env \<Rightarrow> nat \<Rightarrow> bgpd \<Rightarrow> (int \<times> bgpd) res option" where
  "bgp_update_receive U msize b =
     (if status b \<noteq> Established
      then xbind (bgp_notify_send BGP_NOTIFY_FSM_ERR 0 b) (\<lambda>b1. Some (Inr (- 1, b1)))
      else
        xbind (Some (in_getp b)) (\<lambda>g.
        let fin = g + msize in
        xbind (Some (update_len fin b)) (\<lambda>(w, b0).
        case w of
          None \<Rightarrow> mal_attr b0
        | Some (withdraw_len, b1) \<Rightarrow>
            xbind (update_check withdraw_len b1) (\<lambda>(ret, b2).
            if ret < 0 then Some (Inr (- 1, b2))
            else
              xbind (Some (update_field withdraw_len b2)) (\<lambda>(withdraw, b3).
              xbind (Some (update_len fin b3)) (\<lambda>(a, b4).
              case a of
                None \<Rightarrow> mal_attr b4
              | Some (attribute_len, b5) \<Rightarrow> update_body U fin withdraw_len withdraw attribute_len b5))))))"

end
