(* ===== verification/Bgp_Update_Facts.thy ===== *)
theory Bgp_Update_Facts
  imports Bgp_Update
begin

text \<open>
  The reachability fields of UPDATE messages: the check accepts exactly the encodings of
  lists of prefixes, and the parser hands each of them to the routing information base.
\<close>

section \<open>Encoded prefixes\<close>

text \<open>A prefix of the family that has no bytes behind its length.\<close>

definition nlri_ok :: "nat \<Rightarrow> prefix \<Rightarrow> bool" where
  "nlri_ok afi p \<longleftrightarrow> (let k = PSIZE (unat (prefixlen p)) in
     family p = afi2family afi \<and> \<not> nlri_len_bad afi (prefixlen p) \<and>
     length (u_bytes p) = 16 \<and> drop k (u_bytes p) = replicate (16 - k) 0)"

definition nlri_put :: "prefix \<Rightarrow> u8 list" where
  "nlri_put p = prefixlen p # take (PSIZE (unat (prefixlen p))) (u_bytes p)"

definition nlri_field :: "prefix list \<Rightarrow> u8 list" where
  "nlri_field ps = concat (map nlri_put ps)"

lemma nlri_field_simps [simp]:
  "nlri_field [] = []" "nlri_field (p # ps) = nlri_put p @ nlri_field ps"
  by (simp_all add: nlri_field_def)

lemma nlri_size:
  assumes "\<not> nlri_len_bad afi len" "afi = AFI_IP \<or> afi = AFI_IP6"
  shows "PSIZE (unat len) \<le> 16"
proof -
  have "unat len \<le> 128" using assms by (auto simp: nlri_len_bad_def AFI_IP_def AFI_IP6_def word_less_nat_alt not_less)
  then show ?thesis by (simp add: PSIZE_def)
qed

lemma nlri_prefix_put:
  assumes "nlri_ok afi p" "afi = AFI_IP \<or> afi = AFI_IP6"
  shows "nlri_prefix afi (prefixlen p) (take (PSIZE (unat (prefixlen p))) (u_bytes p) @ bs) = p"
proof -
  let ?k = "PSIZE (unat (prefixlen p))"
  have k: "?k \<le> 16" using assms nlri_size [of afi "prefixlen p"] by (simp add: nlri_ok_def Let_def)
  have "take ?k (u_bytes p) @ replicate (16 - ?k) 0 = u_bytes p"
    using assms(1) append_take_drop_id [of ?k "u_bytes p"] by (simp add: nlri_ok_def Let_def)
  then show ?thesis using assms(1) k by (simp add: nlri_prefix_def nlri_ok_def Let_def min_def)
qed

lemma nlri_prefix_ok:
  assumes "\<not> nlri_len_bad afi len" "PSIZE (unat len) \<le> length bs" "afi = AFI_IP \<or> afi = AFI_IP6"
  shows "nlri_ok afi (nlri_prefix afi len bs)" "nlri_put (nlri_prefix afi len bs) = len # take (PSIZE (unat len)) bs"
  using assms nlri_size [OF assms(1,3)] by (simp_all add: nlri_ok_def nlri_prefix_def nlri_put_def Let_def)

lemma nlri_sane_field:
  "list_all (nlri_ok afi) ps \<Longrightarrow> afi = AFI_IP \<or> afi = AFI_IP6 \<Longrightarrow> nlri_sane afi (nlri_field ps)"
proof (induction ps)
  case (Cons p ps)
  have "PSIZE (unat (prefixlen p)) \<le> 16" "length (u_bytes p) = 16" "\<not> nlri_len_bad afi (prefixlen p)"
    using Cons.prems nlri_size [of afi "prefixlen p"] by (simp_all add: nlri_ok_def Let_def)
  then show ?case using Cons by (simp add: nlri_put_def)
qed simp

lemma nlri_sane_decode:
  "nlri_sane afi bs \<Longrightarrow> afi = AFI_IP \<or> afi = AFI_IP6 \<Longrightarrow> \<exists>ps. list_all (nlri_ok afi) ps \<and> bs = nlri_field ps"
proof (induction afi bs rule: nlri_sane.induct)
  case (1 afi)
  then show ?case by (auto intro: exI [of _ "[]"])
next
  case (2 afi len bs)
  let ?k = "PSIZE (unat len)"
  have len: "\<not> nlri_len_bad afi len" "?k \<le> length bs" "nlri_sane afi (drop ?k bs)"
    using 2(2) by (auto split: if_splits)
  then obtain ps where ps: "list_all (nlri_ok afi) ps" "drop ?k bs = nlri_field ps" using 2(1,3) by auto
  let ?p = "nlri_prefix afi len bs"
  have "len # bs = nlri_field (?p # ps)"
    using nlri_prefix_ok(2) [OF len(1,2) 2(3)] ps(2) append_take_drop_id [of ?k bs] by simp
  then show ?case using ps(1) nlri_prefix_ok(1) [OF len(1,2) 2(3)] by (intro exI [of _ "?p # ps"]) simp
qed

text \<open>C25: The syntax check of a reachability field passes, and leaves the peer as it is, exactly when the field is
  the encoding of some list of IPv4 or IPv6 prefixes; in every other case a notification is sent.\<close>

theorem nlri_sanity_check_exact:
  assumes "afi = AFI_IP \<or> afi = AFI_IP6"
  shows "bgp_nlri_sanity_check afi bs b =
    (if \<exists>ps. list_all (nlri_ok afi) ps \<and> bs = nlri_field ps then Some (Inr (0, b))
     else xbind (bgp_notify_send BGP_NOTIFY_UPDATE_ERR BGP_NOTIFY_UPDATE_INVAL_NETWORK b) (\<lambda>b1. Some (Inr (- 1, b1))))"
proof -
  have "nlri_sane afi bs \<longleftrightarrow> (\<exists>ps. list_all (nlri_ok afi) ps \<and> bs = nlri_field ps)"
    using nlri_sane_field [of afi] nlri_sane_decode [of afi bs] assms by auto
  then show ?thesis by (simp only: bgp_nlri_sanity_check_def)
qed

definition prefix_ten :: prefix where
  "prefix_ten = \<lparr>family = AF_INET, prefixlen = 8, u_bytes = 10 # replicate 15 0\<rparr>"

lemma prefix_ten_ok: "nlri_ok AFI_IP prefix_ten" "nlri_put prefix_ten = [8, 10]"
  by code_simp+

theorem nlri_sanity_check_exact_witness: "bgp_nlri_sanity_check AFI_IP [8, 10] bgpd_ex = Some (Inr (0, bgpd_ex))"
proof -
  have "list_all (nlri_ok AFI_IP) [prefix_ten] \<and> [8, 10] = nlri_field [prefix_ten]"
    by (simp add: prefix_ten_ok)
  then have "\<exists>ps. list_all (nlri_ok AFI_IP) ps \<and> [8, 10] = nlri_field ps" by blast
  then show ?thesis using nlri_sanity_check_exact [of AFI_IP "[8, 10]" bgpd_ex] by simp
qed

section \<open>Handing over\<close>

text \<open>The routing information base gets the prefixes one after the other until it refuses one.\<close>

fun rib_all :: "'a rib \<Rightarrow> 'a option \<Rightarrow> nat \<Rightarrow> nat \<Rightarrow> prefix list \<Rightarrow> bgpd \<Rightarrow> (int \<times> bgpd) res option" where
  "rib_all rib attr afi safi [] b = Some (Inr (0, b))"
| "rib_all rib attr afi safi (p # ps) b =
     xbind (rib afi safi p attr b) (\<lambda>(ret, b1).
     if ret < 0 then Some (Inr (- 1, b1)) else rib_all rib attr afi safi ps b1)"

text \<open>An IPv4 multicast prefix ends the parsing; an IPv6 link-local one is skipped.\<close>

definition multicast :: "nat \<Rightarrow> nat \<Rightarrow> prefix \<Rightarrow> bool" where
  "multicast afi safi p \<longleftrightarrow> afi = AFI_IP \<and> safi = SAFI_UNICAST \<and> IN_CLASSD p"

definition linklocal :: "nat \<Rightarrow> nat \<Rightarrow> prefix \<Rightarrow> bool" where
  "linklocal afi safi p \<longleftrightarrow> afi = AFI_IP6 \<and> safi = SAFI_UNICAST \<and> IN6_IS_ADDR_LINKLOCAL p"

lemma nlri_loop_field:
  assumes "afi = AFI_IP \<or> afi = AFI_IP6"
  shows "list_all (nlri_ok afi) ps \<Longrightarrow> list_all (\<lambda>p. \<not> multicast afi safi p) ps \<Longrightarrow>
    nlri_loop rib attr afi safi (nlri_field ps) b = rib_all rib attr afi safi (filter (\<lambda>p. \<not> linklocal afi safi p) ps) b"
proof (induction ps arbitrary: b)
  case (Cons p ps)
  have p: "PSIZE (unat (prefixlen p)) \<le> 16" "length (u_bytes p) = 16" "\<not> nlri_len_bad afi (prefixlen p)"
    using Cons.prems assms nlri_size [of afi "prefixlen p"] by (simp_all add: nlri_ok_def Let_def)
  moreover have "nlri_prefix afi (prefixlen p) (take (PSIZE (unat (prefixlen p))) (u_bytes p) @ nlri_field ps) = p"
    using Cons.prems assms by (intro nlri_prefix_put) simp_all
  moreover have "nlri_loop rib attr afi safi (nlri_field ps) b1 =
      rib_all rib attr afi safi (filter (\<lambda>p. \<not> linklocal afi safi p) ps) b1" for b1
    using Cons by simp
  ultimately show ?case
    using Cons.prems by (simp add: nlri_put_def Let_def split_def cong: if_cong flip: multicast_def linklocal_def)
qed simp

text \<open>C26: For an established session, parsing the encoding of any list of prefixes that has no IPv4 multicast prefix
  hands exactly these prefixes, in their order and with the attributes of the message, to the
  routing information base, leaves out IPv6 link-local ones, and stops when a prefix is refused.\<close>

theorem nlri_parse_hands_over:
  assumes "status b = Established" "afi = AFI_IP \<or> afi = AFI_IP6" "list_all (nlri_ok afi) ps"
    "list_all (\<lambda>p. \<not> multicast afi safi p) ps"
  shows "bgp_nlri_parse rib attr \<lparr>nlri_afi = afi, nlri_safi = safi, nlri_bytes = nlri_field ps\<rparr> b =
    rib_all rib attr afi safi (filter (\<lambda>p. \<not> linklocal afi safi p) ps) b"
  using assms nlri_loop_field [of afi ps safi rib attr b] by (simp add: bgp_nlri_parse_def)

definition rib_ex :: "unit rib" where
  "rib_ex = (\<lambda>afi safi p attr b. Some (Inr (0, b\<lparr>update_time := update_time b + uint (prefixlen p)\<rparr>)))"

theorem nlri_parse_hands_over_witness:
  "\<exists>b'. bgp_nlri_parse rib_ex None \<lparr>nlri_afi = AFI_IP, nlri_safi = SAFI_UNICAST, nlri_bytes = [8, 10, 8, 10]\<rparr>
     (bgpd_ex\<lparr>status := Established\<rparr>) = Some (Inr (0, b')) \<and> update_time b' = 16"
proof -
  have "list_all (\<lambda>p. \<not> multicast AFI_IP SAFI_UNICAST p) [prefix_ten, prefix_ten]"
    "\<not> linklocal AFI_IP SAFI_UNICAST prefix_ten" "prefixlen prefix_ten = 8" by code_simp+
  then show ?thesis
    using nlri_parse_hands_over [of "bgpd_ex\<lparr>status := Established\<rparr>" AFI_IP "[prefix_ten, prefix_ten]" SAFI_UNICAST rib_ex None]
    by (simp add: prefix_ten_ok rib_ex_def bgpd_ex_def)
qed

section \<open>Writing\<close>

lemma nlri_prefix_ok':
  assumes "nlri_ok afi p" "afi = AFI_IP \<or> afi = AFI_IP6"
  shows "prefix_ok p"
  using assms
  by (auto simp: nlri_ok_def Let_def prefix_ok_def afi2family_def nlri_len_bad_def prefix_blen_def prefix_consts AFI_IP_def AFI_IP6_def
      word_less_nat_alt not_less)

lemma put_prefixes:
  assumes "afi = AFI_IP \<or> afi = AFI_IP6"
  shows "list_all (nlri_ok afi) ps \<Longrightarrow> stream_ok s \<Longrightarrow> length (nlri_field ps) \<le> space s \<Longrightarrow>
    put_all (\<lambda>p s. stream_put_prefix s p) ps s = Inr (appended (nlri_field ps) s)"
proof (induction ps arbitrary: s)
  case (Cons p ps)
  let ?k = "PSIZE (unat (prefixlen p))"
  have p: "prefix_ok p" using Cons.prems(1) assms nlri_prefix_ok' [of afi p] by simp
  then have l: "length (nlri_put p) = Suc ?k" using PSIZE_bound [OF p] by (simp add: nlri_put_def)
  have "stream_put_prefix s p = Inr (?k, appended (nlri_put p) s)"
    using stream_put_prefix_spec(2) [OF Cons.prems(2) p] l Cons.prems(3) by (simp add: nlri_put_def)
  moreover have "put_all (\<lambda>p s. stream_put_prefix s p) ps (appended (nlri_put p) s) =
      Inr (appended (nlri_field ps) (appended (nlri_put p) s))"
    using Cons l by (intro Cons.IH) simp_all
  ultimately show ?case using Cons.prems by (simp add: appended_append)
qed (simp add: appended_def)

end
