(* ===== verification/Bgp_Read.thy ===== *)
theory Bgp_Read
  imports Bgp_Update
begin

text \<open>
  The reading side of \<open>bgpd/bgp_packet.c\<close>: the OPEN message with collision detection and the
  transfer of an accepted connection to its configured peer, and \<open>bgp_read\<close>, which collects
  a message from the socket and calls its handler.
\<close>

section \<open>Other peers\<close>

text \<open>
  The configured peers are a list; the handlers that work on one of them use the process state
  of the peer that reads. Two peers have the same address when its printed forms are equal.
\<close>

definition share :: "bgpd \<Rightarrow> bgpd \<Rightarrow> bgpd" where
  "share b r = r\<lparr>streams := streams b, brk := brk b, toDrop := toDrop b, files := files b,
     orf_master := orf_master b, env := env b\<rparr>"

text \<open>The bytes of a \<open>struct in_addr\<close> that is stored as a little-endian number.\<close>

definition ntohl :: "u32 \<Rightarrow> u32" where
  "ntohl w = be_word (rev (be_bytes 4 w))"

definition same_peer :: "bgpd \<Rightarrow> bgpd \<Rightarrow> bool" where
  "same_peer b r \<longleftrightarrow> host_text r = host_text b"

definition BGP_NOTIFY_CEASE_CONNECT_REJECT :: u8 where "BGP_NOTIFY_CEASE_CONNECT_REJECT = 5"
definition BGP_NOTIFY_CEASE_COLLISION_RESOLUTION :: u8 where "BGP_NOTIFY_CEASE_COLLISION_RESOLUTION = 7"
definition BGP_NOTIFY_OPEN_UNSUP_VERSION :: u8 where "BGP_NOTIFY_OPEN_UNSUP_VERSION = 1"
definition BGP_NOTIFY_OPEN_BAD_PEER_AS :: u8 where "BGP_NOTIFY_OPEN_BAD_PEER_AS = 2"
definition BGP_NOTIFY_OPEN_BAD_BGP_IDENT :: u8 where "BGP_NOTIFY_OPEN_BAD_BGP_IDENT = 3"
definition BGP_NOTIFY_OPEN_UNACEP_HOLDTIME :: u8 where "BGP_NOTIFY_OPEN_UNACEP_HOLDTIME = 6"

text \<open>\<open>peers\<close> are the peers other than the reading one.\<close>

fun bgp_collision_detect :: "bgpd list \<Rightarrow> u32 \<Rightarrow> bgpd \<Rightarrow> (int \<times> bgpd list \<times> bgpd) res option" where
  "bgp_collision_detect [] rid b = Some (Inr (0, [], b))"
| "bgp_collision_detect (r # rs) rid b =
     (if (status r = OpenConfirm \<or> status r = OpenSent) \<and> same_peer b r then
        if (be_word (local_id r) :: u32) < ntohl rid then
          if fd r \<ge> 0 then
            xbind (bgp_notify_send BGP_NOTIFY_CEASE BGP_NOTIFY_CEASE_COLLISION_RESOLUTION (share b r)) (\<lambda>r1.
            Some (Inr (1, r1 # rs, share r1 b)))
          else Some (Inr (1, r # rs, b))
        else if fd b \<ge> 0 then
          xbind (bgp_notify_send BGP_NOTIFY_CEASE BGP_NOTIFY_CEASE_COLLISION_RESOLUTION b) (\<lambda>b1.
          Some (Inr (- 1, r # rs, b1)))
        else Some (Inr (- 1, r # rs, b))
      else xbind (bgp_collision_detect rs rid b) (\<lambda>(ret, rs1, b1). Some (Inr (ret, r # rs1, b1))))"

text \<open>
  The configured peer of an accepted connection: one with this remote identifier, else one
  whose identifier is not known. The flag says that a peer has the AS number.
\<close>

definition configured :: "bgpd \<Rightarrow> bgpd \<Rightarrow> bool" where
  "configured b r \<longleftrightarrow> same_peer b r \<and> \<not> CHECK_FLAG (sflags r) PEER_STATUS_ACCEPT_PEER"

definition peer_lookup_with_open :: "bgpd list \<Rightarrow> u32 \<Rightarrow> u32 \<Rightarrow> bgpd \<Rightarrow> nat option \<times> bool" where
  "peer_lookup_with_open peers remote_as rid b =
     (let with_id = \<lambda>i. filter (\<lambda>k. configured b (peers ! k) \<and> peer_as (peers ! k) = remote_as \<and>
                           remote_id (peers ! k) = i) [0..<length peers] in
      ((case with_id rid of k # _ \<Rightarrow> Some k | [] \<Rightarrow> (case with_id 0 of k # _ \<Rightarrow> Some k | [] \<Rightarrow> None)),
       list_ex (\<lambda>r. configured b r \<and> peer_as r = remote_as) peers))"

section \<open>The OPEN message\<close>

record open_msg =
  o_version :: u8
  o_as_bytes :: "u8 list"
  o_as :: u32
  o_holdtime :: u16
  o_id_bytes :: "u8 list"
  o_id :: u32
  o_optlen :: u8
  o_as4 :: u32

text \<open>The fixed part, with the four-byte AS number that the options carry.\<close>

definition open_fields :: "bgpd \<Rightarrow> (open_msg \<times> bgpd) res option" where
  "open_fields b =
     xbind (Some (in_c b)) (\<lambda>(version, b1).
     xbind (Some (in_getp b1)) (\<lambda>g1.
     xbind (Some (in_copy g1 2 b1)) (\<lambda>as_bytes.
     xbind (Some (in_w b1)) (\<lambda>(remote_as, b2).
     xbind (Some (in_w b2)) (\<lambda>(hold, b3).
     xbind (Some (in_getp b3)) (\<lambda>g3.
     xbind (Some (in_copy g3 4 b3)) (\<lambda>id_bytes.
     xbind (Some (in_do stream_get_ipv4 b3)) (\<lambda>(rid, b4).
     xbind (Some (in_c b4)) (\<lambda>(optlen, b5).
     xbind (if optlen \<noteq> 0 then peek_for_as4_capability optlen b5 else Some (Inr (0, b5))) (\<lambda>(as4, b6).
     Some (Inr (\<lparr>o_version = version, o_as_bytes = as_bytes, o_as = ucast remote_as, o_holdtime = hold,
                 o_id_bytes = id_bytes, o_id = rid, o_optlen = optlen, o_as4 = as4\<rparr>, b6))))))))))))"

text \<open>The AS number of the sender: nothing when the two numbers contradict each other.\<close>

definition open_remote_as :: "open_msg \<Rightarrow> bgpd \<Rightarrow> u32 option" where
  "open_remote_as m b =
     (let as4_rcv = CHECK_FLAG (cap b) PEER_CAP_AS4_RCV in
      if as4_rcv \<and> o_as4 m = 0 then None
      else if o_as m = ucast BGP_AS_TRANS then
        if o_as4 m = ucast BGP_AS_TRANS then None
        else Some (if o_as4 m \<noteq> 0 then o_as4 m else o_as m)
      else if as4_rcv \<and> o_as4 m \<noteq> o_as m then None
      else Some (o_as m))"

text \<open>The checks and the negotiation, on the peer that keeps the connection.\<close>

definition refuse :: "u8 \<Rightarrow> u8 list option \<Rightarrow> bgpd \<Rightarrow> (int \<times> bgpd) res option" where
  "refuse sub data b =
     xbind (bgp_notify_send_with_data BGP_NOTIFY_OPEN_ERR sub data b) (\<lambda>b1. Some (Inr (- 1, b1)))"

definition negotiated_holdtime :: "u16 \<Rightarrow> bgpd \<Rightarrow> u32" where
  "negotiated_holdtime hold b = ucast (if hold < send_holdtime b then hold else send_holdtime b)"

definition override_families :: "bgpd \<Rightarrow> bool af" where
  "override_families b =
     (let set = \<lambda>afi safi f. af_set f afi safi (afc b afi safi) in
      set AFI_IP6 SAFI_MULTICAST (set AFI_IP6 SAFI_UNICAST (set AFI_IP SAFI_MULTICAST (set AFI_IP SAFI_UNICAST (afc_nego b)))))"

definition open_accept :: "open_msg \<Rightarrow> u32 \<Rightarrow> bgpd \<Rightarrow> (int \<times> bgpd) res option" where
  "open_accept m remote_as b =
     (if o_id m = 0 \<or> ntohl (o_id m) \<ge> 0xe0000000 \<or> be_word (local_id b) = ntohl (o_id m)
      then refuse BGP_NOTIFY_OPEN_BAD_BGP_IDENT (Some (o_id_bytes m)) b
      else
        let b1 = b\<lparr>remote_id := o_id m\<rparr> in
        if o_version m \<noteq> BGP_VERSION_4 then refuse BGP_NOTIFY_OPEN_UNSUP_VERSION (Some [BGP_VERSION_4]) b1
        else if remote_as \<noteq> peer_as b1 then refuse BGP_NOTIFY_OPEN_BAD_PEER_AS (Some (o_as_bytes m)) b1
        else if o_holdtime m < 3 \<and> o_holdtime m \<noteq> 0 then refuse BGP_NOTIFY_OPEN_UNACEP_HOLDTIME None b1
        else
          let v = negotiated_holdtime (o_holdtime m) b1;
              b2 = b1\<lparr>v_holdtime := v, v_keepalive := v div 3\<rparr> in
          xbind (if o_optlen m \<noteq> 0 then bgp_open_option_parse (o_optlen m) b2 else Some (Inr (0, False, b2)))
            (\<lambda>(ret, capability, b3).
          if ret < 0 then Some (Inr (ret, b3))
          else
            let b4 = (if \<not> capability \<or> CHECK_FLAG (pflags b3) PEER_FLAG_OVERRIDE_CAPABILITY
                      then b3\<lparr>afc_nego := override_families b3\<rparr> else b3);
                b5 = (BGP_EVENT_ADD Receive_OPEN_message (bgp_getsockname b4))\<lparr>packet_size := 0\<rparr> in
            xbind (Some (reset_buf (ibuf b5))) (\<lambda>ib. Some (Inr (0, b5\<lparr>ibuf := ib\<rparr>)))))"

text \<open>
  The transfer of an accepted connection to its configured peer \<open>r\<close>: both sessions are
  stopped, the configured peer takes over the socket, the input buffer and the state.
\<close>

definition open_transfer :: "bgpd \<Rightarrow> bgpd \<Rightarrow> (bgpd \<times> bgpd) res option" where
  "open_transfer r b =
     xbind (bgp_stop (share b r)) (\<lambda>r1.
     let r2 = r1\<lparr>fd := fd b, ibuf := ibuf b, packet_size := packet_size b, status := status b\<rparr> in
     xbind (bgp_stop ((share r2 b)\<lparr>fd := - 1, ibuf := None\<rparr>)) (\<lambda>b1.
     xbind (Some (bgp_open_send (share b1 r2))) (\<lambda>r3. Some (Inr (r3, share r3 b1)))))"

definition open_on_real ::
    "int \<Rightarrow> open_msg \<Rightarrow> u32 \<Rightarrow> bgpd \<Rightarrow> bgpd \<Rightarrow> (int \<times> bgpd \<times> bgpd) res option" where
  "open_on_real coll m remote_as r b =
     (if status r = Established \<and> CHECK_FLAG (sflags r) PEER_STATUS_NSF_MODE \<or>
         \<not> (coll = 0 \<and> status r \<noteq> Active \<and> status r \<noteq> OpenSent \<and> status r \<noteq> OpenConfirm \<and> status r \<noteq> Connect)
      then
        let r0 = (if status r = Established \<and> CHECK_FLAG (sflags r) PEER_STATUS_NSF_MODE
                  then r\<lparr>last_reset := PEER_DOWN_NSF_CLOSE_SESSION, sflags := SET_FLAG (sflags r) PEER_STATUS_NSF_WAIT\<rparr>
                  else r) in
        xbind (open_transfer r0 b) (\<lambda>(r1, b1).
        if fd r1 < 0 then Some (Inr (- 1, r1, b1))
        else xbind (open_accept m remote_as (BGP_READ_ON r1)) (\<lambda>(ret, r2). Some (Inr (ret, r2, share r2 b1))))
      else
        xbind (bgp_notify_send BGP_NOTIFY_CEASE BGP_NOTIFY_CEASE_CONNECT_REJECT b) (\<lambda>b1. Some (Inr (- 1, r, b1))))"

definition open_from :: "bgpd list \<Rightarrow> open_msg \<Rightarrow> u32 \<Rightarrow> bgpd \<Rightarrow> (int \<times> bgpd list \<times> bgpd) res option" where
  "open_from peers m remote_as b =
     (let (real, as_known) = peer_lookup_with_open peers remote_as (o_id m) b;
          accepted = CHECK_FLAG (sflags b) PEER_STATUS_ACCEPT_PEER in
      if accepted \<and> real = None then
        xbind (if as_known then refuse BGP_NOTIFY_OPEN_BAD_BGP_IDENT (Some (o_id_bytes m)) b
               else refuse BGP_NOTIFY_OPEN_BAD_PEER_AS (Some (o_as_bytes m)) b) (\<lambda>(ret, b1).
        Some (Inr (ret, peers, b1)))
      else
        xbind (bgp_collision_detect peers (o_id m) b) (\<lambda>(ret, peers1, b1).
        if ret < 0 then Some (Inr (ret, peers1, b1))
        else if accepted then
          xbind (open_on_real ret m remote_as (peers1 ! the real) b1) (\<lambda>(ret1, r, b2).
          Some (Inr (ret1, peers1[the real := r], b2)))
        else xbind (open_accept m remote_as b1) (\<lambda>(ret1, b2). Some (Inr (ret1, peers1, b2)))))"

definition bgp_open_receive :: "bgpd list \<Rightarrow> bgpd \<Rightarrow> (int \<times> bgpd list \<times> bgpd) res option" where
  "bgp_open_receive peers b =
     xbind (open_fields b) (\<lambda>(m, b1).
     case open_remote_as m b1 of
       None \<Rightarrow> xbind (refuse BGP_NOTIFY_OPEN_BAD_PEER_AS None b1) (\<lambda>(ret, b2). Some (Inr (ret, peers, b2)))
     | Some remote_as \<Rightarrow> open_from peers m remote_as b1)"

section \<open>Collecting a message\<close>

definition BGP_MSG_OPEN_MIN_SIZE :: nat where "BGP_MSG_OPEN_MIN_SIZE = BGP_HEADER_SIZE + 10"
definition BGP_MSG_UPDATE_MIN_SIZE :: nat where "BGP_MSG_UPDATE_MIN_SIZE = BGP_HEADER_SIZE + 4"
definition BGP_MSG_NOTIFY_MIN_SIZE :: nat where "BGP_MSG_NOTIFY_MIN_SIZE = BGP_HEADER_SIZE + 2"
definition BGP_MSG_KEEPALIVE_MIN_SIZE :: nat where "BGP_MSG_KEEPALIVE_MIN_SIZE = BGP_HEADER_SIZE + 0"
definition BGP_MSG_CAPABILITY_MIN_SIZE :: nat where "BGP_MSG_CAPABILITY_MIN_SIZE = BGP_HEADER_SIZE + 3"
definition BGP_MSG_TRUST_MIN_SIZE :: nat where "BGP_MSG_TRUST_MIN_SIZE = BGP_HEADER_SIZE + 0"
definition BGP_MSG_VOTING_PEERS_REQUEST_MIN_SIZE :: nat where "BGP_MSG_VOTING_PEERS_REQUEST_MIN_SIZE = BGP_HEADER_SIZE + 0"
definition BGP_MSG_VOTING_PEERS_RESPONSE_MIN_SIZE :: nat where "BGP_MSG_VOTING_PEERS_RESPONSE_MIN_SIZE = BGP_HEADER_SIZE + 0"
definition BGP_MSG_VOTING_VOTE_REQUEST_MIN_SIZE :: nat where "BGP_MSG_VOTING_VOTE_REQUEST_MIN_SIZE = BGP_HEADER_SIZE + 0"
definition BGP_MSG_VOTING_VOTE_RESPONSE_MIN_SIZE :: nat where "BGP_MSG_VOTING_VOTE_RESPONSE_MIN_SIZE = BGP_HEADER_SIZE + 0"

lemmas msg_min_sizes = BGP_MSG_OPEN_MIN_SIZE_def BGP_MSG_UPDATE_MIN_SIZE_def BGP_MSG_NOTIFY_MIN_SIZE_def
  BGP_MSG_KEEPALIVE_MIN_SIZE_def BGP_MSG_ROUTE_REFRESH_MIN_SIZE_def BGP_MSG_CAPABILITY_MIN_SIZE_def
  BGP_MSG_TRUST_MIN_SIZE_def BGP_MSG_VOTING_PEERS_REQUEST_MIN_SIZE_def
  BGP_MSG_VOTING_PEERS_RESPONSE_MIN_SIZE_def BGP_MSG_VOTING_VOTE_REQUEST_MIN_SIZE_def
  BGP_MSG_VOTING_VOTE_RESPONSE_MIN_SIZE_def

text \<open>The connection is lost while a message is read.\<close>

definition read_closed :: "fsm_event \<Rightarrow> bgpd \<Rightarrow> bgpd" where
  "read_closed e b =
     BGP_EVENT_ADD e
       (if status b \<noteq> Established then b
        else if CHECK_FLAG (sflags b) PEER_STATUS_NSF_MODE
        then b\<lparr>last_reset := PEER_DOWN_NSF_CLOSE_SESSION, sflags := SET_FLAG (sflags b) PEER_STATUS_NSF_WAIT\<rparr>
        else b\<lparr>last_reset := PEER_DOWN_CLOSE_SESSION\<rparr>)"

definition bgp_read_packet :: "(nat \<Rightarrow> io_result) \<Rightarrow> bgpd \<Rightarrow> (int \<times> bgpd) res" where
  "bgp_read_packet rd b =
     (case ibuf b of
        None \<Rightarrow> Inl Null_Deref
      | Some s \<Rightarrow>
          rbind (stream_get_endp s) (\<lambda>e.
          let readsize = size_sub (packet_size b) e in
          if readsize = 0 then Inr (0, b)
          else
            rbind (stream_read_try rd s readsize) (\<lambda>(nbytes, s1).
            let b1 = b\<lparr>ibuf := Some s1\<rparr> in
            if nbytes < 0 then
              if nbytes = - 2 then Inr (- 1, b1) else Inr (- 1, read_closed TCP_fatal_error b1)
            else if nbytes = 0 then Inr (- 1, read_closed TCP_connection_closed b1)
            else if endp s1 \<noteq> packet_size b1 then Inr (- 1, b1)
            else Inr (0, b1))))"

definition bgp_marker_all_one :: "nat \<Rightarrow> bgpd \<Rightarrow> bool res" where
  "bgp_marker_all_one len b = rbind (in_copy 0 len b) (\<lambda>bs. Inr (list_all (\<lambda>x. x = 0xff) bs))"

definition known_type :: "u8 \<Rightarrow> bool" where
  "known_type ty \<longleftrightarrow> ty = BGP_MSG_OPEN \<or> ty = BGP_MSG_UPDATE \<or> ty = BGP_MSG_NOTIFY \<or> ty = BGP_MSG_KEEPALIVE \<or>
     ty = BGP_MSG_ROUTE_REFRESH_NEW \<or> ty = BGP_MSG_ROUTE_REFRESH_OLD \<or> ty = BGP_MSG_CAPABILITY \<or>
     ty = BGP_MSG_TRUST \<or> ty = BGP_MSG_VOTING_PEERS_REQUEST \<or> ty = BGP_MSG_VOTING_VOTE_REQUEST \<or>
     ty = BGP_MSG_VOTING_VOTE_RESPONSE \<or> ty = BGP_MSG_VOTING_PEERS_RESPONSE"

definition bad_length :: "u8 \<Rightarrow> nat \<Rightarrow> bool" where
  "bad_length ty n \<longleftrightarrow> n < BGP_HEADER_SIZE \<or> n > BGP_MAX_PACKET_SIZE \<or>
     ty = BGP_MSG_OPEN \<and> n < BGP_MSG_OPEN_MIN_SIZE \<or>
     ty = BGP_MSG_UPDATE \<and> n < BGP_MSG_UPDATE_MIN_SIZE \<or>
     ty = BGP_MSG_NOTIFY \<and> n < BGP_MSG_NOTIFY_MIN_SIZE \<or>
     ty = BGP_MSG_KEEPALIVE \<and> n \<noteq> BGP_MSG_KEEPALIVE_MIN_SIZE \<or>
     ty = BGP_MSG_ROUTE_REFRESH_NEW \<and> n < BGP_MSG_ROUTE_REFRESH_MIN_SIZE \<or>
     ty = BGP_MSG_ROUTE_REFRESH_OLD \<and> n < BGP_MSG_ROUTE_REFRESH_MIN_SIZE \<or>
     ty = BGP_MSG_CAPABILITY \<and> n < BGP_MSG_CAPABILITY_MIN_SIZE \<or>
     ty = BGP_MSG_TRUST \<and> n < BGP_MSG_TRUST_MIN_SIZE \<or>
     ty = BGP_MSG_VOTING_PEERS_REQUEST \<and> n < BGP_MSG_VOTING_PEERS_REQUEST_MIN_SIZE \<or>
     ty = BGP_MSG_VOTING_VOTE_REQUEST \<and> n < BGP_MSG_VOTING_VOTE_REQUEST_MIN_SIZE \<or>
     ty = BGP_MSG_VOTING_VOTE_RESPONSE \<and> n < BGP_MSG_VOTING_VOTE_RESPONSE_MIN_SIZE \<or>
     ty = BGP_MSG_VOTING_PEERS_RESPONSE \<and> n < BGP_MSG_VOTING_PEERS_RESPONSE_MIN_SIZE"

text \<open>
  The header: whether the rest of the message is to be read. \<open>rd\<close> is the first call of
  \<open>read\<close>.
\<close>

definition read_header :: "(nat \<Rightarrow> io_result) \<Rightarrow> bgpd \<Rightarrow> (bool \<times> bgpd) res option" where
  "read_header rd b =
     xbind (Some (bgp_read_packet rd b)) (\<lambda>(ret, b1).
     if ret < 0 then Some (Inr (False, b1))
     else
       xbind (Some (in_forward BGP_MARKER_SIZE b1)) (\<lambda>b2.
       xbind (Some (in_getp b2)) (\<lambda>g.
       xbind (Some (in_copy g 2 b2)) (\<lambda>len_bytes.
       xbind (Some (in_w b2)) (\<lambda>(len, b3).
       xbind (Some (in_c b3)) (\<lambda>(ty, b4).
       xbind (Some (if ty = BGP_MSG_OPEN \<or> ty = BGP_MSG_KEEPALIVE then bgp_marker_all_one BGP_MARKER_SIZE b4
                    else Inr True)) (\<lambda>sync.
       let stop = \<lambda>m. xbind m (\<lambda>b5. Some (Inr (False, b5))) in
       if \<not> sync then stop (bgp_notify_send BGP_NOTIFY_HEADER_ERR BGP_NOTIFY_HEADER_NOT_SYNC b4)
       else if \<not> known_type ty then
         stop (bgp_notify_send_with_data BGP_NOTIFY_HEADER_ERR BGP_NOTIFY_HEADER_BAD_MESTYPE (Some [ty]) b4)
       else if bad_length ty (unat len) then
         stop (bgp_notify_send_with_data BGP_NOTIFY_HEADER_ERR BGP_NOTIFY_HEADER_BAD_MESLEN (Some len_bytes) b4)
       else Some (Inr (True, b4\<lparr>packet_size := unat len\<rparr>)))))))))"

definition dispatch ::
    "'a update_env \<Rightarrow> bgpd list \<Rightarrow> u8 \<Rightarrow> nat \<Rightarrow> bgpd \<Rightarrow> (bgpd list \<times> bgpd) res option" where
  "dispatch U peers ty msize b =
     (let part = \<lambda>m. xbind m (\<lambda>b1. Some (Inr (peers, b1))); total = \<lambda>r. part (Some r) in
      if ty = BGP_MSG_OPEN then
        xbind (bgp_open_receive peers (b\<lparr>open_in := open_in b + 1\<rparr>)) (\<lambda>(_, peers1, b1). Some (Inr (peers1, b1)))
      else if ty = BGP_MSG_UPDATE then
        part (xbind (bgp_update_receive U msize (b\<lparr>readtime := uint (e_time (env b))\<rparr>)) (\<lambda>(_, b1). Some (Inr b1)))
      else if ty = BGP_MSG_NOTIFY then total (bgp_notify_receive msize b)
      else if ty = BGP_MSG_KEEPALIVE then
        total (Inr (bgp_keepalive_receive (b\<lparr>readtime := uint (e_time (env b))\<rparr>)))
      else if ty = BGP_MSG_ROUTE_REFRESH_NEW \<or> ty = BGP_MSG_ROUTE_REFRESH_OLD then
        part (bgp_route_refresh_receive msize (b\<lparr>refresh_in := refresh_in b + 1\<rparr>))
      else if ty = BGP_MSG_CAPABILITY then
        part (xbind (bgp_capability_receive msize (b\<lparr>dynamic_cap_in := dynamic_cap_in b + 1\<rparr>)) (\<lambda>(_, b1). Some (Inr b1)))
      else if ty = BGP_MSG_TRUST then total (bgp_trust_receive b)
      else if ty = BGP_MSG_VOTING_PEERS_REQUEST then total (bgp_voting_peers_request_receive b)
      else if ty = BGP_MSG_VOTING_VOTE_REQUEST then total (bgp_voting_vote_request_receive b)
      else if ty = BGP_MSG_VOTING_VOTE_RESPONSE then total (bgp_voting_vote_response_receive b)
      else if ty = BGP_MSG_VOTING_PEERS_RESPONSE then total (bgp_voting_peers_response_receive b)
      else Some (Inr (peers, b)))"

text \<open>The rest of the message and its handler; \<open>rd\<close> is the second call of \<open>read\<close>.\<close>

definition read_body ::
    "'a update_env \<Rightarrow> (nat \<Rightarrow> io_result) \<Rightarrow> bgpd list \<Rightarrow> bgpd \<Rightarrow> (bgpd list \<times> bgpd) res option" where
  "read_body U rd peers b =
     xbind (Some (bgp_read_packet rd b)) (\<lambda>(ret, b1).
     if ret < 0 then Some (Inr (peers, b1))
     else
       xbind (Some (case ibuf b1 of None \<Rightarrow> Inl Null_Deref | Some s \<Rightarrow>
         rbind (stream_getw_from s BGP_MARKER_SIZE) (\<lambda>_. stream_getc_from s (BGP_MARKER_SIZE + 2)))) (\<lambda>ty.
       xbind (dispatch U peers ty (unat (of_nat (size_sub (packet_size b1) BGP_HEADER_SIZE) :: u16)) b1) (\<lambda>(peers1, b2).
       xbind (Some (reset_buf (ibuf b2))) (\<lambda>ib. Some (Inr (peers1, b2\<lparr>packet_size := 0, ibuf := ib\<rparr>))))))"

definition read_done :: "bgpd list \<times> bgpd \<Rightarrow> (bgpd list \<times> bgpd) res option" where
  "read_done = (\<lambda>(peers, b).
     if CHECK_FLAG (sflags b) PEER_STATUS_ACCEPT_PEER
     then xbind (peer_delete b) (\<lambda>b1. Some (Inr (peers, b1))) else Some (Inr (peers, b)))"

definition bgp_read ::
    "'a update_env \<Rightarrow> (nat \<Rightarrow> nat \<Rightarrow> io_result) \<Rightarrow> int option \<Rightarrow> bgpd list \<Rightarrow> bgpd \<Rightarrow> (bgpd list \<times> bgpd) res option" where
  "bgp_read U rd sockerr peers b =
     (let b0 = b\<lparr>t_read := None\<rparr> in
      if toDrop b0 = Some (host b0) then read_done (peers, b0)
      else if status b0 = Connect then read_done (peers, bgp_connect_check sockerr b0)
      else if fd b0 < 0 then Some (Inr (peers, b0))
      else
        let b1 = BGP_READ_ON b0;
            b2 = (if packet_size b1 = 0 then b1\<lparr>packet_size := BGP_HEADER_SIZE\<rparr> else b1) in
        xbind (Some (case ibuf b2 of None \<Rightarrow> Inl Null_Deref | Some s \<Rightarrow> stream_get_endp s)) (\<lambda>e.
        xbind (if e < BGP_HEADER_SIZE then read_header (rd 0) b2 else Some (Inr (True, b2))) (\<lambda>(go_on, b3).
        if go_on then xbind (read_body U (rd 1) peers b3) read_done else read_done (peers, b3))))"

end
