(* ===== verification/Bgp_Frame.thy ===== *)
theory Bgp_Frame
  imports Bgp_Read
begin

text \<open>
  What the handlers leave alone. The state, the timers, the hold time and its configuration
  change only in the functions of the state machine and in the acceptance of an OPEN message;
  sending and receiving messages keep them (\<open>same\<close>), and keep the start timer below its limit.
\<close>

section \<open>The session part of the state\<close>

definition sview :: "bgpd \<Rightarrow> bgp_status \<times> u32 option list \<times> (u32 \<times> u32 \<times> u32 \<times> u32 \<times> u32) \<times> u32 \<times> u32" where
  "sview b = (status b,
     [t_start b, t_connect b, t_holdtime b, t_keepalive b, t_asorig b, t_routeadv b, t_gr_restart b, t_gr_stale b],
     (config b, holdtime b, keepalive b, default_holdtime b, default_keepalive b), v_holdtime b, v_keepalive b)"

definition start_ok :: "bgpd \<Rightarrow> bool" where
  "start_ok b \<longleftrightarrow> v_start b \<le> 120"

definition same :: "bgpd \<Rightarrow> bgpd \<Rightarrow> bool" where
  "same b b' \<longleftrightarrow> sview b' = sview b \<and> (start_ok b \<longrightarrow> start_ok b')"

named_theorems frames

lemma same_refl [simp, intro]: "same b b"
  by (simp add: same_def)

lemma same_trans [trans]: "same a b \<Longrightarrow> same b c \<Longrightarrow> same a c"
  by (simp add: same_def)

lemma sview_upd [simp]:
  "sview (b\<lparr>ibuf := x1\<rparr>) = sview b" "sview (b\<lparr>streams := x2\<rparr>) = sview b" "sview (b\<lparr>obuf := x3\<rparr>) = sview b"
  "sview (b\<lparr>brk := x4\<rparr>) = sview b" "sview (b\<lparr>files := x5\<rparr>) = sview b" "sview (b\<lparr>toDrop := x6\<rparr>) = sview b"
  "sview (b\<lparr>events := x7\<rparr>) = sview b" "sview (b\<lparr>calls := x8\<rparr>) = sview b" "sview (b\<lparr>sent := x9\<rparr>) = sview b"
  "sview (b\<lparr>t_write := x10\<rparr>) = sview b" "sview (b\<lparr>t_read := x11\<rparr>) = sview b" "sview (b\<lparr>last_reset := x12\<rparr>) = sview b"
  "sview (b\<lparr>af_cap := x13\<rparr>) = sview b" "sview (b\<lparr>af_sflags := x14\<rparr>) = sview b" "sview (b\<lparr>afc_recv := x15\<rparr>) = sview b"
  "sview (b\<lparr>afc_nego := x16\<rparr>) = sview b" "sview (b\<lparr>afc_adv := x17\<rparr>) = sview b" "sview (b\<lparr>cap := x18\<rparr>) = sview b"
  "sview (b\<lparr>sflags := x19\<rparr>) = sview b" "sview (b\<lparr>orf_master := x20\<rparr>) = sview b" "sview (b\<lparr>orf_plist := x21\<rparr>) = sview b"
  "sview (b\<lparr>v_gr_restart := x22\<rparr>) = sview b" "sview (b\<lparr>packet_size := x23\<rparr>) = sview b" "sview (b\<lparr>remote_id := x24\<rparr>) = sview b"
  "sview (b\<lparr>su_local := x25\<rparr>) = sview b" "sview (b\<lparr>su_remote := x26\<rparr>) = sview b" "sview (b\<lparr>notify_code := x27\<rparr>) = sview b"
  "sview (b\<lparr>notify_subcode := x28\<rparr>) = sview b" "sview (b\<lparr>notify_data := x29\<rparr>) = sview b" "sview (b\<lparr>notify_length := x30\<rparr>) = sview b"
  "sview (b\<lparr>update_time := x31\<rparr>) = sview b" "sview (b\<lparr>readtime := x32\<rparr>) = sview b" "sview (b\<lparr>env := x33\<rparr>) = sview b"
  "sview (b\<lparr>nsf := x34\<rparr>) = sview b" "sview (b\<lparr>fd := x35\<rparr>) = sview b" "sview (b\<lparr>ostatus := x36\<rparr>) = sview b"
  "sview (b\<lparr>work := x37\<rparr>) = sview b" "sview (b\<lparr>uptime := x38\<rparr>) = sview b"
  by (simp_all add: sview_def)

lemma sview_count [simp]:
  "sview (b\<lparr>open_in := x1\<rparr>) = sview b" "sview (b\<lparr>open_out := x2\<rparr>) = sview b" "sview (b\<lparr>update_in := x3\<rparr>) = sview b"
  "sview (b\<lparr>update_out := x4\<rparr>) = sview b" "sview (b\<lparr>keepalive_in := x5\<rparr>) = sview b" "sview (b\<lparr>keepalive_out := x6\<rparr>) = sview b"
  "sview (b\<lparr>notify_in := x7\<rparr>) = sview b" "sview (b\<lparr>notify_out := x8\<rparr>) = sview b" "sview (b\<lparr>refresh_in := x9\<rparr>) = sview b"
  "sview (b\<lparr>refresh_out := x10\<rparr>) = sview b" "sview (b\<lparr>dynamic_cap_in := x11\<rparr>) = sview b" "sview (b\<lparr>dynamic_cap_out := x12\<rparr>) = sview b"
  "sview (b\<lparr>established := x13\<rparr>) = sview b" "sview (b\<lparr>dropped := x14\<rparr>) = sview b" "sview (b\<lparr>synctime := x15\<rparr>) = sview b"
  "sview (b\<lparr>resettime := x16\<rparr>) = sview b" "sview (b\<lparr>t_pmax_restart := x17\<rparr>) = sview b"
  by (simp_all add: sview_def)

lemma start_ok_upd [simp]:
  "start_ok (b\<lparr>ibuf := x1\<rparr>) = start_ok b" "start_ok (b\<lparr>streams := x2\<rparr>) = start_ok b" "start_ok (b\<lparr>obuf := x3\<rparr>) = start_ok b"
  "start_ok (b\<lparr>brk := x4\<rparr>) = start_ok b" "start_ok (b\<lparr>files := x5\<rparr>) = start_ok b" "start_ok (b\<lparr>toDrop := x6\<rparr>) = start_ok b"
  "start_ok (b\<lparr>events := x7\<rparr>) = start_ok b" "start_ok (b\<lparr>calls := x8\<rparr>) = start_ok b" "start_ok (b\<lparr>sent := x9\<rparr>) = start_ok b"
  "start_ok (b\<lparr>t_write := x10\<rparr>) = start_ok b" "start_ok (b\<lparr>t_read := x11\<rparr>) = start_ok b" "start_ok (b\<lparr>last_reset := x12\<rparr>) = start_ok b"
  "start_ok (b\<lparr>af_cap := x13\<rparr>) = start_ok b" "start_ok (b\<lparr>af_sflags := x14\<rparr>) = start_ok b" "start_ok (b\<lparr>afc_recv := x15\<rparr>) = start_ok b"
  "start_ok (b\<lparr>afc_nego := x16\<rparr>) = start_ok b" "start_ok (b\<lparr>afc_adv := x17\<rparr>) = start_ok b" "start_ok (b\<lparr>cap := x18\<rparr>) = start_ok b"
  "start_ok (b\<lparr>sflags := x19\<rparr>) = start_ok b" "start_ok (b\<lparr>orf_master := x20\<rparr>) = start_ok b" "start_ok (b\<lparr>orf_plist := x21\<rparr>) = start_ok b"
  "start_ok (b\<lparr>v_gr_restart := x22\<rparr>) = start_ok b" "start_ok (b\<lparr>packet_size := x23\<rparr>) = start_ok b" "start_ok (b\<lparr>remote_id := x24\<rparr>) = start_ok b"
  "start_ok (b\<lparr>su_local := x25\<rparr>) = start_ok b" "start_ok (b\<lparr>su_remote := x26\<rparr>) = start_ok b" "start_ok (b\<lparr>notify_code := x27\<rparr>) = start_ok b"
  "start_ok (b\<lparr>notify_subcode := x28\<rparr>) = start_ok b" "start_ok (b\<lparr>notify_data := x29\<rparr>) = start_ok b" "start_ok (b\<lparr>notify_length := x30\<rparr>) = start_ok b"
  "start_ok (b\<lparr>update_time := x31\<rparr>) = start_ok b" "start_ok (b\<lparr>readtime := x32\<rparr>) = start_ok b" "start_ok (b\<lparr>env := x33\<rparr>) = start_ok b"
  "start_ok (b\<lparr>nsf := x34\<rparr>) = start_ok b" "start_ok (b\<lparr>fd := x35\<rparr>) = start_ok b" "start_ok (b\<lparr>ostatus := x36\<rparr>) = start_ok b"
  "start_ok (b\<lparr>work := x37\<rparr>) = start_ok b" "start_ok (b\<lparr>uptime := x38\<rparr>) = start_ok b"
  by (simp_all add: start_ok_def)

lemma start_ok_count [simp]:
  "start_ok (b\<lparr>open_in := x1\<rparr>) = start_ok b" "start_ok (b\<lparr>open_out := x2\<rparr>) = start_ok b" "start_ok (b\<lparr>update_in := x3\<rparr>) = start_ok b"
  "start_ok (b\<lparr>update_out := x4\<rparr>) = start_ok b" "start_ok (b\<lparr>keepalive_in := x5\<rparr>) = start_ok b" "start_ok (b\<lparr>keepalive_out := x6\<rparr>) = start_ok b"
  "start_ok (b\<lparr>notify_in := x7\<rparr>) = start_ok b" "start_ok (b\<lparr>notify_out := x8\<rparr>) = start_ok b" "start_ok (b\<lparr>refresh_in := x9\<rparr>) = start_ok b"
  "start_ok (b\<lparr>refresh_out := x10\<rparr>) = start_ok b" "start_ok (b\<lparr>dynamic_cap_in := x11\<rparr>) = start_ok b" "start_ok (b\<lparr>dynamic_cap_out := x12\<rparr>) = start_ok b"
  "start_ok (b\<lparr>established := x13\<rparr>) = start_ok b" "start_ok (b\<lparr>dropped := x14\<rparr>) = start_ok b" "start_ok (b\<lparr>synctime := x15\<rparr>) = start_ok b"
  "start_ok (b\<lparr>resettime := x16\<rparr>) = start_ok b" "start_ok (b\<lparr>t_pmax_restart := x17\<rparr>) = start_ok b"
  by (simp_all add: start_ok_def)

lemma double_start_le: "double_start v \<le> 120"
  using linear [of "v * 2" 120] by (auto simp: double_start_def Let_def)

lemma double_start_view [simp]:
  "sview (b\<lparr>v_start := x\<rparr>) = sview b" "start_ok (b\<lparr>v_start := double_start v\<rparr>)"
  by (simp_all add: sview_def start_ok_def double_start_le)

section \<open>Primitives\<close>

lemma sview_prims [simp]:
  "sview (BGP_EVENT_ADD e b) = sview b" "sview (BGP_EVENT_FLUSH b) = sview b"
  "sview (ext_call c b) = sview b" "sview (BGP_WRITE_ON b) = sview b" "sview (BGP_WRITE_OFF b) = sview b"
  "sview (BGP_READ_ON b) = sview b" "sview (BGP_READ_OFF b) = sview b" "sview (print_file n vs b) = sview b"
  "sview (stream_alloc s b) = sview b" "sview (print_words n ws b) = sview b"
  by (simp_all add: BGP_EVENT_ADD_def BGP_EVENT_FLUSH_def ext_call_def BGP_WRITE_ON_def BGP_WRITE_OFF_def
      BGP_READ_ON_def BGP_READ_OFF_def print_file_def stream_alloc_def print_words_def)

lemma start_ok_prims [simp]:
  "start_ok (BGP_EVENT_ADD e b) = start_ok b" "start_ok (BGP_EVENT_FLUSH b) = start_ok b"
  "start_ok (ext_call c b) = start_ok b" "start_ok (BGP_WRITE_ON b) = start_ok b" "start_ok (BGP_WRITE_OFF b) = start_ok b"
  "start_ok (BGP_READ_ON b) = start_ok b" "start_ok (BGP_READ_OFF b) = start_ok b" "start_ok (print_file n vs b) = start_ok b"
  "start_ok (stream_alloc s b) = start_ok b" "start_ok (print_words n ws b) = start_ok b"
  by (simp_all add: BGP_EVENT_ADD_def BGP_EVENT_FLUSH_def ext_call_def BGP_WRITE_ON_def BGP_WRITE_OFF_def
      BGP_READ_ON_def BGP_READ_OFF_def print_file_def stream_alloc_def print_words_def)

lemma xbindE: "xbind m f = Some (Inr y) \<Longrightarrow> (\<And>x. m = Some (Inr x) \<Longrightarrow> f x = Some (Inr y) \<Longrightarrow> P) \<Longrightarrow> P"
  by auto

lemma rbindE: "rbind m f = Inr y \<Longrightarrow> (\<And>x. m = Inr x \<Longrightarrow> f x = Inr y \<Longrightarrow> P) \<Longrightarrow> P"
  by auto

lemmas bindE = xbindE rbindE

lemmas bind_eqs = xbind_eq_Inr rbind_eq_Inr

lemma in_do_same [frames]: "in_do f b = Inr (x, b') \<Longrightarrow> same b b'"
  unfolding in_do_def
  by (auto simp del: bind_eqs simp: same_def elim!: bindE split: if_splits option.splits)

lemma in_set_getp_same [frames]: "in_set_getp p b = Inr b' \<Longrightarrow> same b b'"
  unfolding in_set_getp_def
  by (auto simp del: bind_eqs simp: same_def elim!: bindE dest!: frames split: if_splits option.splits)

lemma in_forward_same [frames]: "in_forward p b = Inr b' \<Longrightarrow> same b b'"
  unfolding in_forward_def
  by (auto simp del: bind_eqs simp: same_def elim!: bindE dest!: frames split: if_splits option.splits)

lemma packet_add_same [frames]: "bgp_packet_add a b = Inr b' \<Longrightarrow> same b b'"
  unfolding bgp_packet_add_def
  by (auto simp del: bind_eqs simp: same_def elim!: bindE dest!: frames split: if_splits option.splits)

lemma packet_delete_same [frames]: "bgp_packet_delete b = Inr b' \<Longrightarrow> same b b'"
  unfolding bgp_packet_delete_def
  by (auto simp del: bind_eqs simp: same_def elim!: bindE dest!: frames split: if_splits option.splits)

lemma add_packet_same [frames]: "add_packet s b = Inr b' \<Longrightarrow> same b b'"
  unfolding add_packet_def
  by (auto simp del: bind_eqs simp: same_def elim!: bindE dest!: frames split: if_splits option.splits)

lemma add_packet_twice_same [frames]: "add_packet_twice s b = Inr b' \<Longrightarrow> same b b'"
  unfolding add_packet_twice_def
  by (auto simp del: bind_eqs simp: same_def elim!: bindE dest!: frames split: if_splits option.splits)

lemma add_dup_same [frames]: "add_dup s b = Inr b' \<Longrightarrow> same b b'"
  unfolding add_dup_def
  by (auto simp del: bind_eqs simp: same_def elim!: bindE dest!: frames split: if_splits option.splits)

section \<open>Sending\<close>

lemma trust_send_same [frames]: "bgp_trust_send b = Inr b' \<Longrightarrow> same b b'"
  unfolding bgp_trust_send_def Let_def
  by (auto simp del: bind_eqs simp: same_def elim!: bindE dest!: frames split: if_splits option.splits)

lemma voting_peers_request_send_same [frames]: "bgp_voting_peers_request_send b = Inr b' \<Longrightarrow> same b b'"
  unfolding bgp_voting_peers_request_send_def Let_def
  by (auto simp del: bind_eqs simp: same_def elim!: bindE dest!: frames split: if_splits option.splits)

lemma voting_vote_request_send_same [frames]: "bgp_voting_vote_request_send b = Inr b' \<Longrightarrow> same b b'"
  unfolding bgp_voting_vote_request_send_def Let_def
  by (auto simp del: bind_eqs simp: same_def elim!: bindE dest!: frames split: if_splits option.splits)

lemma voting_vote_response_send_same [frames]: "bgp_voting_vote_response_send b = Inr b' \<Longrightarrow> same b b'"
  unfolding bgp_voting_vote_response_send_def Let_def
  by (auto simp del: bind_eqs simp: same_def elim!: bindE dest!: frames split: if_splits option.splits)

lemma voting_peers_response_send_same [frames]: "bgp_voting_peers_response_send b = Inr b' \<Longrightarrow> same b b'"
  unfolding bgp_voting_peers_response_send_def Let_def
  by (auto simp del: bind_eqs simp: same_def elim!: bindE dest!: frames split: if_splits option.splits)

lemma keepalive_votes_same [frames]: "keepalive_votes b = Inr b' \<Longrightarrow> same b b'"
  unfolding keepalive_votes_def Let_def
  by (auto simp del: bind_eqs simp: same_def elim!: bindE dest!: frames split: if_splits option.splits)

lemma keepalive_response_same [frames]: "keepalive_response b = Inr b' \<Longrightarrow> same b b'"
  unfolding keepalive_response_def Let_def
  by (auto simp del: bind_eqs simp: same_def elim!: bindE dest!: frames split: if_splits option.splits)

lemma keepalive_send_same [frames]: "bgp_keepalive_send b = Inr b' \<Longrightarrow> same b b'"
  unfolding bgp_keepalive_send_def Let_def
  by (auto simp del: bind_eqs simp: same_def elim!: bindE dest!: frames split: if_splits option.splits)

lemma route_refresh_send_same [frames]: "bgp_route_refresh_send afi safi ty wh rm b = Inr b' \<Longrightarrow> same b b'"
  unfolding bgp_route_refresh_send_def Let_def
  by (auto simp del: bind_eqs simp: same_def elim!: bindE dest!: frames split: if_splits option.splits)

lemma write_notify_same [frames]: "bgp_write_notify b = Inr b' \<Longrightarrow> same b b'"
  unfolding bgp_write_notify_def c_assert_def Let_def
  by (auto simp del: bind_eqs simp: same_def elim!: bindE dest!: frames split: if_splits option.splits)

lemma notify_data_same [frames]: "bgp_notify_send_with_data c d data b = Some (Inr b') \<Longrightarrow> same b b'"
  unfolding bgp_notify_send_with_data_def Let_def
  by (auto simp del: bind_eqs simp: same_def elim!: bindE dest!: frames split: if_splits option.splits)

lemma notify_send_same [frames]: "bgp_notify_send c d b = Some (Inr b') \<Longrightarrow> same b b'"
  unfolding bgp_notify_send_def
  by (auto simp del: bind_eqs simp: same_def elim!: bindE dest!: frames split: if_splits option.splits)

section \<open>Negotiation\<close>

lemma mp_data_same [frames]: "bgp_capability_mp_data b = Inr (m, b') \<Longrightarrow> same b b'"
  unfolding bgp_capability_mp_data_def
  by (auto simp del: bind_eqs simp: same_def elim!: bindE dest!: frames split: if_splits option.splits)

lemma mp_same [frames]: "bgp_capability_mp b = Inr (ret, b') \<Longrightarrow> same b b'"
  unfolding bgp_capability_mp_def Let_def
  by (auto simp del: bind_eqs simp: same_def elim!: bindE dest!: frames split: if_splits option.splits)

lemma as4_same [frames]: "bgp_capability_as4 b = Inr (as4, b') \<Longrightarrow> same b b'"
  unfolding bgp_capability_as4_def
  by (auto simp del: bind_eqs simp: same_def elim!: bindE dest!: frames split: if_splits option.splits)

lemma orf_pairs_same [frames]: "orf_pairs n code afi safi b = Inr b' \<Longrightarrow> same b b'"
proof (induction n arbitrary: b)
  case (Suc n)
  from Suc.prems obtain ty b1 mode b2 where *: "in_c b = Inr (ty, b1)" "in_c b1 = Inr (mode, b2)" and
    r: "orf_pairs n code afi safi (if orf_supported code afi safi ty mode
        then b2\<lparr>af_cap := af_set (af_cap b2) afi safi (orf_flags code mode (af_cap b2 afi safi))\<rparr> else b2) = Inr b'"
    by auto
  show ?case using Suc.IH [OF r] * [THEN in_do_same] by (simp add: same_def split: if_splits)
qed simp

lemma orf_entry_same [frames]: "bgp_capability_orf_entry code len b = Some (Inr (ret, b')) \<Longrightarrow> same b b'"
  unfolding bgp_capability_orf_entry_def
  by (auto simp del: bind_eqs simp: same_def elim!: bindE dest!: frames split: if_splits option.splits)

text \<open>The loops, by induction on the fixed point: all results of the function satisfy the relation.\<close>

definition rsame :: "('x \<Rightarrow> bgpd) \<Rightarrow> bgpd \<Rightarrow> 'x res \<Rightarrow> bool" where
  "rsame st b r \<longleftrightarrow> (\<forall>x. r = Inr x \<longrightarrow> same b (st x))"

lemma rsameI: "(\<And>x. r = Inr x \<Longrightarrow> same b (st x)) \<Longrightarrow> rsame st b r"
  by (simp add: rsame_def)

lemma rsameD: "rsame st b (Inr x) \<Longrightarrow> same b (st x)"
  by (simp add: rsame_def)

lemma orf_entries_same: "orf_entries code len fin b = Some r \<Longrightarrow> rsame snd b r"
  apply (erule orf_entries.raw_induct [rotated])
  apply (rule rsameI)
  subgoal premises prems using prems(2) unfolding prems(3)
    by (auto simp del: bind_eqs simp: same_def elim!: bindE dest!: frames prems(1) [THEN rsameD] split: if_splits option.splits)
  done

lemma orf_same [frames]: "bgp_capability_orf code len b = Some (Inr (ret, b')) \<Longrightarrow> same b b'"
  unfolding bgp_capability_orf_def
  by (auto simp del: bind_eqs simp: same_def elim!: bindE dest!: frames orf_entries_same rsameD split: if_splits option.splits)

lemma restart_family_view [simp]:
  "sview (restart_family afi safi flag b) = sview b" "start_ok (restart_family afi safi flag b) = start_ok b"
  by (simp_all add: restart_family_def Let_def split: option.split)

lemma restart_loop_same: "restart_loop fin b = Some r \<Longrightarrow> rsame id b r"
  apply (erule restart_loop.raw_induct [rotated])
  apply (rule rsameI)
  subgoal premises prems using prems(2) unfolding prems(3)
    by (auto simp del: bind_eqs simp: same_def elim!: bindE dest!: frames prems(1) [THEN rsameD] split: if_splits option.splits)
  done

lemma restart_same [frames]: "bgp_capability_restart len b = Some (Inr (ret, b')) \<Longrightarrow> same b b'"
  unfolding bgp_capability_restart_def
  by (auto simp del: bind_eqs simp: same_def elim!: bindE dest!: frames restart_loop_same rsameD split: if_splits option.splits)

lemma capability_value_same [frames]: "capability_value sp code len err b = Some (Inr (ret, err', b')) \<Longrightarrow> same b b'"
  unfolding capability_value_def
  by (auto simp del: bind_eqs simp: same_def elim!: bindE dest!: frames split: if_splits option.splits)

lemma capability_loop_same: "capability_loop fin err b = Some r \<Longrightarrow> rsame (snd \<circ> snd) b r"
  apply (erule capability_loop.raw_induct [rotated])
  apply (rule rsameI)
  subgoal premises prems using prems(2) unfolding prems(3)
    by (auto simp del: bind_eqs simp: same_def elim!: bindE dest!: frames prems(1) [THEN rsameD] split: if_splits option.splits)
  done

lemma capability_parse_same [frames]: "bgp_capability_parse len err b = Some (Inr (ret, err', b')) \<Longrightarrow> same b b'"
  unfolding bgp_capability_parse_def
  by (auto simp del: bind_eqs simp: same_def elim!: bindE dest!: frames capability_loop_same rsameD split: if_splits option.splits)

lemma auth_parse_same [frames]: "bgp_auth_parse b = Some (Inr (ret, b')) \<Longrightarrow> same b b'"
  unfolding bgp_auth_parse_def
  by (auto simp del: bind_eqs simp: same_def elim!: bindE dest!: frames split: if_splits option.splits)

lemma peek_caps_same: "peek_caps fin b = Some r \<Longrightarrow> rsame snd b r"
  apply (erule peek_caps.raw_induct [rotated])
  apply (rule rsameI)
  subgoal premises prems using prems(2) unfolding prems(3)
    by (auto simp del: bind_eqs simp: same_def elim!: bindE dest!: frames prems(1) [THEN rsameD] split: if_splits option.splits)
  done

lemma peek_options_same: "peek_options fin b = Some r \<Longrightarrow> rsame snd b r"
  apply (erule peek_options.raw_induct [rotated])
  apply (rule rsameI)
  subgoal premises prems using prems(2) unfolding prems(3)
    by (auto simp del: bind_eqs simp: same_def elim!: bindE dest!: frames prems(1) [THEN rsameD] peek_caps_same rsameD [where st = snd] split: if_splits option.splits)
  done

lemma peek_for_as4_same [frames]: "peek_for_as4_capability len b = Some (Inr (as4, b')) \<Longrightarrow> same b b'"
  unfolding peek_for_as4_capability_def
  by (auto simp del: bind_eqs simp: same_def elim!: bindE dest!: frames peek_options_same rsameD split: if_splits option.splits)

lemma option_loop_same: "option_loop fin err cp b = Some r \<Longrightarrow> rsame (snd \<circ> snd \<circ> snd) b r"
  apply (erule option_loop.raw_induct [rotated])
  apply (rule rsameI)
  subgoal premises prems using prems(2) unfolding prems(3)
    by (auto simp del: bind_eqs simp: same_def elim!: bindE dest!: frames prems(1) [THEN rsameD] split: if_splits option.splits)
  done

lemma unsup_capbl_same [frames]: "unsup_capbl err b = Some (Inr b') \<Longrightarrow> same b b'"
  unfolding unsup_capbl_def
  by (auto simp del: bind_eqs simp: same_def elim!: bindE dest!: frames split: if_splits option.splits)

lemma open_option_parse_same [frames]: "bgp_open_option_parse len b = Some (Inr (ret, c, b')) \<Longrightarrow> same b b'"
  unfolding bgp_open_option_parse_def
  by (auto simp del: bind_eqs simp: same_def elim!: bindE dest!: frames option_loop_same rsameD split: if_splits option.splits)

lemma open_capability_orf_same [frames]: "bgp_open_capability_orf afi safi code (s, b) = Inr (s', b') \<Longrightarrow> same b b'"
  unfolding bgp_open_capability_orf_def Let_def
  by (auto simp del: bind_eqs simp: same_def elim!: bindE dest!: frames split: if_splits option.splits)

lemma open_family_same [frames]: "open_family afi safi wire (s, b) = Inr (s', b') \<Longrightarrow> same b b'"
  unfolding open_family_def
  by (auto simp del: bind_eqs simp: same_def elim!: bindE dest!: frames split: if_splits option.splits)

lemma orf_options_same [frames]: "orf_options afs (s, b) = Inr (s', b') \<Longrightarrow> same b b'"
proof (induction afs arbitrary: s b)
  case (Cons af afs)
  obtain afi safi where af: "af = (afi, safi)" by force
  from Cons.prems obtain s1 b1 where r: "orf_options afs (s1, b1) = Inr (s', b')" and v: "same b b1"
    unfolding af by (auto simp del: bind_eqs simp: same_def elim!: bindE split: if_splits dest!: frames)
  show ?case using Cons.IH [OF r] v by (simp add: same_def)
qed simp

lemma refresh_as4_same [frames]: "refresh_as4_options (s, b) = Inr (s', b') \<Longrightarrow> same b b'"
  unfolding refresh_as4_options_def
  by (auto simp del: bind_eqs simp: same_def elim!: bindE dest!: frames split: if_splits option.splits)

lemma dynamic_restart_same [frames]: "dynamic_restart_options (s, b) = Inr (s', b') \<Longrightarrow> same b b'"
  unfolding dynamic_restart_options_def
  by (auto simp del: bind_eqs simp: same_def elim!: bindE dest!: frames split: if_splits option.splits)

lemma open_capability_same [frames]: "bgp_open_capability (s, b) = Inr (s', b') \<Longrightarrow> same b b'"
  unfolding bgp_open_capability_def
  by (auto simp del: bind_eqs simp: same_def elim!: bindE dest!: frames split: if_splits option.splits)

lemma open_send_same [frames]: "bgp_open_send b = Inr b' \<Longrightarrow> same b b'"
  unfolding bgp_open_send_def
  by (auto simp del: bind_eqs simp: same_def elim!: bindE dest!: frames split: if_splits option.splits)

section \<open>Receiving\<close>

lemma trust_receive_same [frames]: "bgp_trust_receive b = Inr b' \<Longrightarrow> same b b'"
  unfolding bgp_trust_receive_def Let_def
  by (auto simp del: bind_eqs simp: same_def elim!: bindE dest!: frames split: if_splits option.splits)

lemma set_number_same [frames]: "set_number name v b = Inr b' \<Longrightarrow> same b b'"
  unfolding set_number_def
  by (auto simp del: bind_eqs simp: same_def elim!: bindE dest!: frames split: if_splits option.splits)

lemma voting_peers_request_receive_same [frames]: "bgp_voting_peers_request_receive b = Inr b' \<Longrightarrow> same b b'"
  unfolding bgp_voting_peers_request_receive_def Let_def
  by (auto simp del: bind_eqs simp: same_def elim!: bindE dest!: frames split: if_splits option.splits)

lemma voting_vote_request_receive_same [frames]: "bgp_voting_vote_request_receive b = Inr b' \<Longrightarrow> same b b'"
  unfolding bgp_voting_vote_request_receive_def Let_def
  by (auto simp del: bind_eqs simp: same_def elim!: bindE dest!: frames split: if_splits option.splits)

lemma voting_vote_response_receive_same [frames]: "bgp_voting_vote_response_receive b = Inr b' \<Longrightarrow> same b b'"
  unfolding bgp_voting_vote_response_receive_def Let_def
  by (auto simp del: bind_eqs simp: same_def elim!: bindE dest!: frames split: if_splits option.splits)

lemma voting_peers_response_receive_same [frames]: "bgp_voting_peers_response_receive b = Inr b' \<Longrightarrow> same b b'"
  unfolding bgp_voting_peers_response_receive_def Let_def
  by (auto simp del: bind_eqs simp: same_def elim!: bindE dest!: frames split: if_splits option.splits)

lemma notify_receive_same [frames]: "bgp_notify_receive n b = Inr b' \<Longrightarrow> same b b'"
  unfolding bgp_notify_receive_def Let_def
  by (auto simp del: bind_eqs simp: same_def elim!: bindE dest!: frames split: if_splits option.splits)

lemma orf_byte_orf_entry_same [frames]: "orf_entry afi safi p p_end b = Inr (q, b') \<Longrightarrow> same b b'"
  unfolding orf_entry_def Let_def
  by (auto simp del: bind_eqs simp: same_def elim!: bindE dest!: frames split: if_splits option.splits)

lemma orf_loop_same: "orf_loop afi safi p p_end b = Some r \<Longrightarrow> rsame id b r"
  apply (erule orf_loop.raw_induct [rotated])
  apply (rule rsameI)
  subgoal premises prems using prems(2) unfolding prems(3)
    by (auto simp del: bind_eqs simp: same_def elim!: bindE dest!: frames prems(1) [THEN rsameD] split: if_splits option.splits)
  done

lemma refresh_loop_same: "refresh_loop afi safi fin b = Some r \<Longrightarrow> rsame id b r"
  apply (erule refresh_loop.raw_induct [rotated])
  apply (rule rsameI)
  subgoal premises prems using prems(2) unfolding prems(3)
    by (auto simp del: bind_eqs simp: same_def elim!: bindE dest!: frames prems(1) [THEN rsameD] orf_loop_same rsameD [where st = id] split: if_splits option.splits)
  done

lemma refresh_announce_view [simp]:
  "sview (refresh_announce afi safi b) = sview b" "start_ok (refresh_announce afi safi b) = start_ok b"
  "sview (bgp_announce_route afi safi b) = sview b" "start_ok (bgp_announce_route afi safi b) = start_ok b"
  by (simp_all add: refresh_announce_def bgp_announce_route_def)

lemma clear_route_view [simp]:
  "sview (bgp_clear_route afi safi b) = sview b" "start_ok (bgp_clear_route afi safi b) = start_ok b"
  by (simp_all add: bgp_clear_route_def Let_def)

lemma capability_set_view [simp]:
  "sview (capability_set afi safi b) = sview b" "start_ok (capability_set afi safi b) = start_ok b"
  "sview (capability_unset afi safi b) = sview b" "start_ok (capability_unset afi safi b) = start_ok b"
  by (simp_all add: capability_set_def capability_unset_def Let_def)

lemma route_refresh_receive_same [frames]: "bgp_route_refresh_receive n b = Some (Inr b') \<Longrightarrow> same b b'"
  unfolding bgp_route_refresh_receive_def Let_def
  by (auto simp del: bind_eqs simp: same_def elim!: bindE dest!: frames refresh_loop_same rsameD split: if_splits option.splits)

lemma capability_msg_parse_same: "bgp_capability_msg_parse pnt fin b = Some r \<Longrightarrow> rsame snd b r"
  apply (erule bgp_capability_msg_parse.raw_induct [rotated])
  apply (rule rsameI)
  subgoal premises prems using prems(2) unfolding prems(3) Let_def
    by (auto simp del: bind_eqs simp: same_def elim!: bindE dest!: frames prems(1) [THEN rsameD] split: if_splits option.splits)
  done

lemma capability_receive_same [frames]: "bgp_capability_receive n b = Some (Inr (ret, b')) \<Longrightarrow> same b b'"
  unfolding bgp_capability_receive_def
  by (auto simp del: bind_eqs simp: same_def elim!: bindE dest!: frames capability_msg_parse_same rsameD split: if_splits option.splits)

section \<open>UPDATE messages\<close>

text \<open>
  The parser of attributes and the routing information base do not touch the session part of
  a peer; when they refuse a route they send a notification.
\<close>

definition quiet_update :: "'a update_env \<Rightarrow> bool" where
  "quiet_update U \<longleftrightarrow>
     (\<forall>n b x. u_attr_parse U n b = Some (Inr x) \<longrightarrow> same b (snd (snd (snd (snd x))))) \<and>
     (\<forall>a b x. u_attr_check U a b = Some (Inr x) \<longrightarrow> same b (snd x)) \<and>
     (\<forall>afi safi p a b x. u_rib U afi safi p a b = Some (Inr x) \<longrightarrow> same b (snd x)) \<and>
     (\<forall>a n b b'. u_vpnv4 U a n b = Some (Inr b') \<longrightarrow> same b b')"

lemma quiet_updateD:
  assumes "quiet_update U"
  shows "u_attr_parse U n b = Some (Inr (r, a, u, w, b')) \<Longrightarrow> same b b'"
    "u_attr_check U at b = Some (Inr (ret, b')) \<Longrightarrow> same b b'"
    "u_rib U afi safi p arg b = Some (Inr (ret, b')) \<Longrightarrow> same b b'"
    "u_vpnv4 U arg nl b = Some (Inr b') \<Longrightarrow> same b b'"
  using assms unfolding quiet_update_def by (metis snd_conv)+

lemma nlri_sanity_same [frames]: "bgp_nlri_sanity_check afi bs b = Some (Inr (ret, b')) \<Longrightarrow> same b b'"
  unfolding bgp_nlri_sanity_check_def
  by (auto simp del: bind_eqs simp: same_def elim!: bindE dest!: frames split: if_splits option.splits)

lemma nlri_loop_same:
  assumes U: "quiet_update U"
  shows "nlri_loop (u_rib U) attr afi safi bs b = Some (Inr (ret, b')) \<Longrightarrow> same b b'"
proof (induction bs arbitrary: b afi safi rule: length_induct)
  case (1 bs)
  show ?case
  proof (cases bs)
    case Nil
    then show ?thesis using 1(2) by simp
  next
    case (Cons len rest)
    let ?rest = "drop (PSIZE (unat len)) rest"
    have IH: "nlri_loop (u_rib U) attr afi safi ?rest b1 = Some (Inr (ret, b')) \<Longrightarrow> same b1 b'" for b1 afi safi
      using 1(1) [rule_format, of ?rest afi safi b1] Cons by simp
    show ?thesis using 1(2) unfolding Cons nlri_loop.simps Let_def
      by (auto simp del: bind_eqs simp: same_def elim!: bindE dest!: quiet_updateD(3) [OF U] IH split: if_splits)
  qed
qed

lemma nlri_parse_same:
  assumes "quiet_update U" "bgp_nlri_parse (u_rib U) attr p b = Some (Inr (ret, b'))"
  shows "same b b'"
  using assms nlri_loop_same [OF assms(1)] by (auto simp: bgp_nlri_parse_def split: if_splits)

lemma update_field_same [frames]: "update_field n b = Inr (bs, b') \<Longrightarrow> same b b'"
  unfolding update_field_def by (auto simp del: bind_eqs elim!: bindE dest!: frames split: if_splits)

lemma update_check_same [frames]: "update_check n b = Some (Inr (ret, b')) \<Longrightarrow> same b b'"
  unfolding update_check_def by (auto simp del: bind_eqs elim!: bindE dest!: frames split: if_splits)

lemma update_len_same [frames]:
  "update_len fin b = Inr (None, b') \<Longrightarrow> same b b'"
  "update_len fin b = Inr (Some (n, b1), b') \<Longrightarrow> same b b' \<and> same b b1"
  unfolding update_len_def by (auto simp del: bind_eqs elim!: bindE dest!: frames split: if_splits)

lemma mal_attr_same [frames]: "mal_attr b = Some (Inr (ret, b')) \<Longrightarrow> same b b'"
  unfolding mal_attr_def by (auto simp del: bind_eqs elim!: bindE dest!: frames)

lemma update_eor_view [simp]:
  "sview (update_eor afi safi fl b) = sview b" "start_ok (update_eor afi safi fl b) = start_ok b"
  "sview (update_mp_eor afi safi fl n w b) = sview b" "start_ok (update_mp_eor afi safi fl n w b) = start_ok b"
  "sview (update_done b) = sview b" "start_ok (update_done b) = start_ok b"
  by (simp_all add: update_eor_def update_mp_eor_def update_done_def Let_def)

lemma update_mp_same:
  assumes "\<And>a n b b'. parse a n b = Some (Inr b') \<Longrightarrow> same b b'"
    and "update_mp parse afi safi wire arg u w b = Some (Inr b')"
  shows "same b b'"
  using assms(2) unfolding update_mp_def
  by (auto simp del: bind_eqs simp: same_def elim!: bindE dest!: assms(1) split: if_splits)

lemma parse_void_same: "quiet_update U \<Longrightarrow> nlri_parse_void U a n b = Some (Inr b') \<Longrightarrow> same b b'"
  by (auto simp: nlri_parse_void_def dest: nlri_parse_same)

lemma mp_void_same:
  "quiet_update U \<Longrightarrow> update_mp (nlri_parse_void U) afi safi wire arg u w b = Some (Inr b') \<Longrightarrow> same b b'"
  by (erule update_mp_same [rotated]) (rule parse_void_same)

lemma mp_vpnv4_same:
  "quiet_update U \<Longrightarrow> update_mp (u_vpnv4 U) afi safi wire arg u w b = Some (Inr b') \<Longrightarrow> same b b'"
  by (erule update_mp_same [rotated]) (rule quiet_updateD(4))

lemma update_unicast_same:
  assumes "quiet_update U" "update_unicast U attr arg wi up u w eor b = Some (Inr (ret, b'))"
  shows "same b b'"
  using assms(2) unfolding update_unicast_def Let_def
  by (auto simp del: bind_eqs simp: same_def elim!: bindE split: if_splits
      dest!: parse_void_same [OF assms(1)] quiet_updateD [OF assms(1)] mp_void_same [OF assms(1)])

lemma update_routes_same:
  assumes "quiet_update U" "update_routes U attr arg wi up u w al wl b = Some (Inr (ret, b'))"
  shows "same b b'"
  using assms(2) unfolding update_routes_def Let_def
  by (auto simp del: bind_eqs simp: same_def elim!: bindE split: if_splits
      dest!: update_unicast_same [OF assms(1)] mp_void_same [OF assms(1)]
        mp_vpnv4_same [OF assms(1)])

lemma update_body_same:
  assumes "quiet_update U" "update_body U fin wl wi al b = Some (Inr (ret, b'))"
  shows "same b b'"
  using assms(2) unfolding update_body_def Let_def
  by (auto simp del: bind_eqs simp: same_def elim!: bindE split: if_splits
      dest!: update_routes_same [OF assms(1)] quiet_updateD [OF assms(1)] frames)

lemma update_receive_same:
  assumes "quiet_update U" "bgp_update_receive U n b = Some (Inr (ret, b'))"
  shows "same b b'"
  using assms(2) unfolding bgp_update_receive_def Let_def
  by (auto simp del: bind_eqs simp: same_def elim!: bindE split: if_splits option.splits prod.splits
      dest!: update_body_same [OF assms(1)] frames)

section \<open>Writing\<close>

lemma count_sent_view [simp]: "sview (count_sent ty b) = sview b" "start_ok (count_sent ty b) = start_ok b"
  by (simp_all add: count_sent_def)

lemma connect_check_view [simp]:
  "sview (bgp_connect_check e b) = sview b" "start_ok (bgp_connect_check e b) = start_ok b"
  by (simp_all add: bgp_connect_check_def Let_def split: option.split)

definition quiet_gen :: "(bgpd \<Rightarrow> (addr option \<times> bgpd) res) \<Rightarrow> bool" where
  "quiet_gen gen \<longleftrightarrow> (\<forall>b x. gen b = Inr x \<longrightarrow> same b (snd x))"

lemma write_packet_same: "quiet_gen gen \<Longrightarrow> bgp_write_packet gen b = Inr (x, b') \<Longrightarrow> same b b'"
  by (auto simp: bgp_write_packet_def quiet_gen_def split: option.splits)

lemma write_loop_same:
  assumes "quiet_gen gen"
  shows "write_loop gen wr cnt a b = Inr (go, b') \<Longrightarrow> same b b'"
proof (induction "BGP_WRITE_PACKET_MAX - cnt" arbitrary: cnt a b)
  case 0
  show ?case using 0(2) unfolding write_loop.simps [of gen wr cnt] Let_def
    using 0(1) by (auto simp del: bind_eqs simp: same_def elim!: bindE dest!: frames
        split: if_splits option.splits write_result.splits prod.splits)
next
  case (Suc n)
  have IH: "write_loop gen wr (Suc cnt) a1 b1 = Inr (go, b') \<Longrightarrow> same b1 b'" for a1 b1
    using Suc(1) [of "Suc cnt" a1 b1] Suc(2) by simp
  show ?case using Suc(3) unfolding write_loop.simps [of gen wr cnt] Let_def
    by (auto simp del: bind_eqs simp: same_def elim!: bindE dest!: frames IH write_packet_same [OF assms]
        split: if_splits option.splits write_result.splits prod.splits)
qed

lemma write_same:
  assumes "quiet_gen gen" "bgp_write gen up wr se b = Inr b'"
  shows "same b b'"
  using assms(2) unfolding bgp_write_def Let_def
  by (auto simp del: bind_eqs simp: same_def elim!: bindE dest!: write_loop_same [OF assms(1)] write_packet_same [OF assms(1)]
      split: if_splits option.splits prod.splits)

end
