(* ===== verification/Bgp_Session.thy ===== *)
theory Bgp_Session
  imports Bgp_Frame
begin

text \<open>
  The sessions of a daemon: the creation of peers and the commands that change them
  (\<open>bgpd/bgpd.c\<close>), the acceptance of connections (\<open>bgpd/bgp_network.c\<close>), and a step relation
  that interleaves all handlers of all peers in any order.
\<close>

section \<open>Creating peers\<close>

definition BGP_DEFAULT_HOLDTIME :: u32 where "BGP_DEFAULT_HOLDTIME = 180"
definition BGP_DEFAULT_KEEPALIVE :: u32 where "BGP_DEFAULT_KEEPALIVE = 60"
definition BGP_DEFAULT_EBGP_ROUTEADV :: u32 where "BGP_DEFAULT_EBGP_ROUTEADV = 30"
definition BGP_DEFAULT_IBGP_ROUTEADV :: u32 where "BGP_DEFAULT_IBGP_ROUTEADV = 5"
definition BGP_DEFAULT_CONNECT_RETRY :: u32 where "BGP_DEFAULT_CONNECT_RETRY = 120"

text \<open>\<open>b\<close> is any peer of the process; the new one shares its process-wide state.\<close>

definition peer_new :: "bgpd \<Rightarrow> bgpd res" where
  "peer_new b =
     rbind (stream_new (junk (env b)) BGP_MAX_PACKET_SIZE) (\<lambda>ib.
     rbind (stream_new (junk (env b)) BGP_MAX_PACKET_SIZE) (\<lambda>wb.
     Inr \<lparr>host = 0, host_text = [], peer_as = 0, local_as = 0, change_local_as = 0, local_id = [0, 0, 0, 0],
          pflags = 0, config = 0, holdtime = 0, keepalive = 0, afc = (\<lambda>_ _. False), af_flags = (\<lambda>_ _. 0),
          plist_in = (\<lambda>_ _. None), sflags = PEER_STATUS_CAPABILITY_OPEN, cap = 0, af_cap = (\<lambda>_ _. 0),
          af_sflags = (\<lambda>_ _. 0), nsf = (\<lambda>_ _. False), afc_nego = (\<lambda>_ _. False), afc_adv = (\<lambda>_ _. False),
          afc_recv = (\<lambda>_ _. False), orf_plist = (\<lambda>_ _. None), remote_id = 0, su_local = None, su_remote = None,
          v_start = BGP_INIT_START_TIMER, v_connect = BGP_DEFAULT_CONNECT_RETRY, v_holdtime = 0, v_keepalive = 0,
          v_routeadv = 0, v_gr_restart = 0, t_read = None, t_write = None, t_start = None, t_connect = None,
          t_holdtime = None, t_keepalive = None, t_asorig = None, t_routeadv = None, t_pmax_restart = None,
          t_gr_restart = None, t_gr_stale = None, status = Idle, ostatus = Idle, fd = - 1, ibuf = Some ib,
          work = Some wb, obuf = stream_fifo_new, packet_size = 0, last_reset = 0, notify_code = 0,
          notify_subcode = 0, notify_data = None, notify_length = 0, uptime = 0, resettime = 0, readtime = 0,
          synctime = 0, update_time = 0, established = 0, dropped = 0, open_in = 0, open_out = 0, update_in = 0,
          update_out = 0, keepalive_in = 0, keepalive_out = 0, notify_in = 0, notify_out = 0, refresh_in = 0,
          refresh_out = 0, dynamic_cap_in = 0, dynamic_cap_out = 0, \<dots> = peer.more b\<rparr>))"

text \<open>
  A peer from the configuration. \<open>rid\<close> is the router identifier, \<open>ibgp\<close> says that
  \<open>peer_sort\<close> finds an internal peer; \<open>h\<close> and \<open>addr\<close> are the pointer and the text of the address.
\<close>

definition peer_create ::
    "nat \<Rightarrow> string \<Rightarrow> u32 \<Rightarrow> u32 \<Rightarrow> u8 list \<Rightarrow> nat \<Rightarrow> nat \<Rightarrow> bool \<Rightarrow> bgpd \<Rightarrow> bgpd res" where
  "peer_create h addr las ras rid afi safi ibgp b =
     rbind (peer_new b) (\<lambda>p.
     let p1 = p\<lparr>local_as := las, peer_as := ras, local_id := rid, v_holdtime := default_holdtime b,
                v_keepalive := default_keepalive b,
                v_routeadv := (if ibgp then BGP_DEFAULT_IBGP_ROUTEADV else BGP_DEFAULT_EBGP_ROUTEADV)\<rparr>;
         p2 = (if afi \<noteq> 0 \<and> safi \<noteq> 0 then p1\<lparr>afc := af_set (afc p1) afi safi True\<rparr> else p1);
         p3 = p2\<lparr>readtime := e_clock (env b), resettime := e_clock (env b), host := h, host_text := addr\<rparr> in
     Inr (if \<not> peer_active p1 \<and> peer_active p3 then bgp_timer_set p3 else p3))"

text \<open>
  A connection that was accepted from the address of a configured peer gets a peer of
  its own until its OPEN message is read. The result is nothing when it is closed at once.
\<close>

definition bgp_accept :: "int \<Rightarrow> nat \<Rightarrow> bgpd option \<Rightarrow> bgpd \<Rightarrow> bgpd option res" where
  "bgp_accept sock h peer1 b =
     (if sock < 0 then Inr None
      else
        case peer1 of
          None \<Rightarrow> Inr None
        | Some r \<Rightarrow>
            if status r = Idle then Inr None
            else
              rbind (peer_new b) (\<lambda>p.
              Inr (Some (BGP_EVENT_ADD TCP_connection_open
                (p\<lparr>sflags := SET_FLAG (sflags p) PEER_STATUS_ACCEPT_PEER, fd := sock, status := Active,
                   local_id := local_id r, v_holdtime := v_holdtime r, v_keepalive := v_keepalive r,
                   host := h, host_text := host_text r\<rparr>)))))"

section \<open>Commands\<close>

definition bgp_timers_set :: "u32 \<Rightarrow> u32 \<Rightarrow> bgpd \<Rightarrow> bgpd" where
  "bgp_timers_set keep hold b =
     b\<lparr>default_keepalive := (if keep < hold div 3 then keep else hold div 3), default_holdtime := hold\<rparr>"

definition bgp_timers_unset :: "bgpd \<Rightarrow> bgpd" where
  "bgp_timers_unset b = b\<lparr>default_keepalive := BGP_DEFAULT_KEEPALIVE, default_holdtime := BGP_DEFAULT_HOLDTIME\<rparr>"

text \<open>The command \<open>timers bgp\<close> checks the hold time before; both arguments are at most 65535.\<close>

definition bgp_timers :: "u16 \<Rightarrow> u16 \<Rightarrow> bgpd \<Rightarrow> bgpd" where
  "bgp_timers keep hold b = (if hold < 3 \<and> hold \<noteq> 0 then b else bgp_timers_set (ucast keep) (ucast hold) b)"

text \<open>The timers of a peer that is not a member of a peer group.\<close>

definition peer_timers_set :: "u32 \<Rightarrow> u32 \<Rightarrow> bgpd \<Rightarrow> bgpd" where
  "peer_timers_set keep hold b =
     (if keep > 65535 \<or> hold > 65535 \<or> hold < 3 \<and> hold \<noteq> 0 then b
      else b\<lparr>config := SET_FLAG (config b) PEER_CONFIG_TIMER, holdtime := hold,
             keepalive := (if keep < hold div 3 then keep else hold div 3)\<rparr>)"

definition peer_timers_unset :: "bgpd \<Rightarrow> bgpd" where
  "peer_timers_unset b = b\<lparr>config := UNSET_FLAG (config b) PEER_CONFIG_TIMER, keepalive := 0, holdtime := 0\<rparr>"

definition peer_clear :: "bgpd \<Rightarrow> bgpd res option" where
  "peer_clear b =
     (if CHECK_FLAG (pflags b) PEER_FLAG_SHUTDOWN then Some (Inr b)
      else if CHECK_FLAG (sflags b) PEER_STATUS_PREFIX_OVERFLOW
      then Some (Inr (BGP_EVENT_ADD BGP_Start
             (b\<lparr>sflags := UNSET_FLAG (sflags b) PEER_STATUS_PREFIX_OVERFLOW, t_pmax_restart := None\<rparr>)))
      else
        let b1 = b\<lparr>v_start := BGP_INIT_START_TIMER\<rparr> in
        if status b1 = Established then bgp_notify_send BGP_NOTIFY_CEASE BGP_NOTIFY_CEASE_ADMIN_RESET b1
        else Some (Inr (BGP_EVENT_ADD BGP_Stop b1)))"

text \<open>
  The flags that a command can change, with those whose change resets the session; a peer that
  is not a member of a peer group.
\<close>

definition PEER_FLAG_DISABLE_CONNECTED_CHECK :: u32 where "PEER_FLAG_DISABLE_CONNECTED_CHECK = 0x40"
definition PEER_DOWN_CAPABILITY_CHANGE :: nat where "PEER_DOWN_CAPABILITY_CHANGE = 19"
definition PEER_DOWN_PASSIVE_CHANGE :: nat where "PEER_DOWN_PASSIVE_CHANGE = 20"
definition PEER_DOWN_MULTIHOP_CHANGE :: nat where "PEER_DOWN_MULTIHOP_CHANGE = 21"
definition BGP_ERR_INVALID_FLAG :: int where "BGP_ERR_INVALID_FLAG = - 2"
definition BGP_ERR_PEER_FLAG_CONFLICT :: int where "BGP_ERR_PEER_FLAG_CONFLICT = - 19"

definition peer_flag_action_list :: "(u32 \<times> bool) list" where
  "peer_flag_action_list =
     [(PEER_FLAG_PASSIVE, True), (PEER_FLAG_SHUTDOWN, True), (PEER_FLAG_DONT_CAPABILITY, False),
      (PEER_FLAG_OVERRIDE_CAPABILITY, False), (PEER_FLAG_STRICT_CAP_MATCH, False),
      (PEER_FLAG_DYNAMIC_CAPABILITY, True), (PEER_FLAG_DISABLE_CONNECTED_CHECK, True)]"

definition peer_flag_action_set :: "u32 \<Rightarrow> bool \<times> bool" where
  "peer_flag_action_set flag =
     (let found = filter (\<lambda>(f, reset). CHECK_FLAG f flag) peer_flag_action_list
      in (found \<noteq> [], list_ex snd found))"

definition peer_flag_modify_action :: "u32 \<Rightarrow> bgpd \<Rightarrow> bgpd res option" where
  "peer_flag_modify_action flag b =
     (if flag = PEER_FLAG_SHUTDOWN then
        if CHECK_FLAG (pflags b) flag then
          let b1 = (if CHECK_FLAG (sflags b) PEER_STATUS_NSF_WAIT then peer_nsf_stop b else b);
              b2 = b1\<lparr>sflags := UNSET_FLAG (sflags b1) PEER_STATUS_PREFIX_OVERFLOW, t_pmax_restart := None\<rparr>;
              b3 = (if CHECK_FLAG (sflags b2) PEER_STATUS_NSF_WAIT then peer_nsf_stop b2 else b2) in
          if status b3 = Established then bgp_notify_send BGP_NOTIFY_CEASE BGP_NOTIFY_CEASE_ADMIN_SHUTDOWN b3
          else Some (Inr (BGP_EVENT_ADD BGP_Stop b3))
        else Some (Inr (BGP_EVENT_ADD BGP_Stop (b\<lparr>v_start := BGP_INIT_START_TIMER\<rparr>)))
      else if status b = Established then
        let b1 = (if flag = PEER_FLAG_DYNAMIC_CAPABILITY then b\<lparr>last_reset := PEER_DOWN_CAPABILITY_CHANGE\<rparr>
                  else if flag = PEER_FLAG_PASSIVE then b\<lparr>last_reset := PEER_DOWN_PASSIVE_CHANGE\<rparr>
                  else if flag = PEER_FLAG_DISABLE_CONNECTED_CHECK then b\<lparr>last_reset := PEER_DOWN_MULTIHOP_CHANGE\<rparr>
                  else b) in
        bgp_notify_send BGP_NOTIFY_CEASE BGP_NOTIFY_CEASE_CONFIG_CHANGE b1
      else Some (Inr (BGP_EVENT_ADD BGP_Stop b)))"

definition peer_flag_modify :: "u32 \<Rightarrow> bool \<Rightarrow> bgpd \<Rightarrow> (int \<times> bgpd) res option" where
  "peer_flag_modify flag on b =
     (let (found, reset) = peer_flag_action_set flag in
      if \<not> found then Some (Inr (BGP_ERR_INVALID_FLAG, b))
      else if on \<and> CHECK_FLAG (pflags b OR flag) PEER_FLAG_STRICT_CAP_MATCH \<and>
              CHECK_FLAG (pflags b OR flag) PEER_FLAG_OVERRIDE_CAPABILITY
      then Some (Inr (BGP_ERR_PEER_FLAG_CONFLICT, b))
      else if on \<and> pflags b AND flag = flag \<or> \<not> on \<and> \<not> CHECK_FLAG (pflags b) flag then Some (Inr (0, b))
      else
        let b1 = b\<lparr>pflags := (if on then SET_FLAG (pflags b) flag else UNSET_FLAG (pflags b) flag)\<rparr> in
        if reset then xbind (peer_flag_modify_action flag b1) (\<lambda>b2. Some (Inr (0, b2)))
        else Some (Inr (0, b1)))"

text \<open>The route clearing in the background has finished (\<open>bgp_route.c\<close>).\<close>

definition bgp_clear_node_complete :: "bgpd \<Rightarrow> bgpd" where
  "bgp_clear_node_complete b = BGP_EVENT_ADD Clearing_Completed b"

text \<open>The maximum-prefix restart timer (\<open>bgp_route.c\<close>).\<close>

definition bgp_maximum_prefix_restart_timer :: "bgpd \<Rightarrow> bgpd res option" where
  "bgp_maximum_prefix_restart_timer b = peer_clear (b\<lparr>t_pmax_restart := None\<rparr>)"

section \<open>Steps\<close>

text \<open>
  What can happen to one peer: the scheduler runs the oldest of its events, a timer that is
  armed expires, the socket is ready for writing, the background clearing ends, a command is
  given. Code that makes UPDATE packets and the system calls are parameters of the step.
\<close>

datatype action = Run_Event | Start_Timer | Connect_Timer | Holdtime_Timer | Keepalive_Timer | Routeadv_Timer
  | Restart_Timer | Stale_Timer | Pmax_Timer
  | Write "bgpd \<Rightarrow> (addr option \<times> bgpd) res" "bgpd \<Rightarrow> bool" "nat \<Rightarrow> u8 list \<Rightarrow> write_result" "int option"
  | Clear_Done | Delete_Peer | Set_Timers u32 u32 | Unset_Timers | Clear_Peer | Modify_Flag u32 bool

definition when_armed :: "'t option \<Rightarrow> bgpd res option \<Rightarrow> bgpd res option" where
  "when_armed t m = (if t = None then None else m)"

definition value_of :: "(int \<times> bgpd) res option \<Rightarrow> bgpd res option" where
  "value_of m = xbind m (\<lambda>(_, b). Some (Inr b))"

definition session_act :: "action \<Rightarrow> bgpd \<Rightarrow> bgpd res option" where
  "session_act a b =
     (case a of
        Run_Event \<Rightarrow> (case events b of [] \<Rightarrow> None | e # es \<Rightarrow> value_of (bgp_event e (b\<lparr>events := es\<rparr>)))
      | Start_Timer \<Rightarrow> when_armed (t_start b) (value_of (bgp_start_timer b))
      | Connect_Timer \<Rightarrow> when_armed (t_connect b) (value_of (bgp_connect_timer b))
      | Holdtime_Timer \<Rightarrow> when_armed (t_holdtime b) (value_of (bgp_holdtime_timer b))
      | Keepalive_Timer \<Rightarrow> when_armed (t_keepalive b) (value_of (bgp_keepalive_timer b))
      | Routeadv_Timer \<Rightarrow> when_armed (t_routeadv b) (Some (Inr (bgp_routeadv_timer b)))
      | Restart_Timer \<Rightarrow> when_armed (t_gr_restart b) (Some (Inr (bgp_graceful_restart_timer_expire b)))
      | Stale_Timer \<Rightarrow> when_armed (t_gr_stale b) (Some (Inr (bgp_graceful_stale_timer_expire b)))
      | Pmax_Timer \<Rightarrow> when_armed (t_pmax_restart b) (bgp_maximum_prefix_restart_timer b)
      | Write gen updates wr sockerr \<Rightarrow> when_armed (t_write b) (Some (bgp_write gen updates wr sockerr b))
      | Clear_Done \<Rightarrow> Some (Inr (bgp_clear_node_complete b))
      | Delete_Peer \<Rightarrow> peer_delete b
      | Set_Timers keep hold \<Rightarrow> Some (Inr (peer_timers_set keep hold b))
      | Unset_Timers \<Rightarrow> Some (Inr (peer_timers_unset b))
      | Clear_Peer \<Rightarrow> peer_clear b
      | Modify_Flag flag on \<Rightarrow> value_of (peer_flag_modify flag on b))"

text \<open>Making UPDATE packets changes routes and queues, not the session.\<close>

fun action_ok :: "action \<Rightarrow> bool" where
  "action_ok (Write gen updates wr sockerr) \<longleftrightarrow> quiet_gen gen"
| "action_ok _ \<longleftrightarrow> True"

text \<open>
  The state of the daemon: the process-wide part, which is kept in a record \<open>m\<close> of its own,
  and the list of peers. Every step starts with fresh answers of the operating system.
\<close>

inductive bgp_step :: "'a update_env \<Rightarrow> bgpd \<times> bgpd list \<Rightarrow> bgpd \<times> bgpd list \<Rightarrow> bool" for U where
  act: "action_ok a \<Longrightarrow> session_act a ((share m b)\<lparr>env := e\<rparr>) = Some (Inr b') \<Longrightarrow>
    bgp_step U (m, ps @ b # qs) (share b' m, ps @ b' # qs)"
| read: "bgp_read U rd sockerr (ps @ qs) ((share m b)\<lparr>env := e\<rparr>) = Some (Inr (rs, b')) \<Longrightarrow>
    bgp_step U (m, ps @ b # qs) (share b' m, take (length ps) rs @ b' # drop (length ps) rs)"
| accept: "r \<in> set (ps @ qs) \<Longrightarrow> bgp_accept sock h (Some r) (m\<lparr>env := e\<rparr>) = Inr (Some b) \<Longrightarrow>
    bgp_step U (m, ps @ qs) (m, ps @ b # qs)"
| create: "peer_create h addr las ras rid afi safi ibgp (m\<lparr>env := e\<rparr>) = Inr b \<Longrightarrow>
    bgp_step U (m, ps @ qs) (m, ps @ b # qs)"
| free: "status b = Deleted \<Longrightarrow> bgp_step U (m, ps @ b # qs) (m, ps @ qs)"
| timers: "bgp_step U (m, ps) (bgp_timers keep hold m, map (bgp_timers keep hold) ps)"
| no_timers: "bgp_step U (m, ps) (bgp_timers_unset m, map bgp_timers_unset ps)"

end
