(* ===== verification/Bgp_Session_Facts.thy ===== *)
theory Bgp_Session_Facts
  imports Bgp_Session
begin

text \<open>
  Invariants of the sessions: which timers can be armed in which state, the bounds of the
  timer values, and how a session reaches and leaves the state \<open>Established\<close>.
\<close>

section \<open>The invariant\<close>

definition legal_times :: "u32 \<Rightarrow> u32 \<Rightarrow> bool" where
  "legal_times hold keep \<longleftrightarrow> (hold = 0 \<or> 3 \<le> hold) \<and> hold \<le> 65535 \<and> keep \<le> hold div 3"

definition values_ok :: "bgpd \<Rightarrow> bool" where
  "values_ok b \<longleftrightarrow> start_ok b \<and> legal_times (v_holdtime b) (v_keepalive b) \<and> legal_times (holdtime b) (keepalive b) \<and>
     legal_times (default_holdtime b) (default_keepalive b) \<and> t_asorig b = None \<and>
     (\<forall>v. t_start b = Some v \<longrightarrow> v \<le> 180) \<and>
     (\<forall>v. t_holdtime b = Some v \<longrightarrow> 3 \<le> v \<and> v \<le> 65535) \<and>
     (\<forall>v. t_keepalive b = Some v \<longrightarrow> v \<le> 21845)"

text \<open>The timers that are off in a state.\<close>

definition timers_ok :: "bgpd \<Rightarrow> bool" where
  "timers_ok b \<longleftrightarrow>
     (status b \<noteq> Idle \<longrightarrow> t_start b = None) \<and>
     (status b \<notin> {Connect, Active} \<longrightarrow> t_connect b = None) \<and>
     (status b \<notin> {OpenSent, OpenConfirm, Established} \<longrightarrow> t_holdtime b = None) \<and>
     (status b \<notin> {OpenConfirm, Established} \<longrightarrow> t_keepalive b = None) \<and>
     (status b \<noteq> Established \<longrightarrow> t_routeadv b = None)"

definition session_ok :: "bgpd \<Rightarrow> bool" where
  "session_ok b \<longleftrightarrow> values_ok b \<and> timers_ok b"

lemma view_values: "sview b' = sview b \<Longrightarrow> (start_ok b \<longrightarrow> start_ok b') \<Longrightarrow> values_ok b \<Longrightarrow> values_ok b'"
  by (simp add: values_ok_def sview_def)

lemma view_timers: "sview b' = sview b \<Longrightarrow> timers_ok b' = timers_ok b"
  by (simp add: timers_ok_def sview_def)

lemma same_ok: "same b b' \<Longrightarrow> session_ok b \<Longrightarrow> session_ok b'"
  using view_values [of b' b] view_timers [of b' b] by (simp add: session_ok_def same_def)

lemma same_status: "same b b' \<Longrightarrow> status b' = status b"
  by (simp add: same_def sview_def)

lemma same_values: "same b b' \<Longrightarrow> values_ok b \<Longrightarrow> values_ok b'"
  using view_values [of b' b] by (simp add: same_def)

section \<open>The timers of a state\<close>

lemma start_jitter_bounds:
  assumes "0 \<le> t"
  shows "- (t div 2) \<le> bgp_start_jitter r t" "bgp_start_jitter r t \<le> t - t div 2"
proof -
  have "int r smod (t + 1) = int r mod (t + 1)" "t sdiv 2 = t div 2"
    using assms by (simp_all add: signed_modulo_int_def signed_divide_int_def sgn_if)
  moreover have "0 \<le> int r mod (t + 1)" "int r mod (t + 1) < t + 1"
    using assms pos_mod_bound [of "t + 1" "int r"] by simp_all
  ultimately show "- (t div 2) \<le> bgp_start_jitter r t" "bgp_start_jitter r t \<le> t - t div 2"
    by (auto simp: bgp_start_jitter_def)
qed

lemma start_delay_bound:
  assumes "(v :: u32) \<le> 120"
  shows "v + of_int (bgp_start_jitter r (sint v)) \<le> 180"
proof -
  have u: "uint v \<le> 120" "0 \<le> uint v" using assms by (simp_all add: word_le_def)
  then have s: "sint v = uint v"
    unfolding sint_uint by (intro signed_take_bit_int_eq_self) (simp_all add: order_trans [OF _ uint_ge_0])
  define k where "k = uint v + bgp_start_jitter r (sint v)"
  have k: "0 \<le> k" "k \<le> 180"
    using start_jitter_bounds [of "uint v" r] u unfolding k_def s by linarith+
  then have "uint (of_int k :: u32) = k"
    by (simp add: uint_word_of_int)
  then have "(of_int k :: u32) \<le> 180" using k by (simp add: word_le_def)
  then show ?thesis by (simp add: k_def)
qed

lemma legal_keepalive: "legal_times h k \<Longrightarrow> k \<le> 21845"
proof -
  assume "legal_times h k"
  then have "unat k \<le> unat h div 3" "unat h \<le> 65535"
    by (simp_all add: legal_times_def word_le_nat_alt unat_div)
  then have "unat k \<le> 21845" by linarith
  then show ?thesis by (simp add: word_le_nat_alt)
qed

lemma legal_holdtime: "legal_times h k \<Longrightarrow> h \<noteq> 0 \<Longrightarrow> 3 \<le> h \<and> h \<le> 65535"
  by (auto simp: legal_times_def)

lemma timer_set_status [simp]: "status (bgp_timer_set b) = status b"
  by (auto simp: bgp_timer_set_def session_timers_off_def hold_timers_on_def split: bgp_status.split)

text \<open>After the timers were set they fit the state, whatever they were before.\<close>

lemma timer_set_ok: "values_ok b \<Longrightarrow> session_ok (bgp_timer_set b)"
  by (cases "status b")
    (auto simp: bgp_timer_set_def session_ok_def values_ok_def timers_ok_def session_timers_off_def
      hold_timers_on_def BGP_TIMER_ON_def start_ok_def start_delay_bound legal_keepalive legal_holdtime)

section \<open>Stopping\<close>

lemma fold_view:
  assumes "\<And>x b. sview (f x b) = sview b" "\<And>x b. start_ok (f x b) = start_ok b"
  shows "sview (fold f xs b) = sview b" "start_ok (fold f xs b) = start_ok b"
  by (induction xs arbitrary: b) (simp_all add: assms)

lemma reset_family_view: "sview (reset_family x b) = sview b" "start_ok (reset_family x b) = start_ok b"
  by (simp_all add: reset_family_def split: prod.split)

lemma close_fd_view [simp]: "sview (close_fd b) = sview b" "start_ok (close_fd b) = start_ok b"
  by (simp_all add: close_fd_def)

lemma clear_route_all_view [simp]:
  "sview (bgp_clear_route_all b) = sview b" "start_ok (bgp_clear_route_all b) = start_ok b"
  by (simp_all add: bgp_clear_route_all_def fold_view split_def)

lemma clear_stale_view [simp]:
  "sview (clear_stale_routes b) = sview b" "start_ok (clear_stale_routes b) = start_ok b"
  unfolding clear_stale_routes_def by (rule fold_view; simp add: split_def)+

text \<open>The session timers are off, the hold time is that of the configuration.\<close>

definition stopped :: "bgpd \<Rightarrow> bgpd \<Rightarrow> bool" where
  "stopped b b' \<longleftrightarrow> status b' = status b \<and> (values_ok b \<longrightarrow> values_ok b') \<and>
     t_start b' = None \<and> t_connect b' = None \<and> t_holdtime b' = None \<and> t_keepalive b' = None \<and> t_routeadv b' = None"

lemma stopped_ok: "stopped b b' \<Longrightarrow> session_ok b \<Longrightarrow> session_ok b'"
  by (simp add: stopped_def session_ok_def timers_ok_def)

lemma stopped_view:
  "stopped b b1 \<Longrightarrow> sview b2 = sview b1 \<Longrightarrow> start_ok b2 = start_ok b1 \<Longrightarrow> stopped b b2"
  using view_values [of b2 b1] by (simp add: stopped_def) (simp add: sview_def)

lemma stopped_same: "sview b1 = sview b \<Longrightarrow> start_ok b1 = start_ok b \<Longrightarrow> stopped b1 b2 \<Longrightarrow> stopped b b2"
  using view_values [of b1 b] by (simp add: stopped_def) (simp add: sview_def)

lemma reset_hold_values_ok: "values_ok b \<Longrightarrow> values_ok (reset_hold_values b)"
  by (simp add: values_ok_def reset_hold_values_def start_ok_def)

lemma reset_hold_stopped: "stopped b b1 \<Longrightarrow> stopped b (reset_hold_values b1)"
  using reset_hold_values_ok [of b1] by (simp add: stopped_def) (simp add: reset_hold_values_def)

lemma stop_established_values: "values_ok b \<Longrightarrow> values_ok (stop_established b)"
  by (simp add: values_ok_def stop_established_def start_ok_def Let_def)

lemma timers_off_values:
  "values_ok b \<Longrightarrow>
    values_ok ((session_timers_off (BGP_WRITE_OFF (BGP_READ_OFF b)))\<lparr>t_start := None, t_connect := None, packet_size := 0\<rparr>)"
  by (simp add: values_ok_def session_timers_off_def BGP_READ_OFF_def BGP_WRITE_OFF_def start_ok_def)

lemma stop_head_stopped:
  "stopped b ((session_timers_off (BGP_WRITE_OFF (BGP_READ_OFF (if status b = Established then stop_established b else b))))
     \<lparr>t_start := None, t_connect := None, packet_size := 0\<rparr>)"
  by (simp add: stopped_def timers_off_values stop_established_values)
    (simp add: session_timers_off_def stop_established_def Let_def BGP_READ_OFF_def BGP_WRITE_OFF_def)

text \<open>The state in which \<open>bgp_stop\<close> has switched off the threads and timers.\<close>

definition stop_head :: "bgpd \<Rightarrow> bgpd" where
  "stop_head b =
     (let b1 = (if status b \<noteq> Clearing then BGP_EVENT_FLUSH b else b);
          b2 = (if status b1 = Established then stop_established b1 else b1) in
      (session_timers_off (BGP_WRITE_OFF (BGP_READ_OFF b2)))\<lparr>t_start := None, t_connect := None, packet_size := 0\<rparr>)"

definition stop_tail :: "bgpd \<Rightarrow> stream option \<Rightarrow> stream option \<Rightarrow> sheap \<Rightarrow> stream_fifo \<Rightarrow> bgpd" where
  "stop_tail b ib wb h f =
     (reset_hold_values (fold reset_family all_families (close_fd (b\<lparr>ibuf := ib, work := wb, streams := h, obuf := f\<rparr>))))
       \<lparr>update_time := 0\<rparr>"

lemma bgp_stop_eq:
  "bgp_stop b =
     xbind (Some (reset_buf (ibuf (stop_head b)))) (\<lambda>ib.
     xbind (Some (reset_buf (work (stop_head b)))) (\<lambda>wb.
     xbind (stream_fifo_clean (streams (stop_head b)) (obuf (stop_head b))) (\<lambda>(h, f).
     Some (Inr (stop_tail (stop_head b) ib wb h f)))))"
  by (simp add: bgp_stop_def stop_head_def stop_tail_def Let_def)

lemma stop_head_stopped': "stopped b (stop_head b)"
  unfolding stop_head_def Let_def by (rule stopped_same [OF _ _ stop_head_stopped]) simp_all

lemma stop_tail_stopped: "stopped b b1 \<Longrightarrow> stopped b (stop_tail b1 ib wb h f)"
  unfolding stop_tail_def
  by (rule stopped_view [OF reset_hold_stopped], erule stopped_view) (simp_all add: fold_view reset_family_view)

lemma stop_stopped: "bgp_stop b = Some (Inr b') \<Longrightarrow> stopped b b'"
  unfolding bgp_stop_eq by (auto simp del: bind_eqs elim!: bindE intro!: stop_tail_stopped stop_head_stopped')

section \<open>The actions of the state machine\<close>

lemma clear_route_all_values [simp]: "values_ok (bgp_clear_route_all b) = values_ok b"
  using view_values [of "bgp_clear_route_all b" b] view_values [of b "bgp_clear_route_all b"] by auto

lemma change_status_fields [simp]:
  "status (bgp_fsm_change_status st b) = st" "values_ok (bgp_fsm_change_status st b) = values_ok b"
proof -
  have "values_ok (b1\<lparr>ostatus := x, status := st\<rparr>) = values_ok b1" for b1 x
    by (simp add: values_ok_def start_ok_def)
  then show "values_ok (bgp_fsm_change_status st b) = values_ok b"
    by (simp add: bgp_fsm_change_status_def Let_def)
qed (simp add: bgp_fsm_change_status_def Let_def)

lemma nsf_stop_values: "values_ok b \<Longrightarrow> values_ok (peer_nsf_stop b)"
  unfolding peer_nsf_stop_def by simp (simp add: values_ok_def start_ok_def)

lemma start_same: "same b (snd (bgp_start b))"
  by (simp add: bgp_start_def bgp_connect_def same_def Let_def split: option.split connect_result.split)

lemma connect_success_same: "bgp_connect_success b = Inr (ret, b') \<Longrightarrow> same b b'"
  unfolding bgp_connect_success_def Let_def bgp_getsockname_def
  by (auto simp del: bind_eqs simp: same_def elim!: bindE dest!: frames split: if_splits)

lemma delete_ok:
  assumes "peer_delete b = Some (Inr b')" "values_ok b"
  shows "session_ok b' \<and> status b' = Deleted"
proof -
  define b1 where "b1 = (if CHECK_FLAG (sflags b) PEER_STATUS_NSF_WAIT then peer_nsf_stop b else b)"
  have 1: "values_ok (b1\<lparr>last_reset := PEER_DOWN_NEIGHBOR_DELETE\<rparr>)"
    using assms(2) nsf_stop_values [of b] view_values [of "b1\<lparr>last_reset := PEER_DOWN_NEIGHBOR_DELETE\<rparr>" b1] by (simp add: b1_def)
  obtain b2 h f where 2: "bgp_stop (b1\<lparr>last_reset := PEER_DOWN_NEIGHBOR_DELETE\<rparr>) = Some (Inr b2)"
    and b': "b' = (ext_call Peer_Delete (bgp_timer_set (bgp_fsm_change_status Deleted b2)))
      \<lparr>streams := h, obuf := f, ibuf := None, work := None, su_local := None, su_remote := None\<rparr>"
    using assms(1) unfolding peer_delete_def Let_def b1_def [symmetric]
    by (auto simp del: bind_eqs elim!: bindE)
  have "values_ok b2" using stop_stopped [OF 2] 1 by (simp add: stopped_def)
  then have ok: "session_ok (bgp_timer_set (bgp_fsm_change_status Deleted b2))" by (intro timer_set_ok) simp
  have "same (bgp_timer_set (bgp_fsm_change_status Deleted b2)) b'" by (simp add: b' same_def)
  from same_ok [OF this ok] same_status [OF this] show ?thesis by simp
qed

lemma restart_af_view: "sview (restart_af x b) = sview b" "start_ok (restart_af x b) = start_ok b"
  by (simp_all add: restart_af_def Let_def split: prod.split)

lemma establish_wait_view: "sview (establish_wait x b) = sview b" "start_ok (establish_wait x b) = start_ok b"
  by (simp_all add: establish_wait_def split: prod.split)

lemma establish_restart_ok: "values_ok b \<Longrightarrow> values_ok (establish_restart b) \<and> status (establish_restart b) = status b"
proof -
  let ?b = "fold restart_af unicast_families (b\<lparr>sflags := UNSET_FLAG (sflags b) PEER_STATUS_NSF_WAIT\<rparr>)"
  have v: "sview ?b = sview b" "start_ok ?b = start_ok b"
    by (simp_all add: fold_view restart_af_view)
  moreover assume "values_ok b"
  ultimately have "values_ok ?b" "status ?b = status b"
    using view_values [of ?b b] by (simp_all add: sview_def)
  moreover have "values_ok (b1\<lparr>sflags := x, t_gr_restart := None, uptime := t\<rparr>) = values_ok b1"
    "values_ok (b1\<lparr>sflags := x, t_gr_stale := None, t_gr_restart := None, uptime := t\<rparr>) = values_ok b1" for b1 x t
    by (simp_all add: values_ok_def start_ok_def)
  ultimately show ?thesis unfolding establish_restart_def Let_def by simp
qed

lemma establish_refresh_same: "establish_refresh afs b = Inr b' \<Longrightarrow> same b b'"
proof (induction afs arbitrary: b)
  case (Cons x afs)
  from Cons.prems show ?case
    by (cases x) (auto simp del: bind_eqs elim!: bindE dest!: Cons.IH frames simp: same_def split: if_splits)
qed auto

lemma establish_ok:
  assumes "bgp_establish b = Inr b'" "values_ok b"
  shows "values_ok b' \<and> status b' = Established"
proof -
  define b1 where "b1 = b\<lparr>sflags := SET_FLAG (sflags b) PEER_STATUS_CAPABILITY_OPEN, notify_code := 0, notify_subcode := 0,
    notify_data := None, notify_length := 0, v_start := BGP_INIT_START_TIMER, established := established b + 1\<rparr>"
  define b2 where "b2 = establish_restart (bgp_fsm_change_status Established b1)"
  have "values_ok b1" using assms(2) by (simp add: b1_def values_ok_def start_ok_def BGP_INIT_START_TIMER_def)
  then have 2: "values_ok b2" "status b2 = Established"
    unfolding b2_def using establish_restart_ok [of "bgp_fsm_change_status Established b1"] by simp_all
  define fin where "fin = (\<lambda>b4. let b5 = ext_call Announce_Route_All (fold establish_wait all_families b4) in
    b5\<lparr>t_routeadv := BGP_TIMER_ON b5 (t_routeadv b5) 1\<rparr>)"
  have "bgp_establish b = rbind (establish_refresh all_families b2) (\<lambda>b3.
      rbind (if v_keepalive b3 \<noteq> 0 then bgp_keepalive_send b3 else Inr b3) (\<lambda>b4. Inr (fin b4)))"
    by (simp add: bgp_establish_def b1_def b2_def fin_def Let_def)
  with assms(1) obtain b4 where "same b2 b4" and b': "b' = fin b4"
    by (auto simp del: bind_eqs elim!: bindE dest!: establish_refresh_same frames split: if_splits) (blast intro: same_trans)+
  moreover have "same b4 (ext_call Announce_Route_All (fold establish_wait all_families b4))"
    by (simp add: same_def fold_view establish_wait_view)
  ultimately have *: "same b2 (ext_call Announce_Route_All (fold establish_wait all_families b4))" by (blast intro: same_trans)
  from same_values [OF * 2(1)] same_status [OF *] 2(2) show ?thesis
    unfolding b' fin_def Let_def by (simp add: values_ok_def start_ok_def)
qed

lemma holdtime_none_values:
  "values_ok b \<Longrightarrow> values_ok (b\<lparr>t_holdtime := None\<rparr>)"
  "values_ok b \<Longrightarrow> values_ok (b\<lparr>keepalive_in := n, t_holdtime := None\<rparr>)"
  by (simp_all add: values_ok_def start_ok_def)

lemma stop_values: "bgp_stop b = Some (Inr b') \<Longrightarrow> values_ok b \<Longrightarrow> values_ok b'"
  using stop_stopped [of b b'] by (simp add: stopped_def)

lemma stop_with_error_values: "bgp_stop_with_error b = Some (Inr b') \<Longrightarrow> values_ok b \<Longrightarrow> values_ok b'"
  unfolding bgp_stop_with_error_def
  by (erule stop_values, erule view_values [rotated 2]) simp_all

lemma reconnect_values: "bgp_reconnect b = Some (Inr b') \<Longrightarrow> values_ok b \<Longrightarrow> values_ok b'"
  unfolding bgp_reconnect_def using stop_values same_values [OF start_same]
  by (auto simp del: bind_eqs elim!: bindE)

lemma clearing_completed_values: "bgp_clearing_completed b = Some (Inr b') \<Longrightarrow> values_ok b \<Longrightarrow> values_ok b'"
  unfolding bgp_clearing_completed_def using stop_values view_values [of "BGP_EVENT_FLUSH _"]
  by (auto simp del: bind_eqs elim!: bindE)

lemma holdtime_expire_ok:
  assumes "bgp_fsm_holdtime_expire b = Some (Inr (ret, b'))" "values_ok b"
  shows "values_ok b' \<and> (ret < 0 \<longrightarrow> session_ok b')"
  using assms(1) unfolding bgp_fsm_holdtime_expire_def
  by (auto simp del: bind_eqs elim!: bindE split: if_splits
      dest!: frames same_values [OF _ assms(2)] delete_ok stop_values simp: session_ok_def)

lemma fsm_call_ok:
  assumes "fsm_call f b = Some (Inr (ret, b'))" "session_ok b"
  shows "values_ok b' \<and> (ret < 0 \<longrightarrow> session_ok b')"
proof -
  have v: "values_ok b" using assms(2) by (simp add: session_ok_def)
  show ?thesis
  proof (cases f)
    case F_start
    with assms(1) have "(ret, b') = bgp_start b" by (simp add: fsm_call_def Let_def)
    then have "same b b'" using start_same [of b] by (metis snd_conv)
    then show ?thesis using same_ok [OF _ assms(2)] by (simp add: session_ok_def)
  next
    case F_connect_success
    with assms(1) have "same b b'" by (simp add: fsm_call_def Let_def connect_success_same)
    then show ?thesis using same_ok [OF _ assms(2)] by (simp add: session_ok_def)
  next
    case F_holdtime_expire
    with assms(1) v show ?thesis by (simp add: fsm_call_def Let_def holdtime_expire_ok)
  qed (use assms(1) v in \<open>auto simp del: bind_eqs elim!: bindE dest!: frames simp: fsm_call_def Let_def bgp_connect_fail_def
      bgp_fsm_open_def bgp_fsm_keepalive_expire_def bgp_fsm_keepalive_def bgp_fsm_update_def
      dest: stop_values stop_with_error_values reconnect_values clearing_completed_values establish_ok same_values
      intro!: holdtime_none_values\<close>)
qed

lemma event_ok:
  assumes "bgp_event e b = Some (Inr (ret, b'))" "session_ok b"
  shows "session_ok b'"
proof -
  obtain func nxt where F: "FSM (status b) e = (func, nxt)" by fastforce
  from assms(1) obtain b1 where call: "fsm_call func b = Some (Inr (ret, b1))"
    and b': "b' = (if ret \<ge> 0 then bgp_timer_set (if nxt \<noteq> status b1 then bgp_fsm_change_status nxt b1 else b1) else b1)"
    unfolding bgp_event_def F by (auto simp del: bind_eqs elim!: bindE split: if_splits)
  from fsm_call_ok [OF call assms(2)] show ?thesis
    unfolding b' by (auto intro!: timer_set_ok)
qed

text \<open>A timer that has expired is not armed any more.\<close>

lemma timer_off_ok:
  assumes "session_ok b"
  shows "session_ok (b\<lparr>t_start := None\<rparr>)" "session_ok (b\<lparr>t_connect := None\<rparr>)" "session_ok (b\<lparr>t_holdtime := None\<rparr>)"
    "session_ok (b\<lparr>t_keepalive := None\<rparr>)" "session_ok (b\<lparr>events := es\<rparr>)"
  using assms by (simp_all add: session_ok_def values_ok_def timers_ok_def start_ok_def)

lemma routeadv_timer_ok: "session_ok b \<Longrightarrow> t_routeadv b \<noteq> None \<Longrightarrow> session_ok (bgp_routeadv_timer b)"
  by (auto simp: session_ok_def values_ok_def timers_ok_def bgp_routeadv_timer_def Let_def BGP_WRITE_ON_def start_ok_def)

lemma restart_timer_ok: "session_ok b \<Longrightarrow> session_ok (bgp_graceful_restart_timer_expire b)"
proof -
  assume "session_ok b"
  then have v: "values_ok (b\<lparr>t_gr_restart := None\<rparr>)" by (simp add: session_ok_def values_ok_def start_ok_def)
  have "values_ok (clear_stale_routes (b\<lparr>t_gr_restart := None\<rparr>))"
    by (rule view_values [OF _ _ v]) simp_all
  then show ?thesis unfolding bgp_graceful_restart_timer_expire_def Let_def
    by (intro timer_set_ok) (simp add: values_ok_def start_ok_def)
qed

lemma stale_timer_ok: "session_ok b \<Longrightarrow> session_ok (bgp_graceful_stale_timer_expire b)"
proof -
  assume "session_ok b"
  then have "session_ok (b\<lparr>t_gr_stale := None\<rparr>)" by (simp add: session_ok_def values_ok_def timers_ok_def start_ok_def)
  then show ?thesis unfolding bgp_graceful_stale_timer_expire_def by (rule same_ok [rotated]) (simp add: same_def)
qed

section \<open>Commands\<close>

lemma legal_chosen:
  "hold = 0 \<or> 3 \<le> hold \<Longrightarrow> hold \<le> 65535 \<Longrightarrow> legal_times hold (if keep < hold div 3 then keep else hold div 3)"
  by (simp add: legal_times_def less_imp_le)

lemma legal_zero: "legal_times 0 0"
  by (simp add: legal_times_def)

lemma legal_default: "legal_times BGP_DEFAULT_HOLDTIME BGP_DEFAULT_KEEPALIVE"
  by (simp add: legal_times_def BGP_DEFAULT_HOLDTIME_def BGP_DEFAULT_KEEPALIVE_def)

lemma v_start_ok: "session_ok b \<Longrightarrow> session_ok (b\<lparr>v_start := BGP_INIT_START_TIMER\<rparr>)"
  by (simp add: session_ok_def values_ok_def timers_ok_def start_ok_def BGP_INIT_START_TIMER_def)

lemma peer_times_ok:
  "session_ok b \<Longrightarrow> legal_times h k \<Longrightarrow> session_ok (b\<lparr>config := c, holdtime := h, keepalive := k\<rparr>)"
  by (simp add: session_ok_def values_ok_def timers_ok_def start_ok_def)

lemma peer_timers_set_ok: "session_ok b \<Longrightarrow> session_ok (peer_timers_set keep hold b)"
proof (cases "65535 < keep \<or> 65535 < hold \<or> hold < 3 \<and> hold \<noteq> 0")
  case False
  moreover assume "session_ok b"
  ultimately show ?thesis
    unfolding peer_timers_set_def if_not_P [OF False] by (intro peer_times_ok legal_chosen) auto
qed (simp add: peer_timers_set_def)

lemma peer_timers_unset_ok: "session_ok b \<Longrightarrow> session_ok (peer_timers_unset b)"
  unfolding peer_timers_unset_def by (simp add: session_ok_def values_ok_def timers_ok_def start_ok_def legal_zero)

lemma timers_fields_ok:
  "session_ok b \<Longrightarrow> legal_times h k \<Longrightarrow> session_ok (b\<lparr>default_keepalive := k, default_holdtime := h\<rparr>)"
  by (simp add: session_ok_def values_ok_def timers_ok_def start_ok_def)

lemma legal_ucast:
  assumes "\<not> (hold < 3 \<and> hold \<noteq> (0 :: u16))"
  shows "ucast hold = (0 :: u32) \<or> 3 \<le> (ucast hold :: u32)" "(ucast hold :: u32) \<le> 65535"
proof -
  have *: "unat hold < 65536" using unsigned_less [where 'a = nat, of hold] by simp
  then have u: "unat (ucast hold :: u32) = unat hold"
    by (simp add: unsigned_ucast_eq take_bit_nat_eq_self)
  with * show "(ucast hold :: u32) \<le> 65535" by (simp add: word_le_nat_alt)
  show "ucast hold = (0 :: u32) \<or> 3 \<le> (ucast hold :: u32)"
    using assms by (auto simp: word_le_nat_alt word_less_nat_alt u unat_eq_0 [symmetric])
qed

lemma bgp_timers_ok:
  "session_ok b \<Longrightarrow> session_ok (bgp_timers keep hold b)" "session_ok b \<Longrightarrow> session_ok (bgp_timers_unset b)"
  using legal_chosen [OF legal_ucast, of hold "ucast keep"] legal_default
  by (auto simp: bgp_timers_def bgp_timers_set_def bgp_timers_unset_def intro!: timers_fields_ok split: if_splits)

lemma nsf_stop_ok: "session_ok b \<Longrightarrow> session_ok (peer_nsf_stop b)"
proof -
  assume "session_ok b"
  then have "session_ok (b\<lparr>sflags := UNSET_FLAG (UNSET_FLAG (sflags b) PEER_STATUS_NSF_WAIT) PEER_STATUS_NSF_MODE,
      nsf := nsf_clear (nsf b), t_gr_restart := None, t_gr_stale := None\<rparr>)"
    by (simp add: session_ok_def values_ok_def timers_ok_def start_ok_def)
  then show ?thesis unfolding peer_nsf_stop_def by (rule same_ok [rotated]) (simp add: same_def)
qed

lemma notify_send_ok: "bgp_notify_send c d b = Some (Inr b') \<Longrightarrow> session_ok b \<Longrightarrow> session_ok b'"
  by (erule same_ok [OF notify_send_same])

lemma stop_event_ok: "session_ok b \<Longrightarrow> session_ok (BGP_EVENT_ADD e b)"
  by (rule same_ok) (auto simp: same_def)

lemma plain_ok [simp]:
  "session_ok (b\<lparr>sflags := x\<rparr>) = session_ok b" "session_ok (b\<lparr>last_reset := n\<rparr>) = session_ok b"
  "session_ok (b\<lparr>pflags := f\<rparr>) = session_ok b" "session_ok (b\<lparr>t_pmax_restart := y\<rparr>) = session_ok b"
  "session_ok (b\<lparr>env := e\<rparr>) = session_ok b"
  by (simp_all add: session_ok_def values_ok_def timers_ok_def start_ok_def)

lemma peer_clear_ok: "peer_clear b = Some (Inr b') \<Longrightarrow> session_ok b \<Longrightarrow> session_ok b'"
  unfolding peer_clear_def Let_def
  by (auto split: if_splits intro!: stop_event_ok v_start_ok elim!: notify_send_ok)

lemma modify_action_ok: "peer_flag_modify_action flag b = Some (Inr b') \<Longrightarrow> session_ok b \<Longrightarrow> session_ok b'"
  unfolding peer_flag_modify_action_def Let_def
  by (auto split: if_splits intro!: stop_event_ok v_start_ok nsf_stop_ok elim!: notify_send_ok)

lemma flag_modify_ok: "peer_flag_modify flag on b = Some (Inr (ret, b')) \<Longrightarrow> session_ok b \<Longrightarrow> session_ok b'"
  unfolding peer_flag_modify_def Let_def
  by (auto simp del: bind_eqs split: if_splits prod.splits elim!: bindE modify_action_ok)

section \<open>Steps of one peer\<close>

lemma delete_session_ok: "peer_delete b = Some (Inr b') \<Longrightarrow> session_ok b \<Longrightarrow> session_ok b'"
  using delete_ok [of b b'] by (simp add: session_ok_def)

lemma when_armed_SomeD: "when_armed t m = Some r \<Longrightarrow> t \<noteq> None \<and> m = Some r"
  by (simp add: when_armed_def split: if_splits)

lemma value_ofE:
  assumes "value_of m = Some (Inr b')" obtains ret where "m = Some (Inr (ret, b'))"
  using assms by (auto simp: value_of_def simp del: bind_eqs elim!: bindE)

lemma session_act_ok:
  assumes "session_act a b = Some (Inr b')" "action_ok a" "session_ok b"
  shows "session_ok b'"
proof (cases a)
  case Run_Event
  with assms(1) obtain e es where "value_of (bgp_event e (b\<lparr>events := es\<rparr>)) = Some (Inr b')"
    by (auto simp: session_act_def split: list.splits)
  then show ?thesis by (auto elim!: value_ofE intro: event_ok timer_off_ok(5) [OF assms(3)])
next
  case (Write gen updates wr sockerr)
  with assms show ?thesis by (auto simp: session_act_def dest!: when_armed_SomeD write_same intro: same_ok)
qed (use assms(1,3) in \<open>auto simp: session_act_def bgp_start_timer_def bgp_connect_timer_def bgp_holdtime_timer_def
      bgp_keepalive_timer_def bgp_maximum_prefix_restart_timer_def bgp_clear_node_complete_def
      dest!: when_armed_SomeD elim!: value_ofE dest: event_ok [OF _ timer_off_ok(1)] event_ok [OF _ timer_off_ok(2)]
        event_ok [OF _ timer_off_ok(3)] event_ok [OF _ timer_off_ok(4)] delete_session_ok peer_clear_ok flag_modify_ok
      intro!: routeadv_timer_ok restart_timer_ok stale_timer_ok stop_event_ok peer_timers_set_ok peer_timers_unset_ok\<close>)

section \<open>Reading\<close>

lemma share_ok [simp]: "session_ok (share b r) = session_ok r" "status (share b r) = status r"
  by (simp_all add: share_def session_ok_def values_ok_def timers_ok_def start_ok_def)

lemma share_values: "values_ok (share b r) = values_ok r"
  by (simp add: share_def values_ok_def start_ok_def)

lemma send_holdtime_legal: "values_ok b \<Longrightarrow> \<not> (send_holdtime b < 3 \<and> send_holdtime b \<noteq> 0)"
proof -
  have "\<not> ((ucast h :: u16) < 3 \<and> (ucast h :: u16) \<noteq> 0)" if "legal_times h k" for h k
  proof -
    have "unat h \<le> 65535" using that by (simp add: legal_times_def word_le_nat_alt)
    then have "unat (ucast h :: u16) = unat h" by (simp add: unsigned_ucast_eq take_bit_nat_eq_self)
    then show ?thesis using that
      by (auto simp: legal_times_def word_le_nat_alt word_less_nat_alt unat_eq_0 [symmetric])
  qed
  moreover assume "values_ok b"
  ultimately show ?thesis by (auto simp: send_holdtime_def values_ok_def)
qed

lemma negotiated_legal:
  assumes "values_ok b" "\<not> (hold < 3 \<and> hold \<noteq> 0)"
  shows "legal_times (negotiated_holdtime hold b) (negotiated_holdtime hold b div 3)"
proof -
  have *: "\<not> (x < 3 \<and> x \<noteq> 0)" if "x = (if hold < send_holdtime b then hold else send_holdtime b)" for x
    using assms send_holdtime_legal [OF assms(1)] by (simp add: that)
  show ?thesis using legal_ucast [OF * [OF refl]] by (simp add: negotiated_holdtime_def legal_times_def)
qed

lemma hold_fields_ok:
  "session_ok b \<Longrightarrow> legal_times h k \<Longrightarrow> session_ok (b\<lparr>v_holdtime := h, v_keepalive := k\<rparr>)"
  by (simp add: session_ok_def values_ok_def timers_ok_def start_ok_def)

lemma refuse_same [frames]: "refuse sub data b = Some (Inr (ret, b')) \<Longrightarrow> same b b'"
  unfolding refuse_def by (auto simp del: bind_eqs elim!: bindE dest!: frames)

lemma open_accept_cases:
  assumes "open_accept m ras b = Some (Inr (ret, b'))"
  defines "b2 \<equiv> (b\<lparr>remote_id := o_id m\<rparr>)\<lparr>v_holdtime := negotiated_holdtime (o_holdtime m) (b\<lparr>remote_id := o_id m\<rparr>),
    v_keepalive := negotiated_holdtime (o_holdtime m) (b\<lparr>remote_id := o_id m\<rparr>) div 3\<rparr>"
  shows "same b b' \<or> \<not> (o_holdtime m < 3 \<and> o_holdtime m \<noteq> 0) \<and> same b2 b'"
  using assms(1) unfolding open_accept_def Let_def b2_def [symmetric] bgp_getsockname_def
  by (auto simp del: bind_eqs elim!: bindE split: if_splits dest!: frames simp: same_def)

lemma open_accept_ok:
  assumes "open_accept m ras b = Some (Inr (ret, b'))" "session_ok b"
  shows "session_ok b' \<and> status b' = status b"
  using open_accept_cases [OF assms(1)]
proof
  assume "same b b'"
  then show ?thesis using same_ok [OF _ assms(2)] same_status by blast
next
  let ?b = "b\<lparr>remote_id := o_id m\<rparr>"
  have "session_ok ?b" by (rule same_ok [OF _ assms(2)]) (simp add: same_def)
  then have ok: "session_ok (?b\<lparr>v_holdtime := v, v_keepalive := v div 3\<rparr>)"
    if "v = negotiated_holdtime (o_holdtime m) ?b" "\<not> (o_holdtime m < 3 \<and> o_holdtime m \<noteq> 0)" for v
    using negotiated_legal [of ?b] that by (intro hold_fields_ok) (simp_all add: session_ok_def)
  assume "\<not> (o_holdtime m < 3 \<and> o_holdtime m \<noteq> 0) \<and>
    same (?b\<lparr>v_holdtime := negotiated_holdtime (o_holdtime m) ?b,
            v_keepalive := negotiated_holdtime (o_holdtime m) ?b div 3\<rparr>) b'"
  then show ?thesis using same_ok [OF _ ok [OF refl]] same_status by fastforce
qed

lemma share_same [simp]: "same (share b r) x = same r x" "same r (share b x) = same r x"
  by (simp_all add: same_def share_def)

lemma list_same_refl [simp]: "list_all2 same xs xs"
  by (simp add: list_all2_refl)

lemma collision_same:
  "bgp_collision_detect peers rid b = Some (Inr (ret, peers', b')) \<Longrightarrow> list_all2 same peers peers' \<and> same b b'"
proof (induction peers arbitrary: ret peers' b')
  case (Cons r rs)
  from Cons.prems show ?case
    by (auto simp del: bind_eqs elim!: bindE split: if_splits dest!: frames Cons.IH)
qed auto

lemma same_list_ok: "list_all2 same rs rs' \<Longrightarrow> list_all session_ok rs \<Longrightarrow> list_all session_ok rs'"
  by (induction rule: list_all2_induct) (auto intro: same_ok)

lemma transfer_ok:
  assumes "open_transfer r b = Some (Inr (r', b'))" "session_ok r" "session_ok b"
  shows "session_ok r' \<and> session_ok b' \<and> status r' = status b \<and> status b' = status b"
proof -
  define over where "over = (\<lambda>r1 :: bgpd. r1\<lparr>fd := fd b, ibuf := ibuf b, packet_size := packet_size b, status := status b\<rparr>)"
  have "open_transfer r b = xbind (bgp_stop (share b r)) (\<lambda>r1. xbind (bgp_stop ((share (over r1) b)\<lparr>fd := - 1, ibuf := None\<rparr>))
      (\<lambda>b1. xbind (Some (bgp_open_send (share b1 (over r1)))) (\<lambda>r3. Some (Inr (r3, share r3 b1)))))"
    by (simp add: open_transfer_def over_def Let_def)
  with assms(1) obtain r1 r2 b1 r3 where 1: "bgp_stop (share b r) = Some (Inr r1)" and 2: "r2 = over r1"
    and 3: "bgp_stop ((share r2 b)\<lparr>fd := - 1, ibuf := None\<rparr>) = Some (Inr b1)"
    and 4: "bgp_open_send (share b1 r2) = Inr r3" and r': "r' = r3" "b' = share r3 b1"
    by (auto simp del: bind_eqs elim!: bindE)
  have "values_ok (over r1) = values_ok r1" for r1 by (simp add: over_def values_ok_def start_ok_def)
  then have over_ok: "session_ok (over r1)" if "stopped (share b r) r1"
    using that assms(2) unfolding stopped_def share_values session_ok_def timers_ok_def by (simp add: over_def)
  with stop_stopped [OF 1] have "session_ok r2" by (simp add: 2)
  moreover have "same r2 r3" using open_send_same [OF 4] by simp
  ultimately have "session_ok r'" "status r' = status b"
    using same_ok [of r2 r3] same_status [of r2 r3] by (simp_all add: r' 2 over_def)
  moreover have "same b ((share r2 b)\<lparr>fd := - 1, ibuf := None\<rparr>)" by (simp add: same_def share_def)
  then have "session_ok b1" "status b1 = status b"
    using stopped_ok [OF stop_stopped [OF 3]] same_ok [OF _ assms(3)] same_status stop_stopped [OF 3, unfolded stopped_def]
    by (blast, simp)
  ultimately show ?thesis by (simp add: r')
qed

definition kept :: "bgpd \<Rightarrow> bgpd \<Rightarrow> bool" where
  "kept b b' \<longleftrightarrow> (session_ok b \<longrightarrow> session_ok b') \<and> status b' = status b"

lemma same_kept: "same b b' \<Longrightarrow> kept b b'"
  using same_ok same_status by (auto simp: kept_def)

lemma kept_trans: "kept a b \<Longrightarrow> kept b c \<Longrightarrow> kept a c"
  by (simp add: kept_def)

lemma kept_share [simp]: "kept a (share x b) = kept a b"
  by (simp add: kept_def)

lemma refuse_kept: "refuse sub data b = Some (Inr (ret, b')) \<Longrightarrow> kept b b'"
  by (rule same_kept [OF refuse_same])

lemma read_on_ok [simp]: "session_ok (BGP_READ_ON b) = session_ok b"
  using same_ok [of b "BGP_READ_ON b"] same_ok [of "BGP_READ_ON b" b] by (auto simp: same_def)

lemma open_on_real_ok:
  assumes "open_on_real coll m ras r b = Some (Inr (ret, r', b'))" "session_ok r" "session_ok b"
  shows "session_ok r' \<and> kept b b'"
  using assms unfolding open_on_real_def Let_def
  by (auto simp del: bind_eqs elim!: bindE split: if_splits simp: kept_def
      dest!: transfer_ok open_accept_ok notify_send_same dest: same_ok same_status)

lemma lookup_index: "peer_lookup_with_open peers ras rid b = (Some k, known) \<Longrightarrow> k < length peers"
proof -
  have *: "k < length peers" if "filter P [0..<length peers] = k # ks" for P ks
  proof -
    from that have "k \<in> set (filter P [0..<length peers])" by (metis list.set_intros(1))
    then show ?thesis by simp
  qed
  assume "peer_lookup_with_open peers ras rid b = (Some k, known)"
  then show ?thesis unfolding peer_lookup_with_open_def Let_def
    by (auto split: list.splits dest: *)
qed

lemma open_fields_kept: "open_fields b = Some (Inr (m, b')) \<Longrightarrow> kept b b'"
  unfolding open_fields_def
  by (rule same_kept) (auto simp del: bind_eqs elim!: bindE split: if_splits dest!: frames simp: same_def)

lemma open_from_ok:
  assumes "open_from peers m ras b = Some (Inr (ret, peers', b'))" "list_all session_ok peers" "session_ok b"
  shows "list_all session_ok peers' \<and> length peers' = length peers \<and> kept b b'"
proof -
  obtain real known where look: "peer_lookup_with_open peers ras (o_id m) b = (real, known)" by fastforce
  have coll: "list_all session_ok peers1 \<and> length peers1 = length peers \<and> kept b b1 \<and> session_ok b1"
    if "bgp_collision_detect peers (o_id m) b = Some (Inr (ret1, peers1, b1))" for ret1 peers1 b1
    using collision_same [OF that] same_list_ok [of peers peers1] assms(2,3) same_kept [of b b1]
    by (auto dest: list_all2_lengthD simp: kept_def)
  have real: "session_ok (peers1 ! k)" if "real = Some k" "list_all session_ok peers1" "length peers1 = length peers"
    for k peers1 using lookup_index [of peers ras "o_id m" b k known] look that by (simp add: list_all_length)
  have upd: "list_all session_ok (peers1[k := r])" if "list_all session_ok peers1" "session_ok r" for peers1 k r
    using that set_update_subset_insert [of peers1 k r] by (auto simp: list_all_iff)
  have final: "list_all session_ok peers' \<and> length peers' = length peers \<and> kept b b'"
    if c: "bgp_collision_detect peers (o_id m) b = Some (Inr (ret1, peers1, b1))" and acc: "accepted \<longrightarrow> real \<noteq> None"
      and r: "(if ret1 < 0 then Some (Inr (ret1, peers1, b1)) else if accepted then
          xbind (open_on_real ret1 m ras (peers1 ! the real) b1) (\<lambda>(ret2, r, b2). Some (Inr (ret2, peers1[the real := r], b2)))
        else xbind (open_accept m ras b1) (\<lambda>(ret2, b2). Some (Inr (ret2, peers1, b2)))) = Some (Inr (ret, peers', b'))"
    for ret1 peers1 b1 accepted
    using coll [OF c] acc r real
    by (auto simp del: bind_eqs elim!: bindE split: if_splits dest!: open_accept_ok open_on_real_ok simp: kept_def upd)
  show ?thesis
  proof (cases "CHECK_FLAG (sflags b) PEER_STATUS_ACCEPT_PEER \<and> real = None")
    case True
    with assms(1,2) show ?thesis unfolding open_from_def Let_def look
      by (auto simp del: bind_eqs elim!: bindE split: if_splits dest!: refuse_kept)
  next
    case False
    from assms(1) show ?thesis unfolding open_from_def Let_def look prod.case if_not_P [OF False]
    proof (elim xbindE, goal_cases)
      case (1 x)
      obtain ret1 peers1 b1 where "x = (ret1, peers1, b1)" by (cases x)
      with 1 False show ?case using final [of ret1 peers1 b1 "CHECK_FLAG (sflags b) PEER_STATUS_ACCEPT_PEER"] by simp
    qed
  qed
qed

lemma open_receive_ok:
  assumes "bgp_open_receive peers b = Some (Inr (ret, peers', b'))" "list_all session_ok peers" "session_ok b"
  shows "list_all session_ok peers' \<and> length peers' = length peers \<and> kept b b'"
  using assms unfolding bgp_open_receive_def
  by (auto simp del: bind_eqs elim!: bindE split: option.splits dest!: open_fields_kept refuse_kept open_from_ok simp: kept_def)

lemma read_packet_same [frames]: "bgp_read_packet rd b = Inr (ret, b') \<Longrightarrow> same b b'"
  unfolding bgp_read_packet_def Let_def read_closed_def
  by (auto simp del: bind_eqs elim!: bindE split: option.splits if_splits simp: same_def)

lemma read_header_same [frames]: "read_header rd b = Some (Inr (go, b')) \<Longrightarrow> same b b'"
  unfolding read_header_def Let_def
  by (auto simp del: bind_eqs elim!: bindE split: if_splits dest!: frames simp: same_def)

lemma dispatch_ok:
  assumes "quiet_update U" "dispatch U peers ty n b = Some (Inr (peers', b'))" "list_all session_ok peers" "session_ok b"
  shows "list_all session_ok peers' \<and> length peers' = length peers \<and> kept b b'"
proof (cases "ty = BGP_MSG_OPEN")
  case True
  let ?b = "b\<lparr>open_in := open_in b + 1\<rparr>"
  from True assms(2) obtain ret where "bgp_open_receive peers ?b = Some (Inr (ret, peers', b'))"
    by (auto simp del: bind_eqs simp: dispatch_def Let_def elim!: bindE)
  moreover have "kept b ?b" by (rule same_kept) (simp add: same_def)
  ultimately show ?thesis using open_receive_ok [of peers ?b ret peers' b'] assms(3,4) by (simp add: kept_def)
next
  case False
  with assms(2) have "peers' = peers \<and> same b b'"
    unfolding dispatch_def Let_def bgp_keepalive_receive_def
    by (auto simp del: bind_eqs elim!: bindE split: if_splits dest!: frames update_receive_same [OF assms(1)] simp: same_def)
  then show ?thesis using assms(3) same_kept by simp
qed

lemma reset_fields_kept [simp]: "kept b (b1\<lparr>packet_size := n, ibuf := x\<rparr>) = kept b b1"
  by (simp add: kept_def session_ok_def values_ok_def timers_ok_def start_ok_def)

lemma read_body_ok:
  assumes "quiet_update U" "read_body U rd peers b = Some (Inr (peers', b'))" "list_all session_ok peers" "session_ok b"
  shows "list_all session_ok peers' \<and> length peers' = length peers \<and> kept b b'"
  using assms(2,3) unfolding read_body_def
  by (auto simp del: bind_eqs elim!: bindE split: if_splits dest!: read_packet_same dispatch_ok [OF assms(1)]
      simp: same_ok [OF _ assms(4)]) (blast intro: same_kept kept_trans)+

text \<open>What a read leaves: the reading peer may be deleted, no other status appears.\<close>

definition reads_ok :: "bgpd list \<Rightarrow> bgpd \<Rightarrow> bgpd list \<Rightarrow> bgpd \<Rightarrow> bool" where
  "reads_ok peers b peers' b' \<longleftrightarrow> list_all session_ok peers' \<and> length peers' = length peers \<and> session_ok b' \<and>
     status b' \<in> {status b, Deleted}"

lemma read_done_ok:
  assumes "read_done (peers, b) = Some (Inr (peers', b'))" "list_all session_ok peers" "session_ok b"
  shows "reads_ok peers b peers' b'"
  using assms unfolding read_done_def reads_ok_def
  by (auto simp del: bind_eqs elim!: bindE split: if_splits dest!: delete_ok simp: session_ok_def)

lemma bgp_read_ok:
  assumes "quiet_update U" "bgp_read U rd sockerr peers b = Some (Inr (peers', b'))" "list_all session_ok peers" "session_ok b"
  shows "reads_ok peers b peers' b'"
proof -
  have done_ok: "reads_ok peers b peers' b'" if "read_done (peers, b1) = Some (Inr (peers', b'))" "same b b1" for b1
    using read_done_ok [OF that(1) assms(3) same_ok [OF that(2) assms(4)]] same_status [OF that(2)] by (simp add: reads_ok_def)
  have body: "reads_ok peers b peers' b'"
    if "read_body U (rd (Suc 0)) peers b1 = Some (Inr (rs, b2))" "read_done (rs, b2) = Some (Inr (peers', b'))" "same b b1"
    for b1 rs b2
    using read_body_ok [OF assms(1) that(1) assms(3) same_ok [OF that(3) assms(4)]] same_ok [OF that(3) assms(4)]
      read_done_ok [OF that(2)] same_status [OF that(3)] by (simp add: kept_def reads_ok_def)
  have none: "reads_ok peers b peers (b\<lparr>t_read := None\<rparr>)"
    using assms(3,4) same_ok [of b "b\<lparr>t_read := None\<rparr>"] by (simp add: reads_ok_def same_def)
  show ?thesis using assms(2) none unfolding bgp_read_def Let_def
    by (auto simp del: bind_eqs elim!: bindE split: if_splits dest!: frames elim!: done_ok body simp: same_def)
qed

section \<open>All reachable sessions\<close>

lemma peer_new_fields:
  assumes "peer_new b = Inr p"
  shows "status p = Idle" "v_start p = BGP_INIT_START_TIMER" "v_holdtime p = 0" "v_keepalive p = 0" "holdtime p = 0" "keepalive p = 0"
    "t_start p = None" "t_connect p = None" "t_holdtime p = None" "t_keepalive p = None" "t_asorig p = None" "t_routeadv p = None"
    "default_holdtime p = default_holdtime b" "default_keepalive p = default_keepalive b"
  using assms by (cases b; auto simp: peer_new_def)+

lemma peer_create_ok:
  assumes "peer_create h addr las ras rid afi safi ibgp b = Inr p" "legal_times (default_holdtime b) (default_keepalive b)"
  shows "session_ok p"
proof -
  from assms(1) obtain q where q: "peer_new b = Inr q" by (auto simp: peer_create_def)
  define p1 where "p1 = q\<lparr>local_as := las, peer_as := ras, local_id := rid, v_holdtime := default_holdtime b,
    v_keepalive := default_keepalive b, v_routeadv := (if ibgp then BGP_DEFAULT_IBGP_ROUTEADV else BGP_DEFAULT_EBGP_ROUTEADV)\<rparr>"
  define p3 where "p3 = (if afi \<noteq> 0 \<and> safi \<noteq> 0 then p1\<lparr>afc := af_set (afc p1) afi safi True\<rparr> else p1)
    \<lparr>readtime := e_clock (env b), resettime := e_clock (env b), host := h, host_text := addr\<rparr>"
  have "session_ok p1" using assms(2) peer_new_fields [OF q]
    by (simp add: p1_def session_ok_def values_ok_def timers_ok_def start_ok_def BGP_INIT_START_TIMER_def legal_zero)
  moreover have "session_ok p3 = session_ok p1"
    by (simp add: p3_def session_ok_def values_ok_def timers_ok_def start_ok_def)
  moreover have "p = (if \<not> peer_active p1 \<and> peer_active p3 then bgp_timer_set p3 else p3)"
    using assms(1) by (simp only: peer_create_def q rbind_simps Let_def p1_def [symmetric] p3_def [symmetric] sum.inject)
  ultimately show ?thesis using timer_set_ok [of p3] by (simp add: session_ok_def)
qed

lemma accept_ok:
  assumes "bgp_accept sock h (Some r) b = Inr (Some p)" "session_ok r" "legal_times (default_holdtime b) (default_keepalive b)"
  shows "session_ok p"
proof -
  from assms(1) obtain q where q: "peer_new b = Inr q"
    and p: "p = BGP_EVENT_ADD TCP_connection_open (q\<lparr>sflags := SET_FLAG (sflags q) PEER_STATUS_ACCEPT_PEER, fd := sock,
      status := Active, local_id := local_id r, v_holdtime := v_holdtime r, v_keepalive := v_keepalive r, host := h,
      host_text := host_text r\<rparr>)"
    by (auto simp: bgp_accept_def split: if_splits)
  show ?thesis unfolding p using assms(2,3) peer_new_fields [OF q]
    by (intro stop_event_ok) (simp add: session_ok_def values_ok_def timers_ok_def start_ok_def BGP_INIT_START_TIMER_def legal_zero)
qed

definition daemon_ok :: "bgpd \<times> bgpd list \<Rightarrow> bool" where
  "daemon_ok = (\<lambda>(m, ps). legal_times (default_holdtime m) (default_keepalive m) \<and> list_all session_ok ps)"

lemma share_default [simp]:
  "default_holdtime (share b m) = default_holdtime m" "default_keepalive (share b m) = default_keepalive m"
  by (simp_all add: share_def)

lemma step_ok:
  assumes "bgp_step U x y" "quiet_update U" "daemon_ok x"
  shows "daemon_ok y"
  using assms(1,3)
proof cases
  case (act a e m b b' ps qs)
  have "session_ok ((share m b)\<lparr>env := e\<rparr>)"
    using act assms(3) by (simp add: daemon_ok_def)
  from session_act_ok [OF act(4,3) this] act assms(3) show ?thesis by (simp add: daemon_ok_def)
next
  case (read rd sockerr ps qs e m b rs b')
  have b: "session_ok ((share m b)\<lparr>env := e\<rparr>)"
    using read assms(3) by (simp add: daemon_ok_def)
  have "reads_ok (ps @ qs) ((share m b)\<lparr>env := e\<rparr>) rs b'"
    using bgp_read_ok [OF assms(2) read(3) _ b] read assms(3) by (simp add: daemon_ok_def)
  then have "list_all session_ok rs" "session_ok b'" by (simp_all add: reads_ok_def)
  then have "list_all session_ok (take (length ps) rs)" "list_all session_ok (drop (length ps) rs)"
    by (metis append_take_drop_id list_all_append)+
  then show ?thesis using read assms(3) \<open>session_ok b'\<close> by (simp add: daemon_ok_def)
next
  case (accept r ps qs sock h e m b)
  with assms(3) have "session_ok r" by (auto simp: daemon_ok_def list_all_iff)
  from accept_ok [OF accept(4) this] accept assms(3) show ?thesis by (simp add: daemon_ok_def)
next
  case (create h addr las ras rid afi safi ibgp e m b ps qs)
  from peer_create_ok [OF create(3)] create assms(3) show ?thesis by (simp add: daemon_ok_def)
next
  case (free b m ps qs)
  with assms(3) show ?thesis by (simp add: daemon_ok_def)
next
  case (timers m ps keep hold)
  have "list_all session_ok (map (bgp_timers keep hold) ps)"
    using timers assms(3) by (auto simp: daemon_ok_def list_all_iff intro: bgp_timers_ok(1))
  moreover have "legal_times (default_holdtime (bgp_timers keep hold m)) (default_keepalive (bgp_timers keep hold m))"
    using timers assms(3) legal_chosen [OF legal_ucast, of hold "ucast keep"]
    by (simp add: daemon_ok_def bgp_timers_def bgp_timers_set_def)
  ultimately show ?thesis by (simp add: timers daemon_ok_def)
next
  case (no_timers m ps)
  have "list_all session_ok (map bgp_timers_unset ps)"
    using no_timers assms(3) by (auto simp: daemon_ok_def list_all_iff intro: bgp_timers_ok(2))
  then show ?thesis using no_timers legal_default by (simp add: daemon_ok_def) (simp add: bgp_timers_unset_def)
qed

lemma steps_ok: "(bgp_step U)\<^sup>*\<^sup>* x y \<Longrightarrow> quiet_update U \<Longrightarrow> daemon_ok x \<Longrightarrow> daemon_ok y"
  by (induction rule: rtranclp_induct) (auto intro: step_ok)


text \<open>Attributes and routes that are accepted and ignored, and a daemon without peers.\<close>

definition update_ex :: "unit update_env" where
  "update_ex =
     \<lparr>u_attr_parse = (\<lambda>n b. Some (Inr (BGP_ATTR_PARSE_PROCEED, (), nlri_none, nlri_none, b))), u_attr_none = (),
      u_attr_check = (\<lambda>a b. Some (Inr (0, b))), u_rib = (\<lambda>afi safi p a b. Some (Inr (0, b))),
      u_vpnv4 = (\<lambda>a n b. Some (Inr b))\<rparr>"

definition daemon_ex :: bgpd where
  "daemon_ex = bgpd_ex\<lparr>default_holdtime := BGP_DEFAULT_HOLDTIME, default_keepalive := BGP_DEFAULT_KEEPALIVE\<rparr>"

abbreviation create_ex :: "bgpd res" where
  "create_ex \<equiv> peer_create 1 ''peer'' 1 2 [10, 0, 0, 1] AFI_IP SAFI_UNICAST False daemon_ex"

definition peer_ex :: bgpd where
  "peer_ex = (case create_ex of Inr b \<Rightarrow> b | Inl _ \<Rightarrow> daemon_ex)"

lemma peer_ex_created: "create_ex = Inr peer_ex" "t_start peer_ex \<noteq> None"
proof -
  obtain s where "stream_new (junk (env daemon_ex)) BGP_MAX_PACKET_SIZE = Inr s"
    by (auto simp: stream_new_def BGP_MAX_PACKET_SIZE_def c_assert_def)
  then have "(case create_ex of Inr b \<Rightarrow> t_start b \<noteq> None | _ \<Rightarrow> False)"
    by (simp add: peer_create_def peer_new_def Let_def peer_active_def af_set_def bgp_timer_set_def
        BGP_TIMER_ON_def BGP_PEER_START_SUPPRESSED_def session_timers_off_def CHECK_FLAG_def
        PEER_STATUS_CAPABILITY_OPEN_def PEER_STATUS_PREFIX_OVERFLOW_def AFI_IP_def SAFI_UNICAST_def)
  then obtain b where "create_ex = Inr b" "t_start b \<noteq> None" by (cases create_ex) simp_all
  then show "create_ex = Inr peer_ex" "t_start peer_ex \<noteq> None" unfolding peer_ex_def by simp_all
qed

lemma peer_ex_reached: "(bgp_step update_ex)\<^sup>*\<^sup>* (daemon_ex, []) (daemon_ex, [peer_ex])"
proof -
  have "peer_create 1 ''peer'' 1 2 [10, 0, 0, 1] AFI_IP SAFI_UNICAST False (daemon_ex\<lparr>env := env daemon_ex\<rparr>) = Inr peer_ex"
    using peer_ex_created(1) by simp
  from bgp_step.create [OF this, of update_ex "[]" "[]"] show ?thesis by auto
qed


section \<open>The state Established\<close>

lemma stop_status: "bgp_stop b = Some (Inr b') \<Longrightarrow> status b' = status b"
  using stop_stopped by (simp add: stopped_def)

lemma holdtime_expire_status:
  assumes "bgp_fsm_holdtime_expire b = Some (Inr (ret, b'))" "values_ok b"
  shows "status b' \<in> {status b, Deleted}"
proof -
  from assms(1) obtain b1 where "same b b1" "peer_delete b1 = Some (Inr b') \<or> bgp_stop b1 = Some (Inr b')"
    unfolding bgp_fsm_holdtime_expire_def
    by (auto simp del: bind_eqs elim!: bindE split: if_splits dest!: notify_send_same)
  then show ?thesis
    using delete_ok [of b1 b'] same_values [of b b1] assms(2) same_status [of b b1] stop_status [of b1 b'] by auto
qed

lemma simple_status:
  "bgp_stop_with_error b = Some (Inr b') \<Longrightarrow> status b' = status b"
  "bgp_clearing_completed b = Some (Inr b') \<Longrightarrow> status b' = status b"
  "bgp_fsm_open b = Inr b' \<Longrightarrow> status b' = status b"
  unfolding bgp_stop_with_error_def bgp_clearing_completed_def bgp_fsm_open_def
  by (auto simp del: bind_eqs elim!: bindE dest!: stop_status keepalive_send_same dest: same_status simp: BGP_EVENT_FLUSH_def)

lemma reconnect_status: "bgp_reconnect b = Some (Inr b') \<Longrightarrow> status b' = status b"
  unfolding bgp_reconnect_def
  by (auto simp del: bind_eqs elim!: bindE dest!: stop_status simp: same_status [OF start_same])

lemma fsm_call_status:
  assumes "fsm_call f b = Some (Inr (ret, b'))" "values_ok b" "f \<noteq> F_establish"
  shows "status b' \<in> {status b, Deleted}"
proof (cases f)
  case F_start
  with assms(1) have "(ret, b') = bgp_start b" by (simp add: fsm_call_def Let_def)
  then show ?thesis using same_status [OF start_same [of b]] by (metis insertI1 snd_conv)
next
  case F_holdtime_expire
  with assms show ?thesis by (simp add: fsm_call_def Let_def holdtime_expire_status del: insert_iff)
qed (use assms in \<open>auto simp del: bind_eqs elim!: bindE
      simp: fsm_call_def Let_def bgp_connect_fail_def bgp_fsm_keepalive_expire_def bgp_fsm_keepalive_def bgp_fsm_update_def
      dest: stop_status simple_status reconnect_status same_status [OF connect_success_same] same_status [OF keepalive_send_same]\<close>)

definition all_status :: "bgp_status list" where
  "all_status = [Idle, Connect, Active, OpenSent, OpenConfirm, Established, Clearing, Deleted]"

definition all_events :: "fsm_event list" where
  "all_events = [BGP_Start, BGP_Stop, TCP_connection_open, TCP_connection_closed, TCP_connection_open_failed, TCP_fatal_error,
     ConnectRetry_timer_expired, Hold_Timer_expired, KeepAlive_timer_expired, Receive_OPEN_message, Receive_KEEPALIVE_message,
     Receive_UPDATE_message, Receive_NOTIFICATION_message, Clearing_Completed]"

lemma table_all: "list_all (\<lambda>st. list_all (P st) all_events) all_status \<Longrightarrow> P st e"
  by (cases st; cases e; simp add: all_status_def all_events_def)

text \<open>Rows and columns of the table that concern the state Established.\<close>

lemma fsm_established:
  "(snd (FSM st e) = Established \<longrightarrow> st = Established \<or> st = OpenConfirm \<and> e = Receive_KEEPALIVE_message) \<and>
   (fst (FSM st e) = F_establish \<longrightarrow> st = OpenConfirm \<and> e = Receive_KEEPALIVE_message) \<and>
   (st = Established \<longrightarrow> FSM st e = (F_ignore, Idle) \<and> e = Clearing_Completed \<or> snd (FSM st e) = Established \<or>
      snd (FSM st e) = Clearing \<and> fst (FSM st e) \<in> {F_stop, F_stop_with_error, F_holdtime_expire})"
  by (rule table_all [where st = st and e = e]) code_simp

lemma event_cases:
  assumes "bgp_event e b = Some (Inr (ret, b'))"
  obtains b1 where "fsm_call (fst (FSM (status b) e)) b = Some (Inr (ret, b1))" "ret < 0" "b' = b1"
  | b1 where "fsm_call (fst (FSM (status b) e)) b = Some (Inr (ret, b1))" "0 \<le> ret" "status b' = snd (FSM (status b) e)"
      "b' = bgp_timer_set (if snd (FSM (status b) e) \<noteq> status b1 then bgp_fsm_change_status (snd (FSM (status b) e)) b1 else b1)"
  using assms unfolding bgp_event_def split_def Let_def
  by (auto simp del: bind_eqs elim!: bindE split: if_splits)

lemma establish_ret: "fsm_call F_establish b = Some (Inr (ret, b')) \<Longrightarrow> ret = 0"
  by (auto simp del: bind_eqs simp: fsm_call_def Let_def elim!: bindE)

lemma event_established:
  assumes "bgp_event e b = Some (Inr (ret, b'))" "values_ok b" "status b' = Established"
  shows "status b = Established \<or> status b = OpenConfirm \<and> e = Receive_KEEPALIVE_message"
  using assms(1)
proof (cases rule: event_cases)
  case (1 b1)
  then have "fst (FSM (status b) e) \<noteq> F_establish" using establish_ret [of b ret b1] by auto
  then show ?thesis using fsm_call_status [OF 1(1) assms(2)] 1(3) assms(3) by auto
next
  case (2 b1)
  then show ?thesis using fsm_established [of "status b" e] assms(3) by simp
qed

lemma view_status: "sview b' = sview b \<Longrightarrow> status b' = status b"
  by (simp add: sview_def)

lemma prim_status [simp]:
  "status (BGP_EVENT_ADD e b) = status b" "status (peer_nsf_stop b) = status b" "status (clear_stale_routes b) = status b"
  "status (peer_timers_set k h b) = status b" "status (peer_timers_unset b) = status b" "status (bgp_clear_node_complete b) = status b"
  "status (bgp_routeadv_timer b) = status b" "status (bgp_graceful_restart_timer_expire b) = status b"
  "status (bgp_graceful_stale_timer_expire b) = status b"
  by (simp_all add: BGP_EVENT_ADD_def peer_nsf_stop_def view_status [OF clear_route_all_view(1)] view_status [OF clear_stale_view(1)]
      peer_timers_set_def peer_timers_unset_def bgp_clear_node_complete_def bgp_routeadv_timer_def BGP_WRITE_ON_def Let_def
      bgp_graceful_restart_timer_expire_def bgp_graceful_stale_timer_expire_def)

lemma notify_status: "bgp_notify_send c d b = Some (Inr b') \<Longrightarrow> status b' = status b"
  by (rule same_status [OF notify_send_same])

lemma peer_clear_status: "peer_clear b = Some (Inr b') \<Longrightarrow> status b' = status b"
  unfolding peer_clear_def Let_def by (auto split: if_splits dest!: notify_status)

lemma modify_action_status: "peer_flag_modify_action flag b = Some (Inr b') \<Longrightarrow> status b' = status b"
  unfolding peer_flag_modify_action_def Let_def by (auto split: if_splits dest!: notify_status)

lemma flag_modify_status: "peer_flag_modify flag on b = Some (Inr (ret, b')) \<Longrightarrow> status b' = status b"
  unfolding peer_flag_modify_def Let_def
  by (auto simp del: bind_eqs split: if_splits prod.splits elim!: bindE dest!: modify_action_status)

lemma timer_off_values':
  assumes "values_ok b"
  shows "values_ok (b\<lparr>t_start := None\<rparr>)" "values_ok (b\<lparr>t_connect := None\<rparr>)" "values_ok (b\<lparr>t_holdtime := None\<rparr>)"
    "values_ok (b\<lparr>t_keepalive := None\<rparr>)" "values_ok (b\<lparr>events := es\<rparr>)"
  using assms by (simp_all add: values_ok_def start_ok_def)


definition confirm_ex :: bgpd where
  "confirm_ex = bgpd_ex\<lparr>status := OpenConfirm, events := [Receive_KEEPALIVE_message], v_holdtime := 0, v_keepalive := 0\<rparr>"

lemma confirm_ex_ok: "session_ok confirm_ex"
  by (simp add: session_ok_def values_ok_def timers_ok_def start_ok_def legal_times_def confirm_ex_def bgpd_ex_def)

lemma establish_refresh_none: "af_cap b = (\<lambda>_ _. 0) \<Longrightarrow> establish_refresh afs b = Inr b"
  by (induction afs) (auto simp: CHECK_FLAG_def)

lemma establish_restart_keeps:
  "af_cap (establish_restart b) = af_cap b" "v_keepalive (establish_restart b) = v_keepalive b"
proof -
  have f: "af_cap (fold restart_af xs b) = af_cap b \<and> v_keepalive (fold restart_af xs b) = v_keepalive b" for xs b
    by (induction xs arbitrary: b) (auto simp: restart_af_def ext_call_def Let_def split: prod.split)
  show "af_cap (establish_restart b) = af_cap b" "v_keepalive (establish_restart b) = v_keepalive b"
    using f by (simp_all add: establish_restart_def Let_def)
qed

lemma establish_plain:
  assumes "af_cap b = (\<lambda>_ _. 0)" "v_keepalive b = 0"
  shows "\<exists>b'. bgp_establish b = Inr b'"
  using assms by (simp add: bgp_establish_def Let_def establish_restart_keeps establish_refresh_none bgp_fsm_change_status_def)


text \<open>What a session looks like after it was stopped: no descriptor, no threads.\<close>

definition disconnected :: "bgpd \<Rightarrow> bool" where
  "disconnected b \<longleftrightarrow> fd b < 0 \<and> t_read b = None \<and> t_write b = None"

lemma fold_reset_disconnected: "disconnected (fold reset_family xs b) = disconnected b"
  by (induction xs arbitrary: b) (auto simp: reset_family_def disconnected_def split: prod.split)

lemma stop_disconnected: "bgp_stop b = Some (Inr b') \<Longrightarrow> disconnected b'"
proof -
  have "disconnected (stop_tail (stop_head b) ib wb h f)" for ib wb h f
  proof -
    have "disconnected (close_fd ((stop_head b)\<lparr>ibuf := ib, work := wb, streams := h, obuf := f\<rparr>))"
      by (simp add: disconnected_def close_fd_def ext_call_def stop_head_def session_timers_off_def BGP_READ_OFF_def
          BGP_WRITE_OFF_def Let_def)
    then show ?thesis
      unfolding stop_tail_def using fold_reset_disconnected [of all_families]
      by (simp add: reset_hold_values_def disconnected_def)
  qed
  moreover assume "bgp_stop b = Some (Inr b')"
  ultimately show ?thesis unfolding bgp_stop_eq by (auto simp del: bind_eqs elim!: bindE)
qed

definition clear_calls :: "ext_call list" where
  "clear_calls = map (\<lambda>(afi, safi). Clear_Route afi safi) all_families"

lemma clear_route_calls:
  "calls (bgp_clear_route afi safi b) = calls b @ [Clear_Route afi safi]"
  "disconnected (bgp_clear_route afi safi b) = disconnected b"
  by (simp_all add: bgp_clear_route_def Let_def ext_call_def BGP_EVENT_ADD_def disconnected_def)

lemma clear_route_all_calls:
  "calls (bgp_clear_route_all b) = calls b @ clear_calls" "disconnected (bgp_clear_route_all b) = disconnected b"
proof -
  have "calls (fold (\<lambda>(afi, safi). bgp_clear_route afi safi) xs b) = calls b @ map (\<lambda>(afi, safi). Clear_Route afi safi) xs" for xs
    by (induction xs arbitrary: b) (simp_all add: split_def clear_route_calls)
  then show "calls (bgp_clear_route_all b) = calls b @ clear_calls" by (simp add: bgp_clear_route_all_def clear_calls_def)
  have "disconnected (fold (\<lambda>(afi, safi). bgp_clear_route afi safi) xs b) = disconnected b" for xs
    by (induction xs arbitrary: b) (simp_all add: split_def clear_route_calls)
  then show "disconnected (bgp_clear_route_all b) = disconnected b" by (simp add: bgp_clear_route_all_def)
qed

lemma timer_set_keeps [simp]:
  "calls (bgp_timer_set b) = calls b" "disconnected (bgp_timer_set b) = disconnected b" "fd (bgp_timer_set b) = fd b"
  "t_read (bgp_timer_set b) = t_read b"
  by (auto simp: bgp_timer_set_def session_timers_off_def hold_timers_on_def disconnected_def split: bgp_status.split)

lemma change_status_clearing:
  "calls (bgp_fsm_change_status Clearing b) = calls b @ clear_calls"
  "disconnected (bgp_fsm_change_status Clearing b) = disconnected b"
proof -
  have "disconnected (b1\<lparr>ostatus := x, status := y\<rparr>) = disconnected b1" for b1 x y by (simp add: disconnected_def)
  then show "calls (bgp_fsm_change_status Clearing b) = calls b @ clear_calls"
    "disconnected (bgp_fsm_change_status Clearing b) = disconnected b"
    using clear_route_all_calls [of b] by (simp_all add: bgp_fsm_change_status_def Let_def)
qed

lemma stop_call:
  assumes "fsm_call f b = Some (Inr (ret, b'))" "0 \<le> ret" "f \<in> {F_stop, F_stop_with_error, F_holdtime_expire}" "values_ok b"
  shows "disconnected b' \<and> status b' = status b"
proof -
  from assms have "\<exists>b1. bgp_stop b1 = Some (Inr b') \<and> status b1 = status b"
    by (auto simp del: bind_eqs simp: fsm_call_def Let_def bgp_stop_with_error_def bgp_fsm_holdtime_expire_def
        elim!: bindE split: if_splits dest!: notify_status) blast+
  then obtain b1 where "bgp_stop b1 = Some (Inr b')" "status b1 = status b" by blast
  then show ?thesis using stop_disconnected [of b1 b'] stop_status [of b1 b'] by simp
qed

text \<open>C27: An event that ends an Established session leaves nothing of it behind: the socket is closed, the
  read and write threads are off and the routes of all address families are being cleared, in state
  Clearing. The exceptions are a peer that is deleted, and the event Clearing_Completed, which moves
  the session to Idle with its socket open.\<close>

theorem established_left_disconnected:
  assumes "bgp_event e b = Some (Inr (ret, b'))" "values_ok b" "status b = Established" "status b' \<noteq> Established"
  shows "status b' = Deleted \<or>
    status b' = Idle \<and> e = Clearing_Completed \<and> fd b' = fd b \<and> t_read b' = t_read b \<and> calls b' = calls b \<or>
    status b' = Clearing \<and> disconnected b' \<and> (\<exists>cs. calls b' = cs @ clear_calls)"
  using assms(1)
proof (cases rule: event_cases)
  case (1 b1)
  have "fst (FSM (status b) e) \<noteq> F_establish" using fsm_established [of "status b" e] assms(3) by auto
  then show ?thesis using fsm_call_status [OF 1(1) assms(2)] 1(3) assms(3,4) by auto
next
  case (2 b1)
  from fsm_established [of "status b" e] assms(3,4) 2(3)
  consider (ignored) "FSM (status b) e = (F_ignore, Idle)" "e = Clearing_Completed"
    | (clear) "snd (FSM (status b) e) = Clearing" "fst (FSM (status b) e) \<in> {F_stop, F_stop_with_error, F_holdtime_expire}"
    by auto
  then show ?thesis
  proof cases
    case ignored
    with 2(1) have "b1 = b" by (simp add: fsm_call_def Let_def)
    then show ?thesis using 2(4) ignored assms(3) by (simp add: bgp_fsm_change_status_def)
  next
    case clear
    have "disconnected b1" "status b1 = Established" using stop_call [OF 2(1,2) clear(2) assms(2)] assms(3) by simp_all
    then show ?thesis using 2(4) clear(1) by (simp add: change_status_clearing)
  qed
qed

text \<open>The input and output buffers of a peer: what \<open>bgp_stop\<close> needs.\<close>

definition buf_ok :: "stream option \<Rightarrow> bool" where
  "buf_ok x \<longleftrightarrow> (\<forall>s. x = Some s \<longrightarrow> stream_ok s)"

lemma reset_buf_ok: "buf_ok x \<Longrightarrow> \<exists>y. reset_buf x = Inr y"
  by (auto simp: reset_buf_def buf_ok_def stream_reset_def split: option.splits)

lemma clean_ok:
  "chain h (head f) xs \<Longrightarrow> distinct xs \<Longrightarrow> \<exists>h'. stream_fifo_clean h f = Some (Inr (h', stream_fifo_new))"
  using free_loop_chain [of h "head f" xs] by (auto simp: stream_fifo_clean_def stream_fifo_new_def)

lemma stop_head_buffers [simp]:
  "ibuf (stop_head b) = ibuf b" "work (stop_head b) = work b" "obuf (stop_head b) = obuf b" "streams (stop_head b) = streams b"
  by (simp_all add: stop_head_def Let_def session_timers_off_def BGP_WRITE_OFF_def BGP_READ_OFF_def stop_established_def
      BGP_EVENT_FLUSH_def)

lemma stop_tail_obuf [simp]: "obuf (stop_tail b ib wb h f) = f"
proof -
  have "obuf (fold reset_family xs b) = obuf b" for xs b
    by (induction xs arbitrary: b) (auto simp: reset_family_def split: prod.split)
  then show ?thesis by (simp add: stop_tail_def reset_hold_values_def close_fd_def ext_call_def)
qed

lemma stop_returns:
  assumes "buf_ok (ibuf b)" "buf_ok (work b)" "chain (streams b) (head (obuf b)) xs" "distinct xs"
  shows "\<exists>b'. bgp_stop b = Some (Inr b') \<and> obuf b' = stream_fifo_new"
  using reset_buf_ok [OF assms(1)] reset_buf_ok [OF assms(2)] clean_ok [OF assms(3,4)] by (auto simp: bgp_stop_eq)

lemma change_status_obuf [simp]: "obuf (bgp_fsm_change_status st b) = obuf b"
proof -
  have "obuf (fold (\<lambda>(afi, safi). bgp_clear_route afi safi) xs b) = obuf b" for xs b
    by (induction xs arbitrary: b) (auto simp: bgp_clear_route_def Let_def ext_call_def BGP_EVENT_ADD_def split: prod.split)
  then show ?thesis by (simp add: bgp_fsm_change_status_def Let_def bgp_clear_route_all_def)
qed

lemma timer_set_obuf [simp]: "obuf (bgp_timer_set b) = obuf b"
  by (auto simp: bgp_timer_set_def session_timers_off_def hold_timers_on_def split: bgp_status.split)

definition lost_events :: "fsm_event list" where
  "lost_events = [BGP_Stop, TCP_connection_open, TCP_connection_closed, TCP_connection_open_failed, TCP_fatal_error,
     ConnectRetry_timer_expired, Receive_OPEN_message]"

text \<open>C2: When the connection of an Established session is lost or the session is stopped, the handler always
  returns: the session is in state Clearing, its socket closed, its threads off, its output queue empty,
  and the clearing of the routes of every address family was requested.\<close>

theorem lost_session_is_cleared:
  assumes "status b = Established" "e \<in> set lost_events" "buf_ok (ibuf b)" "buf_ok (work b)"
    "chain (streams b) (head (obuf b)) xs" "distinct xs"
  shows "\<exists>b'. bgp_event e b = Some (Inr (0, b')) \<and> status b' = Clearing \<and> disconnected b' \<and>
    obuf b' = stream_fifo_new \<and> (\<exists>cs. calls b' = cs @ clear_calls)"
proof -
  obtain b1 where b1: "bgp_stop b = Some (Inr b1)" "obuf b1 = stream_fifo_new" using stop_returns [OF assms(3-6)] by blast
  have "FSM Established e = (F_stop, Clearing)"
    using assms(2) by (auto simp: lost_events_def FSM_def FSM_row_def event_index_def)
  then have "bgp_event e b = Some (Inr (0, bgp_timer_set (bgp_fsm_change_status Clearing b1)))"
    using assms(1) b1(1) stop_status [OF b1(1)] by (simp add: bgp_event_def fsm_call_def Let_def)
  then show ?thesis using b1(2) stop_disconnected [OF b1(1)] by (auto simp: change_status_clearing)
qed

definition stop_ex :: bgpd where
  "stop_ex = bgpd_ex\<lparr>status := Established, fd := 7\<rparr>"

lemma stop_ex_values: "values_ok stop_ex"
  by (simp add: values_ok_def start_ok_def legal_times_def stop_ex_def bgpd_ex_def)

theorem established_left_disconnected_witness:
  "\<exists>ret b'. bgp_event TCP_connection_closed stop_ex = Some (Inr (ret, b')) \<and> status b' = Clearing \<and> disconnected b'"
proof -
  obtain b1 where b1: "bgp_stop stop_ex = Some (Inr b1)"
    using stop_returns [of stop_ex "[]"] by (auto simp: buf_ok_def stop_ex_def bgpd_ex_def stream_fifo_new_def)
  have "status b1 = Established" using stop_status [OF b1] by (simp add: stop_ex_def)
  with b1 have "bgp_event TCP_connection_closed stop_ex =
      Some (Inr (0, bgp_timer_set (bgp_fsm_change_status Clearing b1)))"
    by (simp add: bgp_event_def FSM_def FSM_row_def event_index_def fsm_call_def Let_def stop_ex_def)
  then obtain ret b' where "bgp_event TCP_connection_closed stop_ex = Some (Inr (ret, b'))" "status b' = Clearing"
    by simp
  then show ?thesis using established_left_disconnected [of TCP_connection_closed stop_ex ret b'] stop_ex_values
    by (auto simp: stop_ex_def)
qed

definition lost_ex :: bgpd where
  "lost_ex = stop_ex\<lparr>brk := 1, obuf := \<lparr>count = 1, head = Some 0, tail = Some 0\<rparr>,
     streams := [0 \<mapsto> \<lparr>snext = None, sbuf = stream_ex\<rparr>]\<rparr>"

theorem lost_session_is_cleared_witness:
  "\<exists>b'. bgp_event TCP_fatal_error lost_ex = Some (Inr (0, b')) \<and> status b' = Clearing \<and> obuf b' = stream_fifo_new"
proof -
  have "status lost_ex = Established" "buf_ok (ibuf lost_ex)" "buf_ok (work lost_ex)"
    "chain (streams lost_ex) (head (obuf lost_ex)) [0]"
    by (simp_all add: lost_ex_def stop_ex_def bgpd_ex_def buf_ok_def)
  then show ?thesis using lost_session_is_cleared [of lost_ex TCP_fatal_error "[0]"] by (auto simp: lost_events_def)
qed

end
