(* ===== verification/Spec2Isabelle.thy ===== *)
theory Spec2Isabelle
  imports Stream_Fifo Route_Walk Pqueue_Heap As_Path_Facts Prefix_List Bgp_Send_Facts
    Bgp_Receive_Facts Bgp_Update_Facts Bgp_Session_Facts
begin

text \<open>
  A verification development for the routing software of the network simulation: the
  Quagga tree under \<open>src/quagga-ns3-old\<close>, in which the BGP daemon \<open>bgpd\<close> is built over
  the common library \<open>lib\<close>.

  \<^bold>\<open>Parts and theories.\<close> Each theory models one part of the source, in the order of the
  file, with the names of the source; the map from definitions to lines goes with it.

  \<^item> \<open>Quagga_Prelude\<close>: outcomes of C code (\<open>c_error + 'a\<close>, with \<open>rbind\<close> for sequencing and
    \<open>c_assert\<close>), checked access to memory blocks (\<open>mem_get\<close>, \<open>mem_put\<close>), values of type
    \<open>size_t\<close> (naturals with the wrap-around at \<open>2 ^ 64\<close> written out), big-endian bytes.
  \<^item> \<open>Prefix_Addr\<close> (\<open>lib/prefix.c\<close>, \<open>lib/prefix.h\<close>): address prefixes, masks, matching,
    parsing. A prefix is a record of family, length and the 16 bytes of the union.
  \<^item> \<open>Stream_Buffer\<close> (\<open>lib/stream.c\<close>, \<open>lib/network.c\<close>): \<open>struct stream\<close>, the buffer that
    every packet is read from and written to. Every access is checked against the block, so
    that an overrun is the outcome \<open>Out_Of_Bounds\<close>.
  \<^item> \<open>Stream_Fifo\<close> (\<open>lib/stream.c\<close>): \<open>struct stream_fifo\<close>, the queues of packets, over an
    explicit store of streams linked by \<open>next\<close>.
  \<^item> \<open>Route_Table\<close> (\<open>lib/table.c\<close>): the radix tree of the routing table, over an explicit
    store of nodes. \<open>Route_Insert\<close>, \<open>Route_Delete\<close> and \<open>Route_Walk\<close> hold its proofs.
  \<^item> \<open>Prefix_List\<close> (\<open>lib/plist.c\<close>): prefix lists, the commands that change them and the lists
    received as outbound route filters. A list refines a map from numbers to rules.
  \<^item> \<open>Pqueue_Heap\<close> (\<open>lib/pqueue.c\<close>): the binary heap with its update callback.
  \<^item> \<open>As_Path\<close> (\<open>bgpd/bgp_aspath.c\<close>): AS paths; \<open>As_Path_Facts\<close> holds the proofs.
  \<^item> \<open>Bgp_Peer\<close> (\<open>bgpd/bgpd.h\<close>): \<open>struct peer\<close> and the parts of \<open>struct bgp\<close> that sessions use, as
    one record \<open>bgpd\<close>: the fields of the peer, then the state that all peers share (the store of
    streams, the queued events, the files of the trust extension, the filter lists), the
    bytes handed to the kernel (\<open>sent\<close>), the requests to the routing information base (\<open>calls\<close>) and the
    answers of the operating system (\<open>env\<close>).
  \<^item> \<open>Bgp_Send\<close> (\<open>bgpd/bgp_packet.c\<close>): making and writing packets: KEEPALIVE with the trust and
    voting messages that go with it, NOTIFICATION, ROUTE-REFRESH, the output queue and \<open>bgp_write\<close>;
    \<open>Bgp_Send_Facts\<close> holds the proofs.
  \<^item> \<open>Bgp_Open\<close> (\<open>bgpd/bgp_open.c\<close>): the options of OPEN messages, built and parsed.
  \<^item> \<open>Bgp_Fsm\<close> (\<open>bgpd/bgp_fsm.c\<close>): the state machine: timers, actions, the transition table and
    \<open>bgp_event\<close>.
  \<^item> \<open>Bgp_Receive\<close> (\<open>bgpd/bgp_packet.c\<close>): trust and voting messages, NOTIFICATION, KEEPALIVE,
    ROUTE-REFRESH and CAPABILITY; \<open>Bgp_Receive_Facts\<close> has theorems about the last two.
  \<^item> \<open>Bgp_Update\<close> (\<open>bgpd/bgp_packet.c\<close>, \<open>bgpd/bgp_route.c\<close>): UPDATE messages; \<open>Bgp_Update_Facts\<close>
    has theorems about their reachability fields.
  \<^item> \<open>Bgp_Read\<close> (\<open>bgpd/bgp_packet.c\<close>): OPEN messages with collision detection, reading the header,
    dispatching, \<open>bgp_read\<close>.
  \<^item> \<open>Bgp_Frame\<close>: for each handler that sends or receives, the lemma that it keeps the session part
    of the state (status, timers and their values).
  \<^item> \<open>Bgp_Session\<close> (\<open>bgpd/bgpd.c\<close>, \<open>bgpd/bgp_network.c\<close>): creating and accepting peers, commands,
    and the step relation \<open>bgp_step\<close>, in which all handlers of all peers interleave;
    \<open>Bgp_Session_Facts\<close> has the invariants of reachable states.

  \<^bold>\<open>What the lemmas show.\<close> Streams: every operation stays inside the buffer, what is
  written is read back, for all value widths by one locale (\<open>stream_codec\<close>) interpreted for
  each. FIFOs: the linked list refines an abstract queue (locale \<open>queue_interface\<close>). Route
  table: the store holds a tree (\<open>tree_at\<close>) that is ordered (\<open>trie_ok\<close>); lookup, longest
  match, insertion, deletion, iteration and freeing are related to functions on that tree.
  Priority queue: the array is a heap, so that dequeuing sorts, and the callback always
  knows the position of each element (locale \<open>priority_queue\<close>). AS paths: normal form, wire
  and string round trips, size of the string buffer, reconciliation, aggregation,
  prepending. Sending: a KEEPALIVE queues the right messages, and \<open>bgp_write\<close> puts the
  bytes of the queue on the wire in order, whatever part of them each system call accepts. Sessions: in each
  reachable state only the timers of that state are armed and their values are legal;
  a session becomes Established in one way only; when it is lost its connection is
  closed, its queue emptied and its routes cleared. UPDATE: the syntax check accepts exactly
  the encodings of lists of prefixes, and the parser hands over what the sender wrote.
  Theorems of the form \<open>..._wraps\<close>, \<open>..._off_by_one\<close>, \<open>..._overlength\<close>, \<open>..._loses_asns\<close>, \<open>..._hangs\<close>
  and \<open>..._remove_the_list\<close> state where the code departs from what it means to do.

  \<^bold>\<open>Termination.\<close> No fuel is used. Loops over pointers are \<open>partial_function (option)\<close>,
  where \<open>None\<close> is a loop that never ends, and the theorems show that on a well-formed store
  the result is \<open>Some\<close>; all other loops are total functions. The loops of the receiving
  handlers over the input buffer are partial functions too, since one of them does not
  always end.

  \<^bold>\<open>Outside the model.\<close> Allocation never fails (\<open>zmalloc\<close> aborts); a fresh address is an
  argument of the operations that allocate. System calls are arguments. The parser of path
  attributes, the routing information base and the making of UPDATE packets are
  arguments (\<open>update_env\<close>, \<open>rib\<close>, and the generator of \<open>bgp_write\<close>); the invariants assume of them that they
  keep the session part of the state (\<open>quiet_update\<close>, \<open>quiet_gen\<close>). Log messages and
  terminal output are left out. The hash table that interns paths is modelled by the value
  it returns.

  \<^bold>\<open>Not modelled.\<close> The decision process and the tables of routes of \<open>bgpd\<close>, its attributes,
  route maps, communities and peer groups. The other routing daemons (\<open>ospfd\<close>, \<open>ospf6d\<close>, \<open>ripd\<close>, \<open>ripngd\<close>,
  \<open>isisd\<close>), which are separate systems; \<open>zebra\<close>, which drives the kernel; the command
  interpreter; the simulation scripts, which consist of calls to ns-3.
\<close>

section \<open>From the sender to the receiver\<close>

text \<open>C4: Prefixes that one side writes with \<open>stream_put_prefix\<close> into the field of an UPDATE message arrive at
  the routing information base of the other side: when they fit into the buffer and none is an IPv4 multicast
  prefix, the writing succeeds, the receiver's syntax check passes, and its parser hands over exactly these prefixes in
  their order, except for IPv6 link-local ones.\<close>

theorem nlri_written_is_parsed:
  assumes "stream_ok s" "readable s = []" "afi = AFI_IP \<or> afi = AFI_IP6" "list_all (nlri_ok afi) ps"
    "list_all (\<lambda>p. \<not> multicast afi safi p) ps" "length (nlri_field ps) \<le> space s" "status b = Established"
  shows "\<exists>s'. put_all (\<lambda>p s. stream_put_prefix s p) ps s = Inr s' \<and>
    bgp_nlri_sanity_check afi (readable s') b = Some (Inr (0, b)) \<and>
    bgp_nlri_parse rib attr \<lparr>nlri_afi = afi, nlri_safi = safi, nlri_bytes = readable s'\<rparr> b =
      rib_all rib attr afi safi (filter (\<lambda>p. \<not> linklocal afi safi p) ps) b"
proof (intro exI conjI)
  let ?s = "appended (nlri_field ps) s"
  show "put_all (\<lambda>p s. stream_put_prefix s p) ps s = Inr ?s" using put_prefixes assms by blast
  have r: "readable ?s = nlri_field ps" using readable_appended assms(1,2,6) by simp
  show "bgp_nlri_sanity_check afi (readable ?s) b = Some (Inr (0, b))"
    using nlri_sane_field [OF assms(4,3)] r by (simp add: bgp_nlri_sanity_check_def)
  show "bgp_nlri_parse rib attr \<lparr>nlri_afi = afi, nlri_safi = safi, nlri_bytes = readable ?s\<rparr> b =
      rib_all rib attr afi safi (filter (\<lambda>p. \<not> linklocal afi safi p) ps) b"
    using nlri_loop_field [OF assms(3,4,5)] assms(7) r by (simp add: bgp_nlri_parse_def)
qed

theorem nlri_written_is_parsed_witness:
  "\<exists>s' b'. put_all (\<lambda>p s. stream_put_prefix s p) [prefix_ten, prefix_ten] stream_ex0 = Inr s' \<and>
    bgp_nlri_parse rib_ex None \<lparr>nlri_afi = AFI_IP, nlri_safi = SAFI_UNICAST, nlri_bytes = readable s'\<rparr>
      (bgpd_ex\<lparr>status := Established\<rparr>) = Some (Inr (0, b')) \<and> update_time b' = 16"
proof -
  have "list_all (\<lambda>p. \<not> multicast AFI_IP SAFI_UNICAST p) [prefix_ten, prefix_ten]"
    "\<not> linklocal AFI_IP SAFI_UNICAST prefix_ten" "prefixlen prefix_ten = 8" "readable stream_ex0 = []"
    "4 \<le> space stream_ex0" by code_simp+
  then show ?thesis
    using nlri_written_is_parsed [OF stream_ex_ok(2), of AFI_IP "[prefix_ten, prefix_ten]" SAFI_UNICAST
        "bgpd_ex\<lparr>status := Established\<rparr>" rib_ex None]
    by (auto simp: prefix_ten_ok rib_ex_def bgpd_ex_def)
qed

end
